(* ===== verification/Prelude.thy ===== *)
theory Prelude
  imports
    "HOL-Library.Word"
    "HOL-Library.Sublist"
    "HOL-Library.AList"
    "HOL-Library.Char_ord"
    "HOL-Library.List_Lexorder"
begin

unbundle bit_operations_syntax

text \<open>
  Shared vocabulary of the development.

  \<^item> \<open>byte\<close>, \<open>bytes\<close>, \<open>u32\<close>, \<open>u64\<close>: Go's \<^verbatim>\<open>byte\<close>, \<^verbatim>\<open>[]byte\<close>, \<^verbatim>\<open>uint32\<close>, \<^verbatim>\<open>uint64\<close>, at
    their width. A Go \<^verbatim>\<open>string\<close> is a byte sequence and is modelled by \<open>string\<close> (a list of
    8-bit characters), so its order \<^verbatim>\<open><\<close> is the bytewise lexicographic one.
  \<^item> A Go \<^verbatim>\<open>error\<close> is the list of the sentinel errors that \<^verbatim>\<open>errors.Is\<close> finds in it; the empty
    list is an error that wraps no sentinel. Messages are not modelled. A fallible function
    returns \<open>'a result\<close>, with \<open>Inl\<close> for the error; a run-time panic is the sentinel
    \<open>Panic\<close>.
  \<^item> A Go \<^verbatim>\<open>map\<close> is an association list with distinct keys. Its order stands for the
    (unspecified) order in which a \<^verbatim>\<open>range\<close> loop visits the map.
  \<^item> The part of the package \<^verbatim>\<open>strings\<close> and of \<^verbatim>\<open>encoding/hex\<close> that the sources use.
\<close>

named_theorems path_simps \<open>evaluation of the string primitives\<close>
named_theorems go_map_simps \<open>laws of association lists used as Go maps\<close>

section \<open>Machine types\<close>

type_synonym byte = "8 word"
type_synonym bytes = "8 word list"
type_synonym u32 = "32 word"
type_synonym u64 = "64 word"

section \<open>Errors (core/errors)\<close>

datatype sentinel =
    ErrHashMismatch
  | ErrInvalidHash
  | ErrInvalidEntity
  | ErrInvalidEnvelope
  | ErrUnknownAlgorithm
  | ErrDuplicateMapKey
  | ErrNonCanonicalECF
  | ErrNotFound
  | ErrAlreadyExists
  | ErrCapabilityDenied
  | ErrAuthenticationFailed
  | ErrChainUnreachable
  | ErrBundleChainUnreachable
  | ErrChainTooDeep
  | ErrUnresolvableGrantee
  | ErrCapabilityRevoked
  | ErrConnectionRequired
  | ErrConnectionEstablished
  | ErrConnectionSequence
  | ErrTTLExhausted
  | ErrBudgetExhausted
  | ErrCycleDetected
  | ErrUnsupportedContentHashFormat
  | ErrFrameTooLarge
  | ErrEnvelopeDecode
  | ErrEOF
  | ErrUnexpectedEOF
  | ErrEventBufferFull
  | ErrShuttingDown
  | Panic

type_synonym error = "sentinel list"

type_synonym 'a result = "error + 'a"

text \<open>\<^verbatim>\<open>errors.Is(err, target)\<close>.\<close>

definition errors_Is :: "error \<Rightarrow> sentinel \<Rightarrow> bool" where
  "errors_Is e s \<longleftrightarrow> s \<in> set e"

fun is_ok :: "'a result \<Rightarrow> bool" where
  "is_ok (Inl _) = False"
| "is_ok (Inr _) = True"

lemma is_ok_iff: "is_ok r \<longleftrightarrow> (\<exists>x. r = Inr x)"
  by (cases r) auto

text \<open>When a step of a fallible computation succeeds.\<close>

lemma ok_if: "(if c then Inl e else r) = Inr v \<longleftrightarrow> \<not> c \<and> r = Inr v"
  by simp

lemma ok_sum: "(case s of Inl e \<Rightarrow> Inl (f e) | Inr x \<Rightarrow> g x) = Inr v \<longleftrightarrow> (\<exists>x. s = Inr x \<and> g x = Inr v)"
  by (auto split: sum.split)

lemma ok_option: "(case s of None \<Rightarrow> Inl e | Some x \<Rightarrow> g x) = Inr v \<longleftrightarrow> (\<exists>x. s = Some x \<and> g x = Inr v)"
  by (auto split: option.split)

lemmas ok_simps = ok_if ok_sum ok_option

section \<open>Package strings\<close>

abbreviation (input) slash :: char where
  "slash \<equiv> CHR ''/''"

definition HasPrefix :: "string \<Rightarrow> string \<Rightarrow> bool" where
  "HasPrefix s p \<longleftrightarrow> take (length p) s = p"

definition HasSuffix :: "string \<Rightarrow> string \<Rightarrow> bool" where
  "HasSuffix s x \<longleftrightarrow> length x \<le> length s \<and> drop (length s - length x) s = x"

definition TrimPrefix :: "string \<Rightarrow> string \<Rightarrow> string" where
  "TrimPrefix s p = (if HasPrefix s p then drop (length p) s else s)"

definition TrimSuffix :: "string \<Rightarrow> string \<Rightarrow> string" where
  "TrimSuffix s x = (if HasSuffix s x then take (length s - length x) s else s)"

text \<open>
  \<open>cut_slash s\<close> is the idiom \<^verbatim>\<open>idx := strings.Index(s, "/")\<close> with \<^verbatim>\<open>s[:idx]\<close> and \<^verbatim>\<open>s[idx+1:]\<close>:
  \<open>None\<close> where the index is negative.
\<close>

fun cut_slash :: "string \<Rightarrow> (string \<times> string) option" where
  "cut_slash [] = None"
| "cut_slash (c # cs) =
     (if c = slash then Some ([], cs)
      else (case cut_slash cs of None \<Rightarrow> None | Some (a, b) \<Rightarrow> Some (c # a, b)))"

text \<open>\<^verbatim>\<open>strings.Contains(s, sub)\<close>.\<close>

fun Contains :: "string \<Rightarrow> string \<Rightarrow> bool" where
  "Contains [] sub = (sub = [])"
| "Contains (c # cs) sub = (HasPrefix (c # cs) sub \<or> Contains cs sub)"

subsection \<open>Laws\<close>

lemma HasPrefix_iff: "HasPrefix s p \<longleftrightarrow> (\<exists>r. s = p @ r)"
  unfolding HasPrefix_def by (metis append_eq_conv_conj append_take_drop_id)

lemma HasPrefix_append [simp]: "HasPrefix (p @ r) p"
  by (simp add: HasPrefix_def)

lemma HasPrefix_refl [simp]: "HasPrefix s s"
  by (simp add: HasPrefix_def)

lemma HasPrefix_Nil [simp]: "HasPrefix s []"
  by (simp add: HasPrefix_def)

lemma HasPrefix_Cons [simp]: "HasPrefix (c # s) (d # p) \<longleftrightarrow> c = d \<and> HasPrefix s p"
  by (auto simp: HasPrefix_def)

lemma HasPrefix_of_Nil [simp]: "HasPrefix [] p \<longleftrightarrow> p = []"
  by (auto simp: HasPrefix_def)

lemma HasPrefix_append_cancel [simp]: "HasPrefix (q @ x) (q @ y) \<longleftrightarrow> HasPrefix x y"
  by (induction q) simp_all

lemma HasPrefix_trans: "HasPrefix s p \<Longrightarrow> HasPrefix p q \<Longrightarrow> HasPrefix s q"
  by (auto simp: HasPrefix_iff)

lemma HasPrefix_drop: "HasPrefix s p \<Longrightarrow> p @ drop (length p) s = s"
  by (auto simp: HasPrefix_iff)

lemma HasPrefix_comparable: "HasPrefix s p \<Longrightarrow> HasPrefix s q \<Longrightarrow> HasPrefix p q \<or> HasPrefix q p"
  by (auto simp: HasPrefix_iff append_eq_append_conv2)

lemma HasSuffix_iff: "HasSuffix s x \<longleftrightarrow> (\<exists>u. s = u @ x)"
proof
  assume "HasSuffix s x"
  then have "s = take (length s - length x) s @ x"
    unfolding HasSuffix_def by (metis append_take_drop_id)
  then show "\<exists>u. s = u @ x" ..
qed (auto simp: HasSuffix_def)

lemma HasSuffix_append [simp]: "HasSuffix (u @ x) x"
  by (simp add: HasSuffix_def)

lemma HasSuffix_obtain:
  assumes "HasSuffix s x"
  obtains u where "s = u @ x"
  using assms by (auto simp: HasSuffix_iff)

lemma TrimSuffix_append [simp]: "TrimSuffix (u @ x) x = u"
  by (simp add: TrimSuffix_def)

lemma TrimPrefix_append [simp]: "TrimPrefix (p @ u) p = u"
  by (simp add: TrimPrefix_def)

lemma cut_slash_None: "cut_slash s = None \<longleftrightarrow> slash \<notin> set s"
  by (induction s) (auto split: option.splits)

lemma cut_slash_Some: "cut_slash s = Some (a, b) \<longleftrightarrow> s = a @ slash # b \<and> slash \<notin> set a"
proof (induction s arbitrary: a)
  case (Cons c s)
  show ?case
  proof (cases "c = slash")
    case False
    then have "cut_slash (c # s) = Some (a, b) \<longleftrightarrow> (\<exists>a'. a = c # a' \<and> cut_slash s = Some (a', b))"
      by (auto split: option.split)
    also have "\<dots> \<longleftrightarrow> (\<exists>a'. a = c # a' \<and> s = a' @ slash # b \<and> slash \<notin> set a')"
      by (simp only: Cons.IH)
    also have "\<dots> \<longleftrightarrow> c # s = a @ slash # b \<and> slash \<notin> set a"
      using False by (cases a) auto
    finally show ?thesis .
  next
    case True
    then show ?thesis by (cases a) auto
  qed
qed simp

lemma cut_slash_append [simp]: "slash \<notin> set a \<Longrightarrow> cut_slash (a @ slash # b) = Some (a, b)"
  by (simp add: cut_slash_Some)

lemma split_slash_unique:
  "a @ slash # b = x @ slash # t \<Longrightarrow> slash \<notin> set a \<Longrightarrow> slash \<notin> set x \<Longrightarrow> a = x \<and> b = t"
  by (metis cut_slash_append option.inject prod.inject)

lemma Contains_char: "Contains s [c] \<longleftrightarrow> c \<in> set s"
  by (induction s) auto

lemmas path_eval [path_simps] =
  HasPrefix_def HasSuffix_def TrimPrefix_def TrimSuffix_def

section \<open>Package encoding/hex\<close>

definition hextable :: string where
  "hextable = ''0123456789abcdef''"

definition hex_digit :: "nat \<Rightarrow> char" where
  "hex_digit n = hextable ! n"

text \<open>\<^verbatim>\<open>fromHexChar\<close>: both cases are read, only lower case is written.\<close>

definition unhex_digit :: "char \<Rightarrow> nat option" where
  "unhex_digit c =
     (let k = of_char c :: nat in
      if 48 \<le> k \<and> k \<le> 57 then Some (k - 48)
      else if 97 \<le> k \<and> k \<le> 102 then Some (k - 87)
      else if 65 \<le> k \<and> k \<le> 70 then Some (k - 55)
      else None)"

fun hex_EncodeToString :: "bytes \<Rightarrow> string" where
  "hex_EncodeToString [] = []"
| "hex_EncodeToString (b # bs) =
     hex_digit (unat b div 16) # hex_digit (unat b mod 16) # hex_EncodeToString bs"

fun hex_DecodeString :: "string \<Rightarrow> bytes result" where
  "hex_DecodeString [] = Inr []"
| "hex_DecodeString [c] = Inl []"
| "hex_DecodeString (c # d # cs) =
     (case (unhex_digit c, unhex_digit d) of
        (Some x, Some y) \<Rightarrow>
          (case hex_DecodeString cs of
             Inl e \<Rightarrow> Inl e
           | Inr bs \<Rightarrow> Inr (of_nat (16 * x + y) # bs))
      | _ \<Rightarrow> Inl [])"

lemma unhex_hex_digit: "n < 16 \<Longrightarrow> unhex_digit (hex_digit n) = Some n"
  by (simp add: less_Suc_eq numeral_eq_Suc) (auto simp: hex_digit_def hextable_def unhex_digit_def Let_def)

lemma unat_byte_less [simp]: "unat (b :: byte) < 256"
  using unsigned_less [of b] by simp

lemma hex_decode_encode [simp]: "hex_DecodeString (hex_EncodeToString bs) = Inr bs"
proof (induction bs)
  case (Cons b bs)
  have "unat b div 16 < 16"
    using unat_byte_less [of b] by (auto simp: less_mult_imp_div_less)
  moreover have "of_nat (16 * (unat b div 16) + unat b mod 16) = b"
    by simp
  ultimately show ?case
    using Cons.IH by (simp add: unhex_hex_digit)
qed simp

lemma hex_encode_inj: "hex_EncodeToString a = hex_EncodeToString b \<longleftrightarrow> a = b"
  by (metis hex_decode_encode sum.inject(2))

lemma hex_encode_length [simp]: "length (hex_EncodeToString bs) = 2 * length bs"
  by (induction bs) auto

lemma hex_digit_chars: "n < 16 \<Longrightarrow> hex_digit n \<in> set hextable"
  unfolding hex_digit_def by (rule nth_mem) (simp add: hextable_def)

lemma hex_chars: "set (hex_EncodeToString bs) \<subseteq> set hextable"
proof (induction bs)
  case (Cons b bs)
  have "unat b div 16 < 16" "unat b mod 16 < 16"
    using unat_byte_less [of b] by (auto simp: less_mult_imp_div_less)
  then show ?case
    using Cons.IH by (simp add: hex_digit_chars)
qed simp

lemma hex_no_slash: "slash \<notin> set (hex_EncodeToString bs)"
  using hex_chars [of bs] by (auto simp: hextable_def)

lemma hex_decode_slash: "slash \<in> set s \<Longrightarrow> \<not> is_ok (hex_DecodeString s)"
proof (induction s rule: hex_DecodeString.induct)
  case (3 c d cs)
  have "unhex_digit slash = None"
    by code_simp
  with 3 show ?case
    by (cases "unhex_digit c"; cases "unhex_digit d") (auto split: sum.splits)
qed simp_all

section \<open>Go maps\<close>

type_synonym ('k, 'v) gomap = "('k \<times> 'v) list"

definition gm_get :: "('k, 'v) gomap \<Rightarrow> 'k \<Rightarrow> 'v option" where
  "gm_get m k = map_of m k"

definition gm_set :: "('k, 'v) gomap \<Rightarrow> 'k \<Rightarrow> 'v \<Rightarrow> ('k, 'v) gomap" where
  "gm_set m k v = AList.update k v m"

definition gm_delete :: "('k, 'v) gomap \<Rightarrow> 'k \<Rightarrow> ('k, 'v) gomap" where
  "gm_delete m k = AList.delete k m"

definition gm_wf :: "('k, 'v) gomap \<Rightarrow> bool" where
  "gm_wf m \<longleftrightarrow> distinct (map fst m)"

lemma gm_get_Nil [simp, go_map_simps]: "gm_get [] k = None"
  by (simp add: gm_get_def)

lemma gm_get_set [simp, go_map_simps]:
  "gm_get (gm_set m k v) k' = (if k' = k then Some v else gm_get m k')"
  by (simp add: gm_get_def gm_set_def update_conv')

lemma gm_get_delete [simp, go_map_simps]:
  "gm_get (gm_delete m k) k' = (if k' = k then None else gm_get m k')"
  by (simp add: gm_get_def gm_delete_def delete_conv')

lemma gm_get_set_fun: "gm_get (gm_set m k v) = (gm_get m)(k \<mapsto> v)"
  by (rule ext) simp

lemma gm_wf_Nil [simp, go_map_simps]: "gm_wf []"
  by (simp add: gm_wf_def)

lemma gm_wf_set [simp, go_map_simps]: "gm_wf m \<Longrightarrow> gm_wf (gm_set m k v)"
  by (simp add: gm_wf_def gm_set_def distinct_update)

lemma gm_wf_delete [simp, go_map_simps]: "gm_wf m \<Longrightarrow> gm_wf (gm_delete m k)"
  by (simp add: gm_wf_def gm_delete_def distinct_delete)

lemma gm_get_mem: "gm_get m k = Some v \<Longrightarrow> (k, v) \<in> set m"
  by (simp add: gm_get_def map_of_SomeD)

lemma gm_get_iff: "gm_wf m \<Longrightarrow> gm_get m k = Some v \<longleftrightarrow> (k, v) \<in> set m"
  by (auto simp: gm_get_def gm_wf_def intro: map_of_SomeD)

section \<open>Codecs\<close>

text \<open>
  The contract of a partial decoder for a total encoder. It is interpreted on every wire form
  of the library that has one (hex, content hashes, frames, variable-length integers).
\<close>

locale codec =
  fixes wf :: "'a \<Rightarrow> bool"
    and enc :: "'a \<Rightarrow> 'b"
    and dec :: "'b \<Rightarrow> 'a result"
  assumes dec_enc: "wf x \<Longrightarrow> dec (enc x) = Inr x"
begin

lemma enc_inj: "wf x \<Longrightarrow> wf y \<Longrightarrow> enc x = enc y \<Longrightarrow> x = y"
  by (metis dec_enc sum.inject(2))

lemma enc_inj_on: "inj_on enc {x. wf x}"
  by (rule inj_onI) (auto dest: enc_inj)

end

interpretation hex_codec: codec "\<lambda>_. True" hex_EncodeToString hex_DecodeString
  by unfold_locales simp

end
