(* ===== verification/Hashing.thy ===== *)
theory Hashing
  imports Prelude
begin

unbundle bit_operations_syntax

text \<open>
  Content hashes: \<^verbatim>\<open>core/hash/hash.go\<close>. A \<^verbatim>\<open>Hash\<close> is a format-code byte and a 64-byte array whose
  bytes beyond the digest length of the format are zero (\<open>hash_wf\<close>).

  Parameters, collected in the record \<open>hash_prims\<close>: the two digest functions of the standard
  library (used only through the length of their results) and the CBOR encoder of
  \<^verbatim>\<open>github.com/fxamacker/cbor\<close> as \<^verbatim>\<open>core/ecf\<close> calls it (\<^verbatim>\<open>EncodeHashable\<close>, and the byte-string form
  of \<^verbatim>\<open>Encode\<close>/\<^verbatim>\<open>Decode\<close>). Later theories extend the record with the codecs they use.
\<close>

record hash =
  Algorithm :: byte
  Digest :: bytes

record hash_prims =
  sha256_Sum256 :: "bytes \<Rightarrow> bytes"
  sha512_Sum384 :: "bytes \<Rightarrow> bytes"
  ecf_EncodeHashable :: "string \<Rightarrow> bytes \<Rightarrow> bytes result"
  ecf_EncodeBytes :: "bytes \<Rightarrow> bytes result"
  ecf_DecodeBytes :: "bytes \<Rightarrow> bytes result"

text \<open>What the library documents of the two digest functions: \<^verbatim>\<open>[32]byte\<close> and \<^verbatim>\<open>[48]byte\<close>.\<close>

definition digest_sizes :: "'p hash_prims_scheme \<Rightarrow> bool" where
  "digest_sizes P \<longleftrightarrow>
     (\<forall>b. length (sha256_Sum256 P b) = 32) \<and> (\<forall>b. length (sha512_Sum384 P b) = 48)"

section \<open>Constants and the Hash type\<close>

definition AlgorithmSHA256 :: byte where "AlgorithmSHA256 = 0x00"

definition AlgorithmSHA384 :: byte where "AlgorithmSHA384 = 0x01"

definition MaxDigestSize :: nat where "MaxDigestSize = 64"

definition SHA256DigestSize :: nat where "SHA256DigestSize = 32"

definition SHA384DigestSize :: nat where "SHA384DigestSize = 48"

lemmas hash_consts [simp] =
  AlgorithmSHA256_def AlgorithmSHA384_def MaxDigestSize_def SHA256DigestSize_def SHA384DigestSize_def

definition DigestLen :: "byte \<Rightarrow> nat" where
  "DigestLen alg =
     (if alg = AlgorithmSHA256 then SHA256DigestSize
      else if alg = AlgorithmSHA384 then SHA384DigestSize
      else 0)"

definition Algorithms :: bytes where
  "Algorithms = [AlgorithmSHA256, AlgorithmSHA384]"

definition HashWireSize :: "byte \<Rightarrow> nat" where
  "HashWireSize alg = (let d = DigestLen alg in if d = 0 then 0 else 1 + d)"

text \<open>Go's \<^verbatim>\<open>copy(dst, src)\<close> on a whole destination slice.\<close>

definition copy_into :: "bytes \<Rightarrow> bytes \<Rightarrow> bytes" where
  "copy_into dst src = take (length dst) src @ drop (length src) dst"

definition zero_digest :: bytes where
  "zero_digest = replicate MaxDigestSize 0"

text \<open>The zero value \<^verbatim>\<open>Hash{}\<close>.\<close>

definition zero_hash :: hash where
  "zero_hash = \<lparr>Algorithm = 0, Digest = zero_digest\<rparr>"

definition IsZero :: "hash \<Rightarrow> bool" where
  "IsZero h \<longleftrightarrow> h = zero_hash"

definition EffectiveDigest :: "hash \<Rightarrow> bytes" where
  "EffectiveDigest h = take (DigestLen (Algorithm h)) (Digest h)"

definition NewSHA256 :: "bytes \<Rightarrow> hash" where
  "NewSHA256 d =
     \<lparr>Algorithm = AlgorithmSHA256,
      Digest = copy_into (take SHA256DigestSize zero_digest) (take SHA256DigestSize d)
                 @ drop SHA256DigestSize zero_digest\<rparr>"

definition NewSHA384 :: "bytes \<Rightarrow> hash" where
  "NewSHA384 d =
     \<lparr>Algorithm = AlgorithmSHA384,
      Digest = copy_into (take SHA384DigestSize zero_digest) (take SHA384DigestSize d)
                 @ drop SHA384DigestSize zero_digest\<rparr>"

definition ExtendDigest :: "bytes \<Rightarrow> bytes" where
  "ExtendDigest d = copy_into zero_digest (take SHA256DigestSize d)"

section \<open>Computing and validating\<close>

definition OfBytes :: "'p hash_prims_scheme \<Rightarrow> byte \<Rightarrow> bytes \<Rightarrow> hash result" where
  "OfBytes P alg body =
     (if alg = AlgorithmSHA256 then
        Inr \<lparr>Algorithm = alg, Digest = copy_into zero_digest (sha256_Sum256 P body)\<rparr>
      else if alg = AlgorithmSHA384 then
        Inr \<lparr>Algorithm = alg, Digest = copy_into zero_digest (sha512_Sum384 P body)\<rparr>
      else Inl [ErrUnsupportedContentHashFormat])"

definition ComputeFormat ::
  "'p hash_prims_scheme \<Rightarrow> byte \<Rightarrow> string \<Rightarrow> bytes \<Rightarrow> hash result" where
  "ComputeFormat P alg entityType data =
     (case ecf_EncodeHashable P entityType data of
        Inl e \<Rightarrow> Inl e
      | Inr encoded \<Rightarrow> OfBytes P alg encoded)"

definition Compute :: "'p hash_prims_scheme \<Rightarrow> string \<Rightarrow> bytes \<Rightarrow> hash result" where
  "Compute P entityType data = ComputeFormat P AlgorithmSHA256 entityType data"

definition hash_Validate ::
  "'p hash_prims_scheme \<Rightarrow> string \<Rightarrow> bytes \<Rightarrow> hash \<Rightarrow> unit result" where
  "hash_Validate P entityType data claimed =
     (case ComputeFormat P (Algorithm claimed) entityType data of
        Inl e \<Rightarrow> Inl e
      | Inr computed \<Rightarrow> if computed \<noteq> claimed then Inl [ErrHashMismatch] else Inr ())"

section \<open>Wire forms\<close>

definition hash_Bytes :: "hash \<Rightarrow> bytes" where
  "hash_Bytes h =
     (let n = DigestLen (Algorithm h) in
      if n = 0 then [Algorithm h] else Algorithm h # take n (Digest h))"

definition FromBytes :: "bytes \<Rightarrow> hash result" where
  "FromBytes b =
     (case b of
        [] \<Rightarrow> Inl [ErrInvalidHash]
      | alg # rest \<Rightarrow>
          let n = DigestLen alg in
          if n = 0 then Inl [ErrUnknownAlgorithm]
          else if length b \<noteq> 1 + n then Inl [ErrInvalidHash]
          else Inr \<lparr>Algorithm = alg,
                    Digest = copy_into (take n zero_digest) rest @ drop n zero_digest\<rparr>)"

definition ParseHex :: "string \<Rightarrow> hash result" where
  "ParseHex s =
     (case hex_DecodeString s of Inl _ \<Rightarrow> Inl [ErrInvalidHash] | Inr b \<Rightarrow> FromBytes b)"

definition hash_String :: "hash \<Rightarrow> string" where
  "hash_String h =
     (let n = DigestLen (Algorithm h) in
      if Algorithm h = AlgorithmSHA256 then ''ecf-sha256:'' @ hex_EncodeToString (take n (Digest h))
      else if Algorithm h = AlgorithmSHA384 then
        ''ecfv1-sha384:'' @ hex_EncodeToString (take n (Digest h))
      else ''ecf-unknown(0x'' @ hex_EncodeToString [Algorithm h] @ '')'')"

definition hash_MarshalCBOR :: "'p hash_prims_scheme \<Rightarrow> hash \<Rightarrow> bytes result" where
  "hash_MarshalCBOR P h = ecf_EncodeBytes P (hash_Bytes h)"

definition hash_UnmarshalCBOR :: "'p hash_prims_scheme \<Rightarrow> bytes \<Rightarrow> hash result" where
  "hash_UnmarshalCBOR P data =
     (if data = [0xf6] \<or> data = [0xf7] then Inr zero_hash
      else (case ecf_DecodeBytes P data of
              Inl e \<Rightarrow> Inl e
            | Inr raw \<Rightarrow> if raw = [] then Inr zero_hash else FromBytes raw))"

section \<open>Format-code dispatch\<close>

definition DispatchContentHashFormat :: "hash \<Rightarrow> unit result" where
  "DispatchContentHashFormat h =
     (if Algorithm h = AlgorithmSHA256 \<or> Algorithm h = AlgorithmSHA384 then Inr ()
      else Inl [ErrUnsupportedContentHashFormat])"

definition decodeVarintFormatCode :: "bytes \<Rightarrow> (byte \<times> nat) result" where
  "decodeVarintFormatCode b =
     (case b of
        [] \<Rightarrow> Inl [ErrInvalidHash]
      | b0 # rest \<Rightarrow>
          if b0 < 0x80 then
            (if b0 = 0xFF then Inl [ErrUnsupportedContentHashFormat] else Inr (b0, 1))
          else (case rest of
                  [] \<Rightarrow> Inl [ErrInvalidHash]
                | b1 # _ \<Rightarrow>
                    if b1 \<ge> 0x80 then Inl [ErrUnsupportedContentHashFormat]
                    else if b1 > 0x01 then Inl [ErrUnsupportedContentHashFormat]
                    else
                      let v = (b0 AND 0x7F) OR push_bit 7 b1 in
                      if v = 0xFF then Inl [ErrUnsupportedContentHashFormat] else Inr (v, 2)))"

definition DispatchContentHashBytes :: "bytes \<Rightarrow> unit result" where
  "DispatchContentHashBytes b =
     (if b = [] then Inl [ErrInvalidHash]
      else (case decodeVarintFormatCode b of
              Inl e \<Rightarrow> Inl e
            | Inr (alg, _) \<Rightarrow>
                if alg = AlgorithmSHA256 \<or> alg = AlgorithmSHA384 then Inr ()
                else Inl [ErrUnsupportedContentHashFormat]))"

section \<open>Well-formed hashes\<close>

definition hash_wf :: "hash \<Rightarrow> bool" where
  "hash_wf h \<longleftrightarrow>
     length (Digest h) = MaxDigestSize \<and>
     drop (DigestLen (Algorithm h)) (Digest h) =
       replicate (MaxDigestSize - DigestLen (Algorithm h)) 0"

definition allocated :: "byte \<Rightarrow> bool" where
  "allocated alg \<longleftrightarrow> alg \<in> set Algorithms"

lemma allocated_cases: "allocated alg \<longleftrightarrow> alg = 0 \<or> alg = 1"
  by (simp add: allocated_def Algorithms_def)

lemma DigestLen_simps [simp]: "DigestLen 0 = 32" "DigestLen 1 = 48"
  by (simp_all add: DigestLen_def)

lemma DigestLen_eq_0: "DigestLen alg = 0 \<longleftrightarrow> \<not> allocated alg"
  by (simp add: DigestLen_def allocated_cases)

lemma DigestLen_le [simp]: "DigestLen alg \<le> 64"
  by (simp add: DigestLen_def)

lemma hash_wf_zero [simp]: "hash_wf zero_hash"
  by (simp add: hash_wf_def zero_hash_def zero_digest_def)

lemma length_zero_digest [simp]: "length zero_digest = 64"
  by (simp add: zero_digest_def)

lemma OfBytes_wf:
  assumes "digest_sizes P" and "OfBytes P alg body = Inr h"
  shows "hash_wf h \<and> Algorithm h = alg \<and> allocated alg"
  using assms
  by (auto simp: OfBytes_def digest_sizes_def hash_wf_def copy_into_def zero_digest_def
      allocated_cases split: if_splits)

lemma ComputeFormat_wf:
  assumes "digest_sizes P" and "ComputeFormat P alg t d = Inr h"
  shows "hash_wf h \<and> Algorithm h = alg \<and> allocated alg"
  using assms by (auto simp: ComputeFormat_def dest: OfBytes_wf split: sum.splits)

lemma ComputeFormat_Algorithm: "ComputeFormat P alg t d = Inr h \<Longrightarrow> Algorithm h = alg"
  by (auto simp: ComputeFormat_def OfBytes_def split: sum.splits if_splits)

lemma hash_Validate_iff:
  "hash_Validate P t d h = Inr () \<longleftrightarrow> ComputeFormat P (Algorithm h) t d = Inr h"
  by (auto simp: hash_Validate_def split: sum.splits if_splits)

section \<open>The wire form is a bijection onto the accepted byte strings\<close>

lemma FromBytes_Bytes:
  assumes "hash_wf h" and "allocated (Algorithm h)"
  shows "FromBytes (hash_Bytes h) = Inr h"
proof -
  let ?n = "DigestLen (Algorithm h)"
  have n: "?n \<noteq> 0" "?n \<le> 64"
    using assms(2) by (simp_all add: DigestLen_eq_0)
  have len: "length (Digest h) = 64"
    using assms(1) by (simp add: hash_wf_def)
  have "copy_into (take ?n zero_digest) (take ?n (Digest h)) @ drop ?n zero_digest
      = take ?n (Digest h) @ drop ?n (Digest h)"
    using n len assms(1) by (simp add: copy_into_def hash_wf_def zero_digest_def)
  then show ?thesis
    using n len by (cases h) (simp add: FromBytes_def hash_Bytes_def Let_def)
qed

lemma FromBytes_Inr:
  assumes "FromBytes b = Inr h"
  shows "hash_wf h" and "allocated (Algorithm h)" and "hash_Bytes h = b"
proof -
  obtain alg rest where b: "b = alg # rest"
    using assms by (cases b) (auto simp: FromBytes_def)
  let ?n = "DigestLen alg"
  have n: "?n \<noteq> 0" and len: "length rest = ?n"
    and h: "h = \<lparr>Algorithm = alg,
                 Digest = copy_into (take ?n zero_digest) rest @ drop ?n zero_digest\<rparr>"
    using assms b by (auto simp: FromBytes_def Let_def split: if_splits)
  have d: "Digest h = rest @ replicate (64 - ?n) 0"
    using h len by (simp add: copy_into_def zero_digest_def)
  show "allocated (Algorithm h)"
    using n h by (simp add: DigestLen_eq_0)
  show "hash_wf h"
    using h len d by (simp add: hash_wf_def)
  show "hash_Bytes h = b"
    using h len n d b by (simp add: hash_Bytes_def Let_def)
qed

interpretation hash_codec: codec "\<lambda>h. hash_wf h \<and> allocated (Algorithm h)" hash_Bytes FromBytes
  by unfold_locales (simp add: FromBytes_Bytes)

lemma hash_Bytes_inj:
  "hash_wf h \<Longrightarrow> allocated (Algorithm h) \<Longrightarrow> hash_wf h' \<Longrightarrow> allocated (Algorithm h') \<Longrightarrow>
   hash_Bytes h = hash_Bytes h' \<Longrightarrow> h = h'"
  by (rule hash_codec.enc_inj) auto

lemma hash_Bytes_nonempty [simp]: "hash_Bytes h \<noteq> []"
  by (simp add: hash_Bytes_def Let_def)

text \<open>
  C33. The parser of wire hashes accepts exactly the byte strings that are the wire form of a
  well-formed hash of an allocated format, and returns that hash: \<^verbatim>\<open>FromBytes\<close> and \<^verbatim>\<open>Bytes\<close> are
  inverse to each other on their domains.
\<close>

theorem FromBytes_iff:
  "FromBytes b = Inr h \<longleftrightarrow> hash_wf h \<and> allocated (Algorithm h) \<and> b = hash_Bytes h"
  by (auto simp: FromBytes_Bytes dest: FromBytes_Inr)

end
