(* ===== verification/Ecf.thy ===== *)
theory Ecf
  imports Prelude
begin

unbundle bit_operations_syntax

text \<open>
  The tag scanner of \<^verbatim>\<open>core/ecf/forbid_tags.go\<close>. It walks one CBOR data item by offset and refuses
  tags, indefinite lengths, reserved additional information and truncated input.

  The Go recursion is modelled with a fuel argument that bounds the nesting depth (\<open>None\<close> is
  running out of it). Every nested item starts at least one byte further, so \<open>length data + 1\<close>
  is enough (\<open>forbidTagsScan_total\<close>), and that is the fuel \<open>ForbidTags\<close> uses.

  The specification is a grammar: \<open>ecf_item\<close> holds of the byte strings that encode one
  definite-length, tag-free CBOR item (RFC 8949, section 3).
\<close>

section \<open>The scanner\<close>

text \<open>\<^verbatim>\<open>binary.BigEndian\<close>: the value of a big-endian byte string.\<close>

definition be_value :: "bytes \<Rightarrow> nat" where
  "be_value bs = foldl (\<lambda>a b. a * 256 + unat b) 0 bs"

text \<open>Two's complement: \<^verbatim>\<open>int(x)\<close> on a 64-bit platform and the wrap-around of \<^verbatim>\<open>int\<close> addition.\<close>

definition wrap_int64 :: "int \<Rightarrow> int" where
  "wrap_int64 x = (x + 2 ^ 63) mod 2 ^ 64 - 2 ^ 63"

text \<open>The argument of an item head at \<open>off\<close> (just past the initial byte).\<close>

definition read_arg :: "bytes \<Rightarrow> nat \<Rightarrow> nat \<Rightarrow> (nat \<times> nat) result" where
  "read_arg data off ai =
     (let fixed = (\<lambda>n. if off + n > length data then Inl [ErrNonCanonicalECF]
                       else Inr (be_value (take n (drop off data)), off + n)) in
      if ai < 24 then Inr (ai, off)
      else if ai = 24 then fixed 1
      else if ai = 25 then fixed 2
      else if ai = 26 then fixed 4
      else if ai = 27 then fixed 8
      else if ai = 31 then Inl [ErrNonCanonicalECF]
      else Inl [ErrNonCanonicalECF])"

fun forbidTagsScan :: "nat \<Rightarrow> bytes \<Rightarrow> nat \<Rightarrow> nat result option"
  and forbidTagsItems :: "nat \<Rightarrow> bytes \<Rightarrow> nat \<Rightarrow> nat \<Rightarrow> nat result option" where
  "forbidTagsScan 0 data off = None"
| "forbidTagsScan (Suc fuel) data off =
     (if off \<ge> length data then Some (Inl [ErrNonCanonicalECF])
      else
        let ib = data ! off; major = unat (drop_bit 5 ib); ai = unat (ib AND 0x1f) in
        case read_arg data (off + 1) ai of
          Inl e \<Rightarrow> Some (Inl e)
        | Inr (arg, off) \<Rightarrow>
            if major = 0 \<or> major = 1 then Some (Inr off)
            else if major = 2 \<or> major = 3 then
              (let endp = wrap_int64 (int off + wrap_int64 (int arg)) in
               if endp > int (length data) \<or> endp < int off then Some (Inl [ErrNonCanonicalECF])
               else Some (Inr (nat endp)))
            else if major = 4 then forbidTagsItems fuel data arg off
            else if major = 5 then forbidTagsItems fuel data (2 * arg) off
            else if major = 6 then Some (Inl [ErrNonCanonicalECF])
            else if major = 7 then Some (Inr off)
            else Some (Inl [ErrNonCanonicalECF]))"
| "forbidTagsItems fuel data 0 off = Some (Inr off)"
| "forbidTagsItems fuel data (Suc n) off =
     (case forbidTagsScan fuel data off of
        None \<Rightarrow> None
      | Some (Inl e) \<Rightarrow> Some (Inl e)
      | Some (Inr off) \<Rightarrow> forbidTagsItems fuel data n off)"

definition ForbidTags :: "bytes \<Rightarrow> unit result option" where
  "ForbidTags data =
     (case forbidTagsScan (length data + 1) data 0 of
        None \<Rightarrow> None
      | Some (Inl e) \<Rightarrow> Some (Inl e)
      | Some (Inr off) \<Rightarrow>
          if off \<noteq> length data then Some (Inl [ErrNonCanonicalECF]) else Some (Inr ()))"

section \<open>The grammar of tag-free, definite-length items\<close>

text \<open>\<open>cbor_head m a h\<close>: the bytes \<open>h\<close> are a head of major type \<open>m\<close> with argument \<open>a\<close>.\<close>

definition arg_width :: "nat \<Rightarrow> nat option" where
  "arg_width ai =
     (if ai < 24 then Some 0 else if ai = 24 then Some 1 else if ai = 25 then Some 2
      else if ai = 26 then Some 4 else if ai = 27 then Some 8 else None)"

definition cbor_head :: "nat \<Rightarrow> nat \<Rightarrow> bytes \<Rightarrow> bool" where
  "cbor_head m a h \<longleftrightarrow>
     (\<exists>ib args. h = ib # args \<and> unat (drop_bit 5 ib) = m \<and>
        arg_width (unat (ib AND 0x1f)) = Some (length args) \<and>
        a = (if args = [] then unat (ib AND 0x1f) else be_value args))"

inductive ecf_item :: "bytes \<Rightarrow> bool" and ecf_items :: "nat \<Rightarrow> bytes \<Rightarrow> bool" where
  scalar: "cbor_head m a h \<Longrightarrow> m \<in> {0, 1, 7} \<Longrightarrow> ecf_item h"
| strng: "cbor_head m a h \<Longrightarrow> m \<in> {2, 3} \<Longrightarrow> length p = a \<Longrightarrow> ecf_item (h @ p)"
| array: "cbor_head 4 a h \<Longrightarrow> ecf_items a p \<Longrightarrow> ecf_item (h @ p)"
| mapping: "cbor_head 5 a h \<Longrightarrow> ecf_items (2 * a) p \<Longrightarrow> ecf_item (h @ p)"
| no_items: "ecf_items 0 []"
| more_items: "ecf_item x \<Longrightarrow> ecf_items n y \<Longrightarrow> ecf_items (Suc n) (x @ y)"

inductive_simps ecf_items_0: "ecf_items 0 xs"
inductive_simps ecf_items_Suc: "ecf_items (Suc n) xs"

section \<open>Arithmetic of the head\<close>

lemma be_value_snoc: "be_value (bs @ [b]) = be_value bs * 256 + unat b"
  by (simp add: be_value_def)

lemma be_value_bound: "be_value bs < 256 ^ length bs"
proof (induction bs rule: rev_induct)
  case Nil
  show ?case by (simp add: be_value_def)
next
  case (snoc b bs)
  have "be_value bs * 256 + unat b < (be_value bs + 1) * 256"
    using unat_byte_less [of b] by simp
  also have "\<dots> \<le> 256 ^ length bs * 256"
    using snoc.IH by (simp only: mult_le_mono1 Suc_eq_plus1 [symmetric] Suc_le_eq)
  finally show ?case by (simp add: be_value_snoc mult.commute)
qed

lemma arg_width_bounds: "arg_width ai = Some w \<Longrightarrow> w \<le> 8"
  by (auto simp: arg_width_def split: if_splits)

lemma read_arg_Inr:
  "read_arg data off ai = Inr (a, e) \<longleftrightarrow>
     (\<exists>w. arg_width ai = Some w \<and> (0 < w \<longrightarrow> off + w \<le> length data) \<and> e = off + w \<and>
          a = (if w = 0 then ai else be_value (take w (drop off data))))"
  by (auto simp: read_arg_def arg_width_def Let_def split: if_splits)

lemma read_arg_error: "read_arg data off ai = Inl e \<Longrightarrow> e = [ErrNonCanonicalECF]"
  by (auto simp: read_arg_def Let_def split: if_splits)

lemma cbor_head_arg_bound:
  assumes "cbor_head m a h" and "length h \<le> 9"
  shows "a < 2 ^ 64"
proof -
  obtain ib args where h: "h = ib # args"
    and a: "a = (if args = [] then unat (ib AND 0x1f) else be_value args)"
    using assms(1) by (auto simp: cbor_head_def)
  have "be_value args < 256 ^ length args" by (rule be_value_bound)
  also have "\<dots> \<le> 256 ^ 8" using assms(2) h by (intro power_increasing) auto
  finally have "be_value args < 2 ^ 64" by simp
  moreover have "unat (ib AND 0x1f) < 2 ^ 64"
    by (rule less_trans [OF unat_byte_less]) simp
  ultimately show ?thesis using a by simp
qed

lemma cbor_head_length: "cbor_head m a h \<Longrightarrow> 0 < length h \<and> length h \<le> 9"
  by (auto simp: cbor_head_def dest: arg_width_bounds)

text \<open>The overflow checks of the source are the exact bound test.\<close>

lemma string_end_ok:
  assumes "off \<le> len" and "len < 2 ^ 63" and "a < 2 ^ 64"
  defines "endp \<equiv> wrap_int64 (int off + wrap_int64 (int a))"
  shows "\<not> (endp > int len \<or> endp < int off) \<longleftrightarrow> off + a \<le> len"
    and "off + a \<le> len \<Longrightarrow> nat endp = off + a"
proof -
  have bounds: "int off \<le> int len" "int len < 2 ^ 63" "int a < 2 ^ 64"
    using assms(1-3) by (auto simp flip: of_nat_less_iff)
  show "\<not> (endp > int len \<or> endp < int off) \<longleftrightarrow> off + a \<le> len"
  proof (cases "int a < 2 ^ 63")
    case True
    then have w: "wrap_int64 (int a) = int a" by (simp add: wrap_int64_def)
    show ?thesis
    proof (cases "int off + int a < 2 ^ 63")
      case True
      then have "endp = int off + int a"
        unfolding endp_def w by (simp add: wrap_int64_def)
      then show ?thesis by auto
    next
      case False
      have "(int off + int a + 2 ^ 63) mod 2 ^ 64 = int off + int a + 2 ^ 63 - 2 ^ 64"
        using False bounds \<open>int a < 2 ^ 63\<close>
        by (subst mod_pos_geq) auto
      then have "endp < 0"
        unfolding endp_def w using bounds \<open>int a < 2 ^ 63\<close> by (simp add: wrap_int64_def)
      with False bounds show ?thesis by auto
    qed
  next
    case False
    have "wrap_int64 (int a) = int a - 2 ^ 64"
      using False bounds unfolding wrap_int64_def by (subst mod_pos_geq) auto
    moreover have "wrap_int64 (int off + (int a - 2 ^ 64)) = int off + (int a - 2 ^ 64)"
      using False bounds by (simp add: wrap_int64_def)
    ultimately have "endp = int off + (int a - 2 ^ 64)" by (simp add: endp_def)
    with False bounds show ?thesis by auto
  qed
  show "nat endp = off + a" if "off + a \<le> len"
  proof -
    have "int a < 2 ^ 63" "int off + int a < 2 ^ 63"
      using that bounds by auto
    then show ?thesis by (simp add: endp_def wrap_int64_def)
  qed
qed

section \<open>The scanner returns\<close>

text \<open>The step of the scanner, by major type.\<close>

definition scan_body :: "nat \<Rightarrow> bytes \<Rightarrow> nat \<Rightarrow> nat \<Rightarrow> nat \<Rightarrow> nat result option" where
  "scan_body f data major arg off =
     (if major \<in> {0, 1, 7} then Some (Inr off)
      else if major \<in> {2, 3} then
        (let endp = wrap_int64 (int off + wrap_int64 (int arg)) in
         if endp > int (length data) \<or> endp < int off then Some (Inl [ErrNonCanonicalECF])
         else Some (Inr (nat endp)))
      else if major = 4 then forbidTagsItems f data arg off
      else if major = 5 then forbidTagsItems f data (2 * arg) off
      else Some (Inl [ErrNonCanonicalECF]))"

lemma scan_Suc:
  assumes "off < length data"
  shows "forbidTagsScan (Suc f) data off =
    (case read_arg data (off + 1) (unat (data ! off AND 0x1f)) of
       Inl e \<Rightarrow> Some (Inl e)
     | Inr (arg, off') \<Rightarrow> scan_body f data (unat (drop_bit 5 (data ! off))) arg off')"
  using assms by (auto simp: scan_body_def Let_def split: sum.splits)

declare forbidTagsScan.simps(2) [simp del]

lemma scan_past_end: "length data \<le> off \<Longrightarrow>
    forbidTagsScan (Suc f) data off = Some (Inl [ErrNonCanonicalECF])"
  by (simp add: forbidTagsScan.simps)

lemma scan_SucE:
  assumes "forbidTagsScan (Suc f) data off = Some r"
  obtains "length data \<le> off" "r = Inl [ErrNonCanonicalECF]"
  | e where "off < length data" "r = Inl e"
      "read_arg data (off + 1) (unat (data ! off AND 0x1f)) = Inl e"
  | a o' where "off < length data"
      "read_arg data (off + 1) (unat (data ! off AND 0x1f)) = Inr (a, o')"
      "scan_body f data (unat (drop_bit 5 (data ! off))) a o' = Some r"
  using assms by (cases "off < length data") (auto simp: scan_Suc scan_past_end split: sum.splits)

lemma scan_body_Inr:
  "scan_body f data m a o' = Some (Inr e) \<longleftrightarrow>
     m \<in> {0, 1, 7} \<and> e = o' \<or>
     m \<in> {2, 3} \<and> \<not> (wrap_int64 (int o' + wrap_int64 (int a)) > int (length data) \<or>
        wrap_int64 (int o' + wrap_int64 (int a)) < int o') \<and>
        e = nat (wrap_int64 (int o' + wrap_int64 (int a))) \<or>
     m = 4 \<and> forbidTagsItems f data a o' = Some (Inr e) \<or>
     m = 5 \<and> forbidTagsItems f data (2 * a) o' = Some (Inr e)"
  by (auto simp: scan_body_def Let_def)

lemma read_arg_bounds:
  assumes "off < length data" and "read_arg data (off + 1) ai = Inr (a, e)"
  shows "off < e \<and> e \<le> length data"
  using assms by (auto simp: read_arg_Inr)

text \<open>An induction rule that follows the step equation.\<close>

lemma scan_induct [case_names fuel step none some]:
  assumes "\<And>data off. P 0 data off"
    and "\<And>f data off. (\<And>n o'. Q f data n o') \<Longrightarrow> P (Suc f) data off"
    and "\<And>f data off. Q f data 0 off"
    and "\<And>f data n off. P f data off \<Longrightarrow> (\<And>o'. Q f data n o') \<Longrightarrow> Q f data (Suc n) off"
  shows "P f data off" and "Q f data n off"
proof -
  have "(\<forall>data off. P f data off) \<and> (\<forall>data n off. Q f data n off)"
  proof (induction f)
    case 0
    have "Q 0 data n off" for data n off
      by (induction n arbitrary: off) (auto intro: assms)
    then show ?case using assms(1) by blast
  next
    case (Suc f)
    then have P: "P (Suc f) data off" for data off using assms(2) by blast
    have "Q (Suc f) data n off" for data n off
      by (induction n arbitrary: off) (auto intro: assms P)
    with P show ?case by blast
  qed
  then show "P f data off" and "Q f data n off" by blast+
qed

lemma scan_result_bounds:
  "forbidTagsScan f data off = Some (Inr e) \<Longrightarrow> off < e \<and> e \<le> length data"
  "off \<le> length data \<Longrightarrow> forbidTagsItems f data n off = Some (Inr e) \<Longrightarrow>
     off \<le> e \<and> e \<le> length data"
proof (induction f data off and f data n off arbitrary: e and e rule: scan_induct)
  case (step f data off)
  from step.prems show ?case
  proof (cases rule: scan_SucE)
    case (3 a o')
    from 3(1,2) have o': "off < o' \<and> o' \<le> length data" by (rule read_arg_bounds)
    have items: "o' \<le> e \<and> e \<le> length data" if "forbidTagsItems f data n o' = Some (Inr e)" for n
      using step.IH [of o' n e] o' that by simp
    from 3(3) o' show ?thesis
      unfolding scan_body_Inr by (elim disjE conjE) (use items in \<open>auto dest: items\<close>)
  qed auto
next
  case (some f data n off)
  from some.prems(2) obtain o' where o': "forbidTagsScan f data off = Some (Inr o')"
    "forbidTagsItems f data n o' = Some (Inr e)"
    by (auto split: option.splits sum.splits)
  from some.IH(1) [OF o'(1)] some.IH(2) [of o' e] o'(2) show ?case by simp
qed auto

lemma scan_total:
  "off \<le> length data \<Longrightarrow> length data - off < f \<Longrightarrow> \<exists>r. forbidTagsScan f data off = Some r"
  "off \<le> length data \<Longrightarrow> length data - off < f \<Longrightarrow> \<exists>r. forbidTagsItems f data n off = Some r"
proof (induction f data off and f data n off rule: scan_induct)
  case (step f data off)
  show ?case
  proof (cases "off < length data")
    case True
    have items: "\<exists>r. forbidTagsItems f data n e = Some r"
      if "read_arg data (off + 1) ai = Inr (a, e)" for ai a e n
      using read_arg_bounds [OF True that] step True by auto
    show ?thesis
      using True items by (auto simp: scan_Suc scan_body_def Let_def split: sum.split)
  qed (simp add: scan_past_end)
next
  case (some f data n off)
  obtain r where r: "forbidTagsScan f data off = Some r"
    using some by blast
  show ?case
  proof (cases r)
    case (Inr o')
    then have "off < o'" "o' \<le> length data"
      using scan_result_bounds(1) [of f data off o'] r by auto
    with some.IH(2) [of o'] some.prems r Inr show ?thesis by auto
  qed (simp add: r)
qed auto

lemma scan_error_class:
  "forbidTagsScan f data off = Some (Inl e) \<Longrightarrow> e = [ErrNonCanonicalECF]"
  "forbidTagsItems f data n off = Some (Inl e) \<Longrightarrow> e = [ErrNonCanonicalECF]"
proof (induction f data off and f data n off arbitrary: e and e rule: scan_induct)
  case (step f data off)
  from step.prems show ?case
  proof (cases rule: scan_SucE)
    case (3 a o')
    then show ?thesis using step.IH by (auto simp: scan_body_def Let_def split: if_splits)
  qed (auto dest: read_arg_error)
next
  case (some f data n off)
  then show ?case
    by (auto split: option.splits sum.splits)
qed auto

lemma forbidTagsScan_total: "\<exists>r. forbidTagsScan (length data + 1) data 0 = Some r"
  using scan_total(1) [of 0 data "length data + 1"] by auto

section \<open>The scanner decides the grammar\<close>

abbreviation (input) slice :: "bytes \<Rightarrow> nat \<Rightarrow> nat \<Rightarrow> bytes" where
  "slice data off n \<equiv> take n (drop off data)"

lemma slice_split: "slice data off (n + m) = slice data off n @ slice data (off + n) m"
  by (simp add: take_add) (simp add: add.commute)

lemma head_read:
  assumes "off < length data" and "read_arg data (off + 1) (unat (data ! off AND 0x1f)) = Inr (a, e)"
  shows "cbor_head (unat (drop_bit 5 (data ! off))) a (slice data off (e - off))"
    and "off < e" and "e \<le> length data"
proof -
  obtain w where w: "arg_width (unat (data ! off AND 0x1f)) = Some w"
    "0 < w \<longrightarrow> off + 1 + w \<le> length data" "e = off + 1 + w"
    "a = (if w = 0 then unat (data ! off AND 0x1f) else be_value (slice data (off + 1) w))"
    using assms(2) by (auto simp: read_arg_Inr)
  have sl: "slice data off (e - off) = data ! off # slice data (off + 1) w"
    using assms(1) w(3) by (simp add: Cons_nth_drop_Suc [symmetric])
  have len: "length (slice data (off + 1) w) = w"
    using w(2) assms(1) by auto
  show "cbor_head (unat (drop_bit 5 (data ! off))) a (slice data off (e - off))"
    unfolding cbor_head_def sl using w(1,4) len by (intro exI conjI) auto
  show "off < e" "e \<le> length data" using w(2,3) assms(1) by auto
qed

lemma read_head:
  assumes "cbor_head m a h" and "slice data off (length h) = h" and "off + length h \<le> length data"
  shows "off < length data" and "unat (drop_bit 5 (data ! off)) = m"
    and "read_arg data (off + 1) (unat (data ! off AND 0x1f)) = Inr (a, off + length h)"
proof -
  obtain ib args where h: "h = ib # args" "unat (drop_bit 5 ib) = m"
    "arg_width (unat (ib AND 0x1f)) = Some (length args)"
    "a = (if args = [] then unat (ib AND 0x1f) else be_value args)"
    using assms(1) by (auto simp: cbor_head_def)
  show off: "off < length data" using assms(3) h(1) by simp
  have "slice data off (length h) = data ! off # slice data (off + 1) (length args)"
    using off h(1) by (simp add: Cons_nth_drop_Suc [symmetric])
  with assms(2) h(1) have ib: "data ! off = ib" and args: "slice data (off + 1) (length args) = args"
    by auto
  show "unat (drop_bit 5 (data ! off)) = m" using ib h(2) by simp
  show "read_arg data (off + 1) (unat (data ! off AND 0x1f)) = Inr (a, off + length h)"
    unfolding read_arg_Inr ib using h(1,3,4) args assms(3)
    by (intro exI [of _ "length args"]) (auto simp: add.commute)
qed

lemma scan_sound:
  "length data < 2 ^ 63 \<Longrightarrow> forbidTagsScan f data off = Some (Inr e) \<Longrightarrow>
     ecf_item (slice data off (e - off))"
  "length data < 2 ^ 63 \<Longrightarrow> off \<le> length data \<Longrightarrow> forbidTagsItems f data n off = Some (Inr e) \<Longrightarrow>
     ecf_items n (slice data off (e - off))"
proof (induction f data off and f data n off arbitrary: e and e rule: scan_induct)
  case (step f data off)
  from step.prems(2) show ?case
  proof (cases rule: scan_SucE)
    case (3 a o')
    note head = head_read [OF 3(1,2)]
    have a: "a < 2 ^ 64"
      by (rule cbor_head_arg_bound [OF head(1)]) (use cbor_head_length [OF head(1)] in simp)
    have split: "slice data off (e - off) = slice data off (o' - off) @ slice data o' (e - o')"
      if "o' \<le> e" using that head(2) slice_split [of "o' - off" "e - o'" off data] by simp
    from 3(3) consider
        "unat (drop_bit 5 (data ! off)) \<in> {0, 1, 7}" "e = o'"
      | "unat (drop_bit 5 (data ! off)) \<in> {2, 3}" "e = o' + a" "e \<le> length data"
      | k where "unat (drop_bit 5 (data ! off)) = 4 \<and> k = a \<or> unat (drop_bit 5 (data ! off)) = 5 \<and> k = 2 * a"
          "forbidTagsItems f data k o' = Some (Inr e)"
      unfolding scan_body_Inr
      using string_end_ok [OF head(3) step.prems(1) a] by auto
    then show ?thesis
    proof cases
      case 1
      with head(1) show ?thesis by (auto intro: ecf_item_ecf_items.scalar)
    next
      case 2
      then have "o' \<le> e" and len: "length (slice data o' (e - o')) = a" by simp_all
      show ?thesis
        unfolding split [OF \<open>o' \<le> e\<close>] by (rule ecf_item_ecf_items.strng [OF head(1) 2(1) len])
    next
      case (3 k)
      have "o' \<le> e" using scan_result_bounds(2) [OF head(3) 3(2)] by simp
      moreover have "ecf_items k (slice data o' (e - o'))"
        by (rule step.IH [OF step.prems(1) head(3) 3(2)])
      ultimately show ?thesis
        using 3(1) head(1) by (auto simp: split intro: ecf_item_ecf_items.array ecf_item_ecf_items.mapping)
    qed
  qed auto
next
  case (some f data n off)
  from some.prems(3) obtain o' where o': "forbidTagsScan f data off = Some (Inr o')"
    "forbidTagsItems f data n o' = Some (Inr e)"
    by (auto split: option.splits sum.splits)
  have b: "off < o'" "o' \<le> length data" "o' \<le> e"
    using scan_result_bounds(1) [OF o'(1)] scan_result_bounds(2) [OF _ o'(2)] by auto
  then have "slice data off (e - off) = slice data off (o' - off) @ slice data o' (e - o')"
    using slice_split [of "o' - off" "e - o'" off data] by simp
  with some.IH(1) [OF some.prems(1) o'(1)] some.IH(2) [OF some.prems(1) b(2) o'(2)] show ?case
    by (auto intro: ecf_item_ecf_items.more_items)
qed (auto intro: ecf_item_ecf_items.no_items)

lemma ecf_item_nonempty: "ecf_item x \<Longrightarrow> 0 < length x"
  by (erule ecf_item.cases) (auto dest: cbor_head_length)

lemma head_leaves: "cbor_head m a h \<Longrightarrow> length h + n \<le> Suc f \<Longrightarrow> n \<le> f"
  by (drule cbor_head_length) linarith

lemma slice_appendD:
  assumes "slice data off (length (x @ y)) = x @ y" and "off + length (x @ y) \<le> length data"
  shows "slice data off (length x) = x" and "slice data (off + length x) (length y) = y"
    and "off + length x \<le> length data" and "off + length x + length y \<le> length data"
  using assms slice_split [of "length x" "length y" off data] by auto

lemma scan_container:
  assumes head: "cbor_head m a h" and k: "m = 4 \<and> k = a \<or> m = 5 \<and> k = 2 * a"
    and IH: "\<And>off f. slice data off (length p) = p \<Longrightarrow> off + length p \<le> length data \<Longrightarrow>
      length p \<le> f \<Longrightarrow> forbidTagsItems f data k off = Some (Inr (off + length p))"
    and at: "slice data off (length (h @ p)) = h @ p" "off + length (h @ p) \<le> length data"
    and fuel: "length (h @ p) \<le> f"
  shows "forbidTagsScan f data off = Some (Inr (off + length (h @ p)))"
proof -
  obtain f' where f: "f = Suc f'" using fuel cbor_head_length [OF head] by (cases f) auto
  note sl = slice_appendD [OF at]
  have "length p \<le> f'" by (rule head_leaves [OF head]) (use fuel f in simp)
  then have "forbidTagsItems f' data k (off + length h) = Some (Inr (off + length h + length p))"
    by (rule IH [OF sl(2,4)])
  with read_head [OF head sl(1,3)] k show ?thesis by (auto simp: f scan_Suc scan_body_def)
qed

lemma scan_complete:
  "ecf_item x \<Longrightarrow> length data < 2 ^ 63 \<Longrightarrow> slice data off (length x) = x \<Longrightarrow>
     off + length x \<le> length data \<Longrightarrow> length x \<le> f \<Longrightarrow>
     forbidTagsScan f data off = Some (Inr (off + length x))"
  "ecf_items n y \<Longrightarrow> length data < 2 ^ 63 \<Longrightarrow> slice data off (length y) = y \<Longrightarrow>
     off + length y \<le> length data \<Longrightarrow> length y \<le> f \<Longrightarrow>
     forbidTagsItems f data n off = Some (Inr (off + length y))"
proof (induction arbitrary: off f and off f rule: ecf_item_ecf_items.inducts)
  case (scalar m a h)
  obtain f' where f: "f = Suc f'" using scalar cbor_head_length by (cases f) fastforce+
  note rd = read_head [OF scalar(1) scalar.prems(2,3)]
  show ?case using rd scalar(2) by (auto simp: f scan_Suc scan_body_def)
next
  case (strng m a h p)
  obtain f' where f: "f = Suc f'" using strng cbor_head_length by (cases f) fastforce+
  note sl = slice_appendD(1) [OF strng.prems(2,3)] and len = slice_appendD(3) [OF strng.prems(2,3)]
  note rd = read_head [OF strng(1) sl len]
  have "a < 2 ^ 64"
    by (rule cbor_head_arg_bound [OF strng(1)]) (use cbor_head_length [OF strng(1)] in simp)
  note ok = string_end_ok [OF len strng.prems(1) this]
  have "off + length h + a \<le> length data" using strng by simp
  with ok have "scan_body f' data m a (off + length h) = Some (Inr (off + length h + a))"
    using strng(2) by (auto simp: scan_body_def Let_def)
  with rd strng(3) show ?case by (simp add: f scan_Suc)
next
  case (array a h p)
  show ?case
    by (rule scan_container [OF array(1) _ array.IH array.prems(2-4)]) (use array.prems(1) in auto)
next
  case (mapping a h p)
  show ?case
    by (rule scan_container [OF mapping(1) _ mapping.IH mapping.prems(2-4)])
      (use mapping.prems(1) in auto)
next
  case (more_items x n y)
  note sl = slice_appendD [OF more_items.prems(2,3)]
  have "forbidTagsScan f data off = Some (Inr (off + length x))"
    by (rule more_items.IH(1) [OF more_items.prems(1) sl(1,3)]) (use more_items.prems(4) in simp)
  moreover have "forbidTagsItems f data n (off + length x) = Some (Inr (off + length x + length y))"
    by (rule more_items.IH(2) [OF more_items.prems(1) sl(2,4)]) (use more_items.prems(4) in simp)
  ultimately show ?case by (simp add: add.assoc)
qed auto

text \<open>
  C34. \<^verbatim>\<open>ForbidTags\<close> always returns, and it accepts exactly the byte strings that are one
  definite-length CBOR item without a tag at any depth, with no trailing bytes; every refusal
  is \<^verbatim>\<open>ErrNonCanonicalECF\<close>. (A Go slice is shorter than \<open>2 ^ 63\<close> bytes.)
\<close>

theorem ForbidTags_decides:
  assumes "length data < 2 ^ 63"
  shows "ForbidTags data =
    Some (if ecf_item data then Inr () else Inl [ErrNonCanonicalECF])"
proof -
  obtain r where r: "forbidTagsScan (length data + 1) data 0 = Some r"
    using forbidTagsScan_total by blast
  show ?thesis
  proof (cases "ecf_item data")
    case True
    then have "forbidTagsScan (length data + 1) data 0 = Some (Inr (0 + length data))"
      using assms by (intro scan_complete(1)) auto
    with True show ?thesis by (simp add: ForbidTags_def)
  next
    case False
    show ?thesis
    proof (cases r)
      case (Inl e)
      then show ?thesis
        using False r scan_error_class(1) by (fastforce simp: ForbidTags_def)
    next
      case (Inr e)
      then have "ecf_item (take e data)" using scan_sound(1) [OF assms] r by fastforce
      with False have "e \<noteq> length data" by auto
      with False Inr r show ?thesis by (simp add: ForbidTags_def)
    qed
  qed
qed

theorem ForbidTags_decides_witness:
  "ForbidTags [0xa1, 0x61, 0x61, 0x82, 0x01, 0x41, 0xff] = Some (Inr ()) \<and>
   ForbidTags [0x81, 0xc0, 0x01] = Some (Inl [ErrNonCanonicalECF]) \<and>
   ecf_item [0xa1, 0x61, 0x61, 0x82, 0x01, 0x41, 0xff] \<and> \<not> ecf_item [0x81, 0xc0, 0x01]"
proof -
  have a: "ForbidTags [0xa1, 0x61, 0x61, 0x82, 0x01, 0x41, 0xff] = Some (Inr ())"
    by code_simp
  have b: "ForbidTags [0x81, 0xc0, 0x01] = Some (Inl [ErrNonCanonicalECF])"
    by code_simp
  show ?thesis
    using a b ForbidTags_decides [of "[0xa1, 0x61, 0x61, 0x82, 0x01, 0x41, 0xff]"]
      ForbidTags_decides [of "[0x81, 0xc0, 0x01]"]
    by (simp split: if_splits)
qed

end
