(* ===== verification/Entity_Model.thy ===== *)
theory Entity_Model
  imports Hashing Ecf
begin

text \<open>
  Entities, envelopes and entity URIs: \<^verbatim>\<open>core/entity/entity.go\<close>, \<^verbatim>\<open>envelope.go\<close>, \<^verbatim>\<open>uri.go\<close>.

  The process-global default format of \<^verbatim>\<open>NewEntity\<close> is an argument. The \<^verbatim>\<open>included\<close> map of an
  envelope is a Go map keyed by content hash. What the CBOR library decodes and encodes here
  (the \<^verbatim>\<open>target\<close> field of a signature, an envelope) extends the parameter record.
\<close>

record entity =
  Type :: string
  Data :: bytes
  ContentHash :: hash

type_synonym included_map = "(hash, entity) gomap"

record envelope =
  Root :: entity
  Included :: included_map

record entity_prims = hash_prims +
  ecf_DecodeTarget :: "bytes \<Rightarrow> hash result"
  ecf_EncodeEnvelope :: "envelope \<Rightarrow> bytes result"
  ecf_DecodeEnvelope :: "bytes \<Rightarrow> envelope result"

section \<open>Entities\<close>

definition typeFloorPinned :: string where
  "typeFloorPinned = ''system/peer''"

definition floorPinnedAlgorithm :: byte where
  "floorPinnedAlgorithm = AlgorithmSHA256"

definition NewEntityFormat ::
  "'p hash_prims_scheme \<Rightarrow> byte \<Rightarrow> string \<Rightarrow> bytes \<Rightarrow> entity result" where
  "NewEntityFormat P alg entityType data =
     (if entityType = '''' then Inl [ErrInvalidEntity]
      else if data = [] then Inl [ErrInvalidEntity]
      else if entityType = typeFloorPinned \<and> alg \<noteq> floorPinnedAlgorithm then Inl [ErrInvalidEntity]
      else (case ComputeFormat P alg entityType data of
              Inl e \<Rightarrow> Inl e
            | Inr h \<Rightarrow> Inr \<lparr>Type = entityType, Data = data, ContentHash = h\<rparr>))"

text \<open>\<^verbatim>\<open>NewEntity\<close>; \<open>dflt\<close> is the value of the process-global \<^verbatim>\<open>defaultHashAlgorithm\<close>.\<close>

definition NewEntity :: "'p hash_prims_scheme \<Rightarrow> byte \<Rightarrow> string \<Rightarrow> bytes \<Rightarrow> entity result" where
  "NewEntity P dflt entityType data = NewEntityFormat P dflt entityType data"

definition Validate :: "'p hash_prims_scheme \<Rightarrow> entity \<Rightarrow> unit result" where
  "Validate P e =
     (if Type e = '''' then Inl [ErrInvalidEntity]
      else if Data e = [] then Inl [ErrInvalidEntity]
      else hash_Validate P (Type e) (Data e) (ContentHash e))"

lemma Validate_iff:
  "Validate P e = Inr () \<longleftrightarrow>
     Type e \<noteq> '''' \<and> Data e \<noteq> [] \<and>
     ComputeFormat P (Algorithm (ContentHash e)) (Type e) (Data e) = Inr (ContentHash e)"
  by (simp add: Validate_def hash_Validate_iff)

lemma NewEntityFormat_Inr:
  "NewEntityFormat P alg t d = Inr e \<longleftrightarrow>
     t \<noteq> '''' \<and> d \<noteq> [] \<and> (t = typeFloorPinned \<longrightarrow> alg = floorPinnedAlgorithm) \<and>
     (\<exists>h. ComputeFormat P alg t d = Inr h \<and> e = \<lparr>Type = t, Data = d, ContentHash = h\<rparr>)"
  by (auto simp: NewEntityFormat_def split: sum.splits)

lemma NewEntityFormat_props:
  assumes "NewEntityFormat P alg t d = Inr e"
  shows "Validate P e = Inr () \<and> Type e = t \<and> Data e = d \<and> Algorithm (ContentHash e) = alg"
proof -
  obtain h where h: "ComputeFormat P alg t d = Inr h" "e = \<lparr>Type = t, Data = d, ContentHash = h\<rparr>"
    "t \<noteq> ''''" "d \<noteq> []"
    using assms by (auto simp: NewEntityFormat_Inr)
  then show ?thesis
    using ComputeFormat_Algorithm [OF h(1)] by (simp add: Validate_iff)
qed

section \<open>A concrete instance of the parameters\<close>

text \<open>
  Used only to evaluate the definitions on concrete inputs: a toy digest that pads its input, a
  toy encoder that keeps it. The laws that later theories assume of the parameters hold for it.
\<close>

definition demo_pad :: "nat \<Rightarrow> bytes \<Rightarrow> bytes" where
  "demo_pad n b = take n (b @ replicate n 0)"

definition demo_hash_prims :: hash_prims where
  "demo_hash_prims =
     \<lparr>sha256_Sum256 = demo_pad 32, sha512_Sum384 = demo_pad 48,
      ecf_EncodeHashable = (\<lambda>t d. Inr (map of_char t @ d)),
      ecf_EncodeBytes = Inr, ecf_DecodeBytes = Inr\<rparr>"

lemma demo_digest_sizes: "digest_sizes demo_hash_prims"
  by (auto simp: digest_sizes_def demo_hash_prims_def demo_pad_def)

definition demo_entity_hash :: hash where
  "demo_entity_hash =
     \<lparr>Algorithm = 0, Digest = map of_char ''test/t'' @ [1] @ replicate 57 0\<rparr>"

definition demo_entity :: entity where
  "demo_entity = \<lparr>Type = ''test/t'', Data = [1], ContentHash = demo_entity_hash\<rparr>"

text \<open>
  An entity built by \<^verbatim>\<open>NewEntityFormat\<close> validates, carries the requested format code, and is
  never a \<^verbatim>\<open>system/peer\<close> entity outside the SHA-256 floor format.
\<close>

theorem NewEntityFormat_validates:
  assumes "NewEntityFormat P alg t d = Inr e"
  shows "Validate P e = Inr () \<and> Type e = t \<and> Data e = d \<and> Algorithm (ContentHash e) = alg \<and>
    (t = typeFloorPinned \<longrightarrow> Algorithm (ContentHash e) = AlgorithmSHA256)"
  using NewEntityFormat_props [OF assms] assms
  by (auto simp: NewEntityFormat_Inr floorPinnedAlgorithm_def)

theorem NewEntityFormat_validates_witness:
  "NewEntityFormat demo_hash_prims 0 ''test/t'' [1] = Inr demo_entity \<and>
   Validate demo_hash_prims demo_entity = Inr ()"
proof -
  have "NewEntityFormat demo_hash_prims 0 ''test/t'' [1] = Inr demo_entity"
    by code_simp
  with NewEntityFormat_validates [OF this] show ?thesis
    by simp
qed

section \<open>Envelopes\<close>

definition NewEnvelope :: "entity \<Rightarrow> included_map \<Rightarrow> envelope" where
  "NewEnvelope root included = \<lparr>Root = root, Included = included\<rparr>"

definition FindIncluded :: "envelope \<Rightarrow> hash \<Rightarrow> entity option" where
  "FindIncluded e h = gm_get (Included e) h"

text \<open>The loop of \<^verbatim>\<open>FindSignatureFor\<close> over the included map.\<close>

fun find_signature_for :: "'p entity_prims_scheme \<Rightarrow> included_map \<Rightarrow> hash \<Rightarrow> entity option" where
  "find_signature_for P [] target = None"
| "find_signature_for P ((_, ent) # rest) target =
     (if Type ent \<noteq> ''system/signature'' then find_signature_for P rest target
      else (case ecf_DecodeTarget P (Data ent) of
              Inl _ \<Rightarrow> find_signature_for P rest target
            | Inr t \<Rightarrow> if t = target then Some ent else find_signature_for P rest target))"

definition FindSignatureFor :: "'p entity_prims_scheme \<Rightarrow> envelope \<Rightarrow> hash \<Rightarrow> entity option" where
  "FindSignatureFor P e target = find_signature_for P (Included e) target"

fun VerifyIncludedKeyBinding :: "'p hash_prims_scheme \<Rightarrow> included_map \<Rightarrow> unit result" where
  "VerifyIncludedKeyBinding P [] = Inr ()"
| "VerifyIncludedKeyBinding P ((h, ent) # rest) =
     (case Validate P ent of
        Inl e \<Rightarrow> Inl e
      | Inr _ \<Rightarrow>
          if h \<noteq> ContentHash ent then Inl [ErrInvalidEntity]
          else VerifyIncludedKeyBinding P rest)"

text \<open>The last loop of \<^verbatim>\<open>ValidateAll\<close>: no included data field carries a tag.\<close>

fun forbid_tags_included :: "included_map \<Rightarrow> unit result option" where
  "forbid_tags_included [] = Some (Inr ())"
| "forbid_tags_included ((_, ent) # rest) =
     (case ForbidTags (Data ent) of
        None \<Rightarrow> None
      | Some (Inl e) \<Rightarrow> Some (Inl e)
      | Some (Inr _) \<Rightarrow> forbid_tags_included rest)"

definition ValidateAll :: "'p hash_prims_scheme \<Rightarrow> envelope \<Rightarrow> unit result option" where
  "ValidateAll P e =
     (case Validate P (Root e) of
        Inl err \<Rightarrow> Some (Inl err)
      | Inr _ \<Rightarrow>
          (case ForbidTags (Data (Root e)) of
             None \<Rightarrow> None
           | Some (Inl err) \<Rightarrow> Some (Inl err)
           | Some (Inr _) \<Rightarrow>
               (case VerifyIncludedKeyBinding P (Included e) of
                  Inl err \<Rightarrow> Some (Inl err)
                | Inr _ \<Rightarrow> forbid_tags_included (Included e))))"

definition Include :: "'p hash_prims_scheme \<Rightarrow> envelope \<Rightarrow> entity \<Rightarrow> envelope" where
  "Include P e ent =
     (case ComputeFormat P (Algorithm (ContentHash ent)) (Type ent) (Data ent) of
        Inr h \<Rightarrow> e\<lparr>Included := gm_set (Included e) h (ent\<lparr>ContentHash := h\<rparr>)\<rparr>
      | Inl _ \<Rightarrow> e\<lparr>Included := gm_set (Included e) (ContentHash ent) ent\<rparr>)"

definition envelope_ToEntity :: "'p entity_prims_scheme \<Rightarrow> byte \<Rightarrow> envelope \<Rightarrow> entity result" where
  "envelope_ToEntity P dflt e =
     (case ecf_EncodeEnvelope P e of
        Inl err \<Rightarrow> Inl err
      | Inr raw \<Rightarrow> NewEntity P dflt ''system/envelope'' raw)"

subsection \<open>Key binding\<close>

text \<open>Every entry is filed under the hash of its own content.\<close>

definition key_bound :: "'p hash_prims_scheme \<Rightarrow> included_map \<Rightarrow> bool" where
  "key_bound P m \<longleftrightarrow> (\<forall>(h, e) \<in> set m. Validate P e = Inr () \<and> h = ContentHash e)"

lemma VerifyIncludedKeyBinding_iff: "VerifyIncludedKeyBinding P m = Inr () \<longleftrightarrow> key_bound P m"
  by (induction m) (auto simp: key_bound_def split: sum.splits if_splits)

lemma key_bound_lookup:
  assumes "key_bound P m" and "gm_get m h = Some e"
  shows "ContentHash e = h" and "Validate P e = Inr ()"
    and "ComputeFormat P (Algorithm h) (Type e) (Data e) = Inr h"
proof -
  from gm_get_mem [OF assms(2)] assms(1)
  show "ContentHash e = h" and "Validate P e = Inr ()" by (auto simp: key_bound_def)
  then show "ComputeFormat P (Algorithm h) (Type e) (Data e) = Inr h"
    by (simp add: Validate_iff)
qed

lemma key_bound_set:
  assumes "key_bound P m" and "Validate P e = Inr ()" and "h = ContentHash e"
  shows "key_bound P (gm_set m h e)"
proof -
  have "set (AList.update h e m) \<subseteq> insert (h, e) (set m)"
    by (induction m) auto
  with assms show ?thesis
    unfolding key_bound_def gm_set_def by fastforce
qed

lemma forbid_tags_included_ok:
  "forbid_tags_included m = Some (Inr ()) \<longleftrightarrow> (\<forall>(h, e) \<in> set m. ForbidTags (Data e) = Some (Inr ()))"
  by (induction m) (auto split: option.splits sum.splits)

lemma forbid_tags_included_cong:
  "forbid_tags_included m \<noteq> None \<Longrightarrow> ForbidTags d \<noteq> None \<Longrightarrow>
     forbid_tags_included ((h, \<lparr>Type = t, Data = d, ContentHash = c\<rparr>) # m) \<noteq> None"
  by (auto split: option.splits sum.splits)

text \<open>
  C35. An envelope passes \<^verbatim>\<open>ValidateAll\<close> exactly when its root validates, no data field carries a
  tag, and every included entity is keyed by the hash recomputed from its own type and data: a
  substituted identity cannot be filed under another entity's hash.
\<close>

theorem ValidateAll_iff:
  "ValidateAll P e = Some (Inr ()) \<longleftrightarrow>
     Validate P (Root e) = Inr () \<and> ForbidTags (Data (Root e)) = Some (Inr ()) \<and>
     (\<forall>(h, ent) \<in> set (Included e).
        Type ent \<noteq> '''' \<and> Data ent \<noteq> [] \<and> ContentHash ent = h \<and>
        ComputeFormat P (Algorithm h) (Type ent) (Data ent) = Inr h \<and>
        ForbidTags (Data ent) = Some (Inr ()))"
proof -
  have "ValidateAll P e = Some (Inr ()) \<longleftrightarrow>
     Validate P (Root e) = Inr () \<and> ForbidTags (Data (Root e)) = Some (Inr ()) \<and>
     VerifyIncludedKeyBinding P (Included e) = Inr () \<and>
     forbid_tags_included (Included e) = Some (Inr ())"
    by (auto simp: ValidateAll_def split: sum.splits option.splits)
  also have "\<dots> \<longleftrightarrow> Validate P (Root e) = Inr () \<and> ForbidTags (Data (Root e)) = Some (Inr ()) \<and>
     (\<forall>(h, ent) \<in> set (Included e).
        Type ent \<noteq> '''' \<and> Data ent \<noteq> [] \<and> ContentHash ent = h \<and>
        ComputeFormat P (Algorithm h) (Type ent) (Data ent) = Inr h \<and>
        ForbidTags (Data ent) = Some (Inr ()))"
    unfolding VerifyIncludedKeyBinding_iff forbid_tags_included_ok key_bound_def Validate_iff
    by fastforce
  finally show ?thesis .
qed

theorem ValidateAll_iff_witness:
  "ValidateAll demo_hash_prims (NewEnvelope demo_entity [(demo_entity_hash, demo_entity)])
     = Some (Inr ())"
proof -
  have "Validate demo_hash_prims demo_entity = Inr ()" and "ForbidTags (Data demo_entity) = Some (Inr ())"
    by code_simp+
  then show ?thesis
    by (simp add: ValidateAll_iff NewEnvelope_def Validate_iff) (simp add: demo_entity_def)
qed

text \<open>
  \<^verbatim>\<open>Include\<close> files an entity under the hash of its content whatever \<^verbatim>\<open>ContentHash\<close> the caller
  stamped on it, and keeps every other entry; an envelope whose entries were key-bound stays so.
\<close>

theorem Include_binds:
  assumes "ComputeFormat P (Algorithm (ContentHash ent)) (Type ent) (Data ent) = Inr h"
    and "Type ent \<noteq> ''''" and "Data ent \<noteq> []"
  shows "FindIncluded (Include P e ent) h = Some (ent\<lparr>ContentHash := h\<rparr>) \<and>
    (\<forall>h'. h' \<noteq> h \<longrightarrow> FindIncluded (Include P e ent) h' = FindIncluded e h') \<and>
    (VerifyIncludedKeyBinding P (Included e) = Inr () \<longrightarrow>
       VerifyIncludedKeyBinding P (Included (Include P e ent)) = Inr ())"
proof -
  have alg: "Algorithm h = Algorithm (ContentHash ent)"
    by (rule ComputeFormat_Algorithm [OF assms(1)])
  with assms have "Validate P (ent\<lparr>ContentHash := h\<rparr>) = Inr ()"
    by (simp add: Validate_iff)
  then show ?thesis
    using assms by (auto simp: Include_def FindIncluded_def VerifyIncludedKeyBinding_iff
        intro!: key_bound_set)
qed

theorem Include_binds_witness:
  "FindIncluded (Include demo_hash_prims (NewEnvelope demo_entity [])
      \<lparr>Type = ''test/t'', Data = [1], ContentHash = zero_hash\<rparr>) demo_entity_hash = Some demo_entity"
proof -
  let ?ent = "\<lparr>Type = ''test/t'', Data = [1], ContentHash = zero_hash\<rparr>"
  have "ComputeFormat demo_hash_prims (Algorithm (ContentHash ?ent)) (Type ?ent) (Data ?ent)
      = Inr demo_entity_hash"
    by code_simp
  from Include_binds [OF this] show ?thesis
    by (simp add: demo_entity_def)
qed

section \<open>Entity URIs\<close>

record URI =
  PeerID :: string
  Path :: string

definition Scheme :: string where
  "Scheme = ''entity://''"

definition ParseURI :: "string \<Rightarrow> URI result" where
  "ParseURI s =
     (if \<not> HasPrefix s Scheme then Inl [ErrInvalidEntity]
      else
        let rest = drop (length Scheme) s in
        if rest = '''' then Inl [ErrInvalidEntity]
        else (case cut_slash rest of
                None \<Rightarrow> Inr \<lparr>PeerID = rest, Path = ''''\<rparr>
              | Some (p, r) \<Rightarrow> Inr \<lparr>PeerID = p, Path = r\<rparr>))"

definition URI_String :: "URI \<Rightarrow> string" where
  "URI_String u =
     (if Path u = '''' then Scheme @ PeerID u else Scheme @ PeerID u @ ''/'' @ Path u)"

definition NormalizePath :: "string \<Rightarrow> string" where
  "NormalizePath uri = (if HasPrefix uri Scheme then ''/'' @ drop (length Scheme) uri else uri)"

definition PathToURI :: "string \<Rightarrow> string" where
  "PathToURI path = Scheme @ TrimPrefix path ''/''"

definition ExtractHandlerPath :: "string \<Rightarrow> string" where
  "ExtractHandlerPath uri =
     (let normalized = NormalizePath uri in
      if \<not> HasPrefix normalized ''/'' then normalized
      else
        let rest = drop 1 normalized in
        case cut_slash rest of None \<Rightarrow> rest | Some (_, r) \<Rightarrow> r)"

lemma Scheme_nonempty [simp]: "Scheme \<noteq> []"
  by (simp add: Scheme_def)

definition uri_wf :: "URI \<Rightarrow> bool" where
  "uri_wf u \<longleftrightarrow> slash \<notin> set (PeerID u) \<and> (Path u = '''' \<longrightarrow> PeerID u \<noteq> '''')"

lemma ParseURI_String: "uri_wf u \<Longrightarrow> ParseURI (URI_String u) = Inr u"
  by (cases u) (auto simp: uri_wf_def ParseURI_def URI_String_def Let_def cut_slash_None [THEN iffD2])

interpretation uri_codec: codec uri_wf URI_String ParseURI
  by unfold_locales (rule ParseURI_String)

lemma NormalizePath_Scheme [simp]: "NormalizePath (Scheme @ r) = slash # r"
  by (simp add: NormalizePath_def)

lemma NormalizePath_absolute [simp]: "NormalizePath (slash # r) = slash # r"
  by (simp add: NormalizePath_def Scheme_def)

text \<open>
  Entity URIs round-trip: parsing what \<^verbatim>\<open>String\<close> prints gives the URI back, every parsed URI has
  a slash-free peer id, and the two spellings \<^verbatim>\<open>entity://peer/rest\<close> and \<^verbatim>\<open>/peer/rest\<close> of one path are
  exchanged by \<^verbatim>\<open>NormalizePath\<close> and \<^verbatim>\<open>PathToURI\<close> and have the same handler path \<^verbatim>\<open>rest\<close>.
\<close>

theorem uri_roundtrip:
  "(uri_wf u \<longrightarrow> ParseURI (URI_String u) = Inr u) \<and>
   (ParseURI s = Inr v \<longrightarrow> slash \<notin> set (PeerID v)) \<and>
   NormalizePath (PathToURI (''/'' @ r)) = ''/'' @ r \<and>
   PathToURI (NormalizePath (Scheme @ r)) = Scheme @ r \<and>
   (slash \<notin> set p \<longrightarrow>
      ExtractHandlerPath (Scheme @ p @ ''/'' @ rest) = rest \<and>
      ExtractHandlerPath (''/'' @ p @ ''/'' @ rest) = rest)"
proof (intro conjI impI)
  show "uri_wf u \<Longrightarrow> ParseURI (URI_String u) = Inr u"
    by (rule ParseURI_String)
  show "ParseURI s = Inr v \<Longrightarrow> slash \<notin> set (PeerID v)"
    by (auto simp: ParseURI_def Let_def cut_slash_None cut_slash_Some split: if_splits option.splits)
qed (simp_all add: PathToURI_def TrimPrefix_def ExtractHandlerPath_def)

theorem uri_roundtrip_witness:
  "uri_wf \<lparr>PeerID = ''p1'', Path = ''system/tree''\<rparr> \<and>
   ParseURI ''entity://p1/system/tree'' = Inr \<lparr>PeerID = ''p1'', Path = ''system/tree''\<rparr> \<and>
   ExtractHandlerPath ''/p1/system/tree'' = ''system/tree''"
proof -
  have "uri_wf \<lparr>PeerID = ''p1'', Path = ''system/tree''\<rparr>"
    by (simp add: uri_wf_def)
  with uri_roundtrip [of "\<lparr>PeerID = ''p1'', Path = ''system/tree''\<rparr>" _ _ _ "''p1''" "''system/tree''"]
  show ?thesis
    by (simp add: URI_String_def Scheme_def)
qed

end
