(* ===== verification/Wire.thy ===== *)
theory Wire
  imports Entity_Model
begin

unbundle bit_operations_syntax

text \<open>
  Framing and the envelope codec: \<^verbatim>\<open>core/wire/frame.go\<close>, \<^verbatim>\<open>core/wire/codec.go\<close>.

  A writer is the list of bytes written to it so far. A reader is the list of bytes it will still
  deliver before the end of the stream; every read returns the reader that is left, also where it
  fails.
\<close>

definition MaxFrameSize :: nat where
  "MaxFrameSize = 16 * 1024 * 1024"

definition frameLenSize :: nat where
  "frameLenSize = 4"

text \<open>\<^verbatim>\<open>binary.BigEndian\<close> on four bytes.\<close>

definition PutUint32 :: "u32 \<Rightarrow> bytes" where
  "PutUint32 v = [ucast (drop_bit 24 v), ucast (drop_bit 16 v), ucast (drop_bit 8 v), ucast v]"

definition Uint32 :: "bytes \<Rightarrow> u32" where
  "Uint32 b = ucast (b ! 3) OR push_bit 8 (ucast (b ! 2)) OR push_bit 16 (ucast (b ! 1))
                OR push_bit 24 (ucast (b ! 0))"

text \<open>\<^verbatim>\<open>io.ReadFull\<close> into a buffer of \<open>n\<close> bytes.\<close>

definition ReadFull :: "nat \<Rightarrow> bytes \<Rightarrow> bytes result \<times> bytes" where
  "ReadFull n r =
     (if n \<le> length r then (Inr (take n r), drop n r)
      else if r = [] then (Inl [ErrEOF], [])
      else (Inl [ErrUnexpectedEOF], []))"

definition WriteFrame :: "bytes \<Rightarrow> bytes \<Rightarrow> unit result \<times> bytes" where
  "WriteFrame w data =
     (if length data > MaxFrameSize then (Inl [ErrFrameTooLarge], w)
      else (Inr (), w @ PutUint32 (of_nat (length data)) @ data))"

definition ReadFrame :: "bytes \<Rightarrow> bytes result \<times> bytes" where
  "ReadFrame r =
     (case ReadFull frameLenSize r of
        (Inl e, r') \<Rightarrow> (Inl e, r')
      | (Inr lenBuf, r') \<Rightarrow>
          let len = Uint32 lenBuf in
          if unat len > MaxFrameSize then (Inl [ErrFrameTooLarge], r')
          else (case ReadFull (unat len) r' of
                  (Inl e, r'') \<Rightarrow> (Inl e, r'')
                | (Inr data, r'') \<Rightarrow> (Inr data, r'')))"

definition WriteEnvelope :: "'p entity_prims_scheme \<Rightarrow> bytes \<Rightarrow> envelope \<Rightarrow> unit result \<times> bytes" where
  "WriteEnvelope P w env =
     (case ecf_EncodeEnvelope P env of
        Inl e \<Rightarrow> (Inl e, w)
      | Inr data \<Rightarrow> WriteFrame w data)"

definition ReadEnvelopeNoValidate ::
  "'p entity_prims_scheme \<Rightarrow> bytes \<Rightarrow> envelope result \<times> bytes" where
  "ReadEnvelopeNoValidate P r =
     (case ReadFrame r of
        (Inl e, r') \<Rightarrow> (Inl e, r')
      | (Inr data, r') \<Rightarrow>
          (case ecf_DecodeEnvelope P data of
             Inl e \<Rightarrow> (Inl (ErrEnvelopeDecode # e), r')
           | Inr env \<Rightarrow> (Inr env, r')))"

text \<open>\<open>None\<close> as the result would be a scan of \<^verbatim>\<open>ForbidTags\<close> that does not end.\<close>

definition ReadEnvelope ::
  "'p entity_prims_scheme \<Rightarrow> bytes \<Rightarrow> envelope result option \<times> bytes" where
  "ReadEnvelope P r =
     (case ReadEnvelopeNoValidate P r of
        (Inl e, r') \<Rightarrow> (Some (Inl e), r')
      | (Inr env, r') \<Rightarrow>
          ((case ValidateAll P env of
              None \<Rightarrow> None
            | Some (Inl e) \<Rightarrow> Some (Inl e)
            | Some (Inr _) \<Rightarrow> Some (Inr env)), r'))"

section \<open>Frames\<close>

lemma PutUint32_length [simp]: "length (PutUint32 v) = 4"
  by (simp add: PutUint32_def)

lemma Uint32_PutUint32 [simp]: "Uint32 (PutUint32 v) = v"
proof (rule bit_word_eqI)
  fix n assume n: "n < LENGTH(32)"
  consider "n < 8" | "8 \<le> n" "n < 16" | "16 \<le> n" "n < 24" | "24 \<le> n" "n < 32"
    using n by fastforce
  then show "bit (Uint32 (PutUint32 v)) n \<longleftrightarrow> bit v n"
    by cases (auto simp: Uint32_def PutUint32_def bit_simps)
qed

lemma MaxFrameSize_bound: "n \<le> MaxFrameSize \<Longrightarrow> unat (of_nat n :: u32) = n"
  by (simp add: MaxFrameSize_def unat_of_nat take_bit_nat_eq_self)

lemma ReadFrame_frame:
  assumes "length d \<le> MaxFrameSize"
  shows "ReadFrame (PutUint32 (of_nat (length d)) @ d @ rest) = (Inr d, rest)"
  using assms by (simp add: ReadFrame_def ReadFull_def frameLenSize_def MaxFrameSize_bound Let_def)

interpretation frame_codec: codec "\<lambda>d. length d \<le> MaxFrameSize"
  "\<lambda>d. PutUint32 (of_nat (length d)) @ d" "\<lambda>r. fst (ReadFrame r)"
  by unfold_locales (use ReadFrame_frame [of _ "[]"] in simp)

text \<open>Writing frames one after the other, and reading as many as were written.\<close>

fun write_frames :: "bytes \<Rightarrow> bytes list \<Rightarrow> unit result \<times> bytes" where
  "write_frames w [] = (Inr (), w)"
| "write_frames w (d # ds) =
     (case WriteFrame w d of (Inl e, w') \<Rightarrow> (Inl e, w') | (Inr _, w') \<Rightarrow> write_frames w' ds)"

fun read_frames :: "nat \<Rightarrow> bytes \<Rightarrow> bytes list result \<times> bytes" where
  "read_frames 0 r = (Inr [], r)"
| "read_frames (Suc n) r =
     (case ReadFrame r of
        (Inl e, r') \<Rightarrow> (Inl e, r')
      | (Inr d, r') \<Rightarrow>
          (case read_frames n r' of
             (Inl e, r'') \<Rightarrow> (Inl e, r'')
           | (Inr ds, r'') \<Rightarrow> (Inr (d # ds), r'')))"

lemma write_frames_append:
  assumes "\<forall>d \<in> set ds. length d \<le> MaxFrameSize"
  shows "write_frames w ds = (Inr (), w @ concat (map (\<lambda>d. PutUint32 (of_nat (length d)) @ d) ds))"
  using assms by (induction ds arbitrary: w) (simp_all add: WriteFrame_def not_less [symmetric])

lemma read_frames_concat:
  assumes "\<forall>d \<in> set ds. length d \<le> MaxFrameSize"
  shows "read_frames (length ds) (concat (map (\<lambda>d. PutUint32 (of_nat (length d)) @ d) ds) @ rest)
    = (Inr ds, rest)"
  using assms by (induction ds) (simp_all add: ReadFrame_frame)

text \<open>
  C36. Framing keeps message boundaries: a sequence of payloads within \<^verbatim>\<open>MaxFrameSize\<close>, written frame
  by frame, is read back as the same sequence, and whatever follows on the stream is left unread.
\<close>

theorem frame_stream_roundtrip:
  assumes "\<forall>d \<in> set ds. length d \<le> MaxFrameSize"
  shows "fst (write_frames [] ds) = Inr () \<and>
    read_frames (length ds) (snd (write_frames [] ds) @ rest) = (Inr ds, rest)"
  using write_frames_append [OF assms, of "[]"] read_frames_concat [OF assms] by simp

theorem frame_stream_roundtrip_witness:
  "read_frames 2 ([0, 0, 0, 1, 7, 0, 0, 0, 0] @ [9]) = (Inr [[7], []], [9])"
  using frame_stream_roundtrip [of "[[7], []]" "[9]"]
  by (simp add: MaxFrameSize_def WriteFrame_def PutUint32_def numeral_2_eq_2)

text \<open>
  A frame is never delivered with the wrong length: what \<^verbatim>\<open>ReadFrame\<close> returns is the length
  prefix's number of payload bytes, at most \<^verbatim>\<open>MaxFrameSize\<close>; a declared length beyond the limit is
  refused before any payload byte is consumed, and a stream that ends early is an error.
\<close>

theorem ReadFrame_cases:
  "ReadFrame r =
     (if length r < 4 then (Inl (if r = [] then [ErrEOF] else [ErrUnexpectedEOF]), [])
      else if unat (Uint32 (take 4 r)) > MaxFrameSize then (Inl [ErrFrameTooLarge], drop 4 r)
      else if length r < 4 + unat (Uint32 (take 4 r))
        then (Inl (if length r = 4 then [ErrEOF] else [ErrUnexpectedEOF]), [])
      else (Inr (take (unat (Uint32 (take 4 r))) (drop 4 r)),
            drop (4 + unat (Uint32 (take 4 r))) r))"
  by (auto simp: ReadFrame_def ReadFull_def frameLenSize_def Let_def add.commute)

section \<open>Envelopes\<close>

lemma ReadEnvelope_ok:
  "fst (ReadEnvelope P r) = Some (Inr env) \<longleftrightarrow>
     (\<exists>d r'. ReadFrame r = (Inr d, r') \<and> ecf_DecodeEnvelope P d = Inr env \<and>
        ValidateAll P env = Some (Inr ()))"
  by (auto simp: ReadEnvelope_def ReadEnvelopeNoValidate_def split: prod.splits sum.splits option.splits)

text \<open>
  C37. An envelope that validates and whose encoding decodes to it is received as it was sent; an
  envelope that \<^verbatim>\<open>ReadEnvelope\<close> delivers has only content-bound entities in it, whatever the bytes.
\<close>

theorem envelope_roundtrip:
  assumes "ecf_EncodeEnvelope P env = Inr d" and "ecf_DecodeEnvelope P d = Inr env"
    and "length d \<le> MaxFrameSize" and "ValidateAll P env = Some (Inr ())"
  shows "fst (WriteEnvelope P [] env) = Inr () \<and>
    ReadEnvelope P (snd (WriteEnvelope P [] env) @ rest) = (Some (Inr env), rest) \<and>
    (\<forall>r env'. fst (ReadEnvelope P r) = Some (Inr env') \<longrightarrow>
       Validate P (Root env') = Inr () \<and> VerifyIncludedKeyBinding P (Included env') = Inr ())"
proof -
  have "WriteEnvelope P [] env = (Inr (), PutUint32 (of_nat (length d)) @ d)"
    using assms by (simp add: WriteEnvelope_def WriteFrame_def)
  moreover have "ReadEnvelope P ((PutUint32 (of_nat (length d)) @ d) @ rest) = (Some (Inr env), rest)"
    using assms ReadFrame_frame [OF assms(3), of rest]
    by (simp add: ReadEnvelope_def ReadEnvelopeNoValidate_def)
  moreover have "ValidateAll P env' = Some (Inr ()) \<Longrightarrow>
      Validate P (Root env') = Inr () \<and> VerifyIncludedKeyBinding P (Included env') = Inr ()" for env'
    by (auto simp: ValidateAll_def split: sum.splits option.splits)
  ultimately show ?thesis
    by (auto simp: ReadEnvelope_ok)
qed

definition demo_entity_prims :: entity_prims where
  "demo_entity_prims = hash_prims.extend demo_hash_prims
     (entity_prims.fields (\<lambda>_. Inr demo_entity_hash) (\<lambda>_. Inr [0xAA])
       (\<lambda>b. if b = [0xAA] then Inr (NewEnvelope demo_entity []) else Inl []))"

theorem envelope_roundtrip_witness:
  "ReadEnvelope demo_entity_prims [0, 0, 0, 1, 0xAA, 5] = (Some (Inr (NewEnvelope demo_entity [])), [5])"
proof -
  have "ValidateAll demo_entity_prims (NewEnvelope demo_entity []) = Some (Inr ())"
    by code_simp
  from envelope_roundtrip [of demo_entity_prims "NewEnvelope demo_entity []" "[0xAA]" "[5]", OF _ _ _ this]
  show ?thesis
    by (simp add: demo_entity_prims_def hash_prims.defs entity_prims.defs MaxFrameSize_def
        WriteEnvelope_def WriteFrame_def PutUint32_def)
qed

end
