(* ===== verification/Peer_Identity.thy ===== *)
theory Peer_Identity
  imports Entity_Model
begin

unbundle bit_operations_syntax

text \<open>
  Peer identities: \<^verbatim>\<open>core/crypto/peerid.go\<close>, \<^verbatim>\<open>identity.go\<close>, the signing part of \<^verbatim>\<open>keypair.go\<close>, and
  the peer and signature data of \<^verbatim>\<open>core/types/crypto.go\<close>.

  A peer id is the Base58 text of \<^verbatim>\<open>varint(key_type) || varint(hash_type) || digest\<close>. Base58
  (\<^verbatim>\<open>github.com/mr-tron/base58\<close>), the signature schemes and the CBOR forms of the peer and signature
  payloads are parameters; \<open>base58_laws\<close> states what the Base58 library documents.
\<close>

record PeerData =
  pd_PublicKey :: bytes
  pd_KeyType :: string

record SignatureData =
  sd_Target :: hash
  sd_Signer :: hash
  sd_Algorithm :: string
  sd_Signature :: bytes

record crypto_prims = entity_prims +
  base58_Encode :: "bytes \<Rightarrow> string"
  base58_Decode :: "string \<Rightarrow> bytes result"
  ed25519_Verify :: "bytes \<Rightarrow> bytes \<Rightarrow> bytes \<Rightarrow> bool"
  ed448_Verify :: "bytes \<Rightarrow> bytes \<Rightarrow> bytes \<Rightarrow> bool"
  ed25519_Sign :: "bytes \<Rightarrow> bytes \<Rightarrow> bytes"
  ed448_Sign :: "bytes \<Rightarrow> bytes \<Rightarrow> bytes"
  ecf_EncodePeerData :: "PeerData \<Rightarrow> bytes result"
  ecf_DecodePeerData :: "bytes \<Rightarrow> PeerData result"
  ecf_EncodeSignatureData :: "SignatureData \<Rightarrow> bytes result"
  ecf_DecodeSignatureData :: "bytes \<Rightarrow> SignatureData result"

text \<open>
  Base58 is a bijection between the non-empty byte strings and the strings the decoder accepts
  (the library refuses the empty string).
\<close>

definition base58_laws :: "'p crypto_prims_scheme \<Rightarrow> bool" where
  "base58_laws P \<longleftrightarrow>
     (\<forall>b. b \<noteq> [] \<longrightarrow> base58_Decode P (base58_Encode P b) = Inr b) \<and>
     (\<forall>s b. base58_Decode P s = Inr b \<longrightarrow> base58_Encode P b = s)"

section \<open>Key types\<close>

definition KeyTypeEd25519 :: byte where "KeyTypeEd25519 = 0x01"

definition KeyTypeEd448 :: byte where "KeyTypeEd448 = 0x02"

definition KeyTypeExperimentalTest :: byte where "KeyTypeExperimentalTest = 0xFE"

definition KeyTypeStringEd25519 :: string where "KeyTypeStringEd25519 = ''ed25519''"

definition KeyTypeStringEd448 :: string where "KeyTypeStringEd448 = ''ed448''"

definition KeyTypeStringExperimentalTest :: string where
  "KeyTypeStringExperimentalTest = ''experimental-test''"

definition ExperimentalTestPublicKeyLen :: nat where "ExperimentalTestPublicKeyLen = 64"

definition HashTypeIdentity :: byte where "HashTypeIdentity = 0x00"

definition HashTypeSHA256 :: byte where "HashTypeSHA256 = 0x01"

definition Ed25519PublicKeyLen :: nat where "Ed25519PublicKeyLen = 32"

definition Ed448PublicKeyLen :: nat where "Ed448PublicKeyLen = 57"

definition Ed448SignatureLen :: nat where "Ed448SignatureLen = 114"

definition SHA256DigestLen :: nat where "SHA256DigestLen = 32"

lemmas key_consts [simp] =
  KeyTypeEd25519_def KeyTypeEd448_def KeyTypeExperimentalTest_def HashTypeIdentity_def
  HashTypeSHA256_def ExperimentalTestPublicKeyLen_def Ed25519PublicKeyLen_def
  Ed448PublicKeyLen_def Ed448SignatureLen_def SHA256DigestLen_def KeyTypeStringEd25519_def
  KeyTypeStringEd448_def KeyTypeStringExperimentalTest_def

definition CanonicalHashType :: "byte \<Rightarrow> byte result" where
  "CanonicalHashType keyType =
     (if keyType = KeyTypeEd25519 then Inr HashTypeIdentity
      else if keyType = KeyTypeEd448 then Inr HashTypeSHA256
      else if keyType = KeyTypeExperimentalTest then Inr HashTypeSHA256
      else Inl [ErrAuthenticationFailed])"

definition KeyTypeString :: "byte \<Rightarrow> string" where
  "KeyTypeString keyType =
     (if keyType = KeyTypeEd25519 then KeyTypeStringEd25519
      else if keyType = KeyTypeEd448 then KeyTypeStringEd448
      else if keyType = KeyTypeExperimentalTest then KeyTypeStringExperimentalTest
      else '''')"

text \<open>\<open>None\<close> is the result \<^verbatim>\<open>(0, false)\<close>.\<close>

definition KeyTypeByte :: "string \<Rightarrow> byte option" where
  "KeyTypeByte s =
     (if s = KeyTypeStringEd25519 then Some KeyTypeEd25519
      else if s = KeyTypeStringEd448 then Some KeyTypeEd448
      else if s = KeyTypeStringExperimentalTest then Some KeyTypeExperimentalTest
      else None)"

definition validatePublicKeyLen :: "bytes \<Rightarrow> byte \<Rightarrow> unit result" where
  "validatePublicKeyLen pub keyType =
     (if keyType = KeyTypeEd25519 then
        (if length pub \<noteq> Ed25519PublicKeyLen then Inl [ErrAuthenticationFailed] else Inr ())
      else if keyType = KeyTypeEd448 then
        (if length pub \<noteq> Ed448PublicKeyLen then Inl [ErrAuthenticationFailed] else Inr ())
      else if keyType = KeyTypeExperimentalTest then
        (if length pub \<noteq> ExperimentalTestPublicKeyLen then Inl [ErrAuthenticationFailed] else Inr ())
      else Inl [ErrAuthenticationFailed])"

section \<open>Variable-length codes\<close>

definition appendVarintU8 :: "bytes \<Rightarrow> byte \<Rightarrow> bytes" where
  "appendVarintU8 buf v = (if v < 0x80 then buf @ [v] else buf @ [v OR 0x80, 0x01])"

definition readVarintU8 :: "bytes \<Rightarrow> (byte \<times> nat) result" where
  "readVarintU8 b =
     (case b of
        [] \<Rightarrow> Inl [ErrAuthenticationFailed]
      | b0 # rest \<Rightarrow>
          if b0 < 0x80 then Inr (b0, 1)
          else (case rest of
                  [] \<Rightarrow> Inl [ErrAuthenticationFailed]
                | b1 # _ \<Rightarrow>
                    if b1 \<ge> 0x80 then Inl [ErrAuthenticationFailed]
                    else if b1 > 0x01 then Inl [ErrAuthenticationFailed]
                    else
                      let v = (b0 AND 0x7F) OR push_bit 7 b1 in
                      if v = 0xFF then Inl [ErrAuthenticationFailed] else Inr (v, 2)))"

section \<open>Deriving peer ids\<close>

definition derivePeerID :: "'p crypto_prims_scheme \<Rightarrow> bytes \<Rightarrow> byte \<Rightarrow> byte \<Rightarrow> string result" where
  "derivePeerID P pub keyType hashType =
     (if keyType = 0xFF then Inl [ErrAuthenticationFailed]
      else if hashType = 0xFF then Inl [ErrAuthenticationFailed]
      else
        let finish = (\<lambda>digest.
              base58_Encode P (appendVarintU8 (appendVarintU8 [] keyType) hashType @ digest)) in
        if hashType = HashTypeIdentity then
          (case validatePublicKeyLen pub keyType of
             Inl e \<Rightarrow> Inl e
           | Inr _ \<Rightarrow> Inr (finish pub))
        else if hashType = HashTypeSHA256 then Inr (finish (sha256_Sum256 P pub))
        else Inl [ErrAuthenticationFailed])"

definition PeerIDFromPublicKey :: "'p crypto_prims_scheme \<Rightarrow> bytes \<Rightarrow> byte \<Rightarrow> string result" where
  "PeerIDFromPublicKey P publicKey keyType =
     (case validatePublicKeyLen publicKey keyType of
        Inl e \<Rightarrow> Inl e
      | Inr _ \<Rightarrow>
          (case CanonicalHashType keyType of
             Inl e \<Rightarrow> Inl e
           | Inr hashType \<Rightarrow> derivePeerID P publicKey keyType hashType))"

definition PeerIDFromEd25519PublicKey :: "'p crypto_prims_scheme \<Rightarrow> bytes \<Rightarrow> string result" where
  "PeerIDFromEd25519PublicKey P publicKey =
     (case derivePeerID P publicKey KeyTypeEd25519 HashTypeIdentity of
        Inl e \<Rightarrow> Inl [Panic]
      | Inr pid \<Rightarrow> Inr pid)"

definition PeerIDFromExperimentalTestPublicKey ::
  "'p crypto_prims_scheme \<Rightarrow> bytes \<Rightarrow> string result" where
  "PeerIDFromExperimentalTestPublicKey P pub =
     (if length pub \<noteq> ExperimentalTestPublicKeyLen then Inl [ErrAuthenticationFailed]
      else derivePeerID P pub KeyTypeExperimentalTest HashTypeSHA256)"

definition PeerIDFromPublicKeyWithHashType ::
  "'p crypto_prims_scheme \<Rightarrow> bytes \<Rightarrow> byte \<Rightarrow> string result" where
  "PeerIDFromPublicKeyWithHashType P publicKey hashType =
     (if hashType \<noteq> HashTypeIdentity then Inl [ErrAuthenticationFailed]
      else derivePeerID P publicKey KeyTypeEd25519 hashType)"

section \<open>Reading peer ids\<close>

record DecodedPeerID =
  dp_KeyType :: byte
  dp_HashType :: byte
  dp_Digest :: bytes

definition peerid_Decode :: "'p crypto_prims_scheme \<Rightarrow> string \<Rightarrow> DecodedPeerID result" where
  "peerid_Decode P p =
     (case base58_Decode P p of
        Inl _ \<Rightarrow> Inl [ErrAuthenticationFailed]
      | Inr raw \<Rightarrow>
          (case readVarintU8 raw of
             Inl e \<Rightarrow> Inl e
           | Inr (keyType, ktN) \<Rightarrow>
               (case readVarintU8 (drop ktN raw) of
                  Inl e \<Rightarrow> Inl e
                | Inr (hashType, htN) \<Rightarrow>
                    let digestStart = ktN + htN in
                    if length raw \<le> digestStart then Inl [ErrAuthenticationFailed]
                    else Inr \<lparr>dp_KeyType = keyType, dp_HashType = hashType,
                              dp_Digest = drop digestStart raw\<rparr>)))"

text \<open>The triple \<^verbatim>\<open>(pub, keyType, ok)\<close>.\<close>

definition DerivePeerFromPeerID :: "'p crypto_prims_scheme \<Rightarrow> string \<Rightarrow> bytes \<times> byte \<times> bool" where
  "DerivePeerFromPeerID P p =
     (case peerid_Decode P p of
        Inl _ \<Rightarrow> ([], 0, False)
      | Inr dec \<Rightarrow>
          if dp_HashType dec \<noteq> HashTypeIdentity then ([], dp_KeyType dec, False)
          else (case validatePublicKeyLen (dp_Digest dec) (dp_KeyType dec) of
                  Inl _ \<Rightarrow> ([], dp_KeyType dec, False)
                | Inr _ \<Rightarrow> (dp_Digest dec, dp_KeyType dec, True)))"

definition peerid_Validate :: "'p crypto_prims_scheme \<Rightarrow> string \<Rightarrow> unit result" where
  "peerid_Validate P p =
     (case peerid_Decode P p of
        Inl e \<Rightarrow> Inl e
      | Inr dec \<Rightarrow>
          if dp_KeyType dec \<notin> {KeyTypeEd25519, KeyTypeEd448, KeyTypeExperimentalTest}
          then Inl [ErrAuthenticationFailed]
          else if dp_HashType dec = HashTypeIdentity then
            (if dp_KeyType dec = KeyTypeEd25519 then
               (if length (dp_Digest dec) \<noteq> Ed25519PublicKeyLen
                then Inl [ErrAuthenticationFailed] else Inr ())
             else if dp_KeyType dec = KeyTypeEd448 then
               (if length (dp_Digest dec) \<noteq> Ed448PublicKeyLen
                then Inl [ErrAuthenticationFailed] else Inr ())
             else
               (if length (dp_Digest dec) \<noteq> ExperimentalTestPublicKeyLen
                then Inl [ErrAuthenticationFailed] else Inr ()))
          else if dp_HashType dec = HashTypeSHA256 then
            (if length (dp_Digest dec) \<noteq> SHA256DigestLen
             then Inl [ErrAuthenticationFailed] else Inr ())
          else Inl [ErrAuthenticationFailed])"

text \<open>\<open>None\<close> is the result \<^verbatim>\<open>("", false)\<close>.\<close>

definition CanonicalizePeerID :: "'p crypto_prims_scheme \<Rightarrow> string \<Rightarrow> string option" where
  "CanonicalizePeerID P p =
     (case peerid_Decode P p of
        Inl _ \<Rightarrow> None
      | Inr dec \<Rightarrow>
          (case CanonicalHashType (dp_KeyType dec) of
             Inl _ \<Rightarrow> None
           | Inr ct \<Rightarrow>
               if dp_HashType dec = ct then
                 (if peerid_Validate P p \<noteq> Inr () then None else Some p)
               else
                 (case DerivePeerFromPeerID P p of
                    (pub, keyType, ok) \<Rightarrow>
                      if \<not> ok then None
                      else (case PeerIDFromPublicKey P pub keyType of
                              Inl _ \<Rightarrow> None
                            | Inr cp \<Rightarrow> Some cp))))"

text \<open>The comparison loops of \<^verbatim>\<open>VerifyPublicKey\<close>.\<close>

definition bytes_equal :: "bytes \<Rightarrow> bytes \<Rightarrow> bool" where
  "bytes_equal a b \<longleftrightarrow>
     (if length a \<noteq> length b then False else list_all (\<lambda>i. a ! i = b ! i) [0..<length a])"

definition VerifyPublicKey :: "'p crypto_prims_scheme \<Rightarrow> string \<Rightarrow> bytes \<Rightarrow> bool" where
  "VerifyPublicKey P p pub =
     (case peerid_Decode P p of
        Inl _ \<Rightarrow> False
      | Inr dec \<Rightarrow>
          if dp_HashType dec = HashTypeIdentity then bytes_equal (dp_Digest dec) pub
          else if dp_HashType dec = HashTypeSHA256 then
            bytes_equal (dp_Digest dec) (sha256_Sum256 P pub)
          else False)"

section \<open>Keypairs and signatures\<close>

record Keypair =
  kp_KeyType :: byte
  kp_PrivateKey :: bytes
  kp_PublicKey :: bytes

definition kp_IsZero :: "Keypair \<Rightarrow> bool" where
  "kp_IsZero k \<longleftrightarrow> kp_KeyType k = 0 \<and> length (kp_PrivateKey k) = 0 \<and> length (kp_PublicKey k) = 0"

definition Sign :: "'p crypto_prims_scheme \<Rightarrow> Keypair \<Rightarrow> bytes \<Rightarrow> bytes result" where
  "Sign P k message =
     (if kp_KeyType k = KeyTypeEd25519 then Inr (ed25519_Sign P (kp_PrivateKey k) message)
      else if kp_KeyType k = KeyTypeEd448 then Inr (ed448_Sign P (kp_PrivateKey k) message)
      else Inl [Panic])"

definition crypto_Verify ::
  "'p crypto_prims_scheme \<Rightarrow> byte \<Rightarrow> bytes \<Rightarrow> bytes \<Rightarrow> bytes \<Rightarrow> bool" where
  "crypto_Verify P keyType publicKey message signature =
     (if keyType = KeyTypeEd25519 then
        (if length publicKey \<noteq> Ed25519PublicKeyLen then False
         else ed25519_Verify P publicKey message signature)
      else if keyType = KeyTypeEd448 then
        (if length publicKey \<noteq> Ed448PublicKeyLen then False
         else if length signature \<noteq> Ed448SignatureLen then False
         else ed448_Verify P publicKey message signature)
      else False)"

definition PeerIDFromKeypair :: "'p crypto_prims_scheme \<Rightarrow> Keypair \<Rightarrow> string result" where
  "PeerIDFromKeypair P k =
     (case PeerIDFromPublicKey P (kp_PublicKey k) (kp_KeyType k) of
        Inl _ \<Rightarrow> Inl [Panic]
      | Inr pid \<Rightarrow> Inr pid)"

section \<open>Peer and signature entities\<close>

definition TypePeer :: string where
  "TypePeer = ''system/peer''"

definition TypeSignature :: string where
  "TypeSignature = ''system/signature''"

definition PeerData_ToEntity :: "'p crypto_prims_scheme \<Rightarrow> PeerData \<Rightarrow> entity result" where
  "PeerData_ToEntity P d =
     (case ecf_EncodePeerData P d of
        Inl e \<Rightarrow> Inl e
      | Inr raw \<Rightarrow> NewEntityFormat P AlgorithmSHA256 TypePeer raw)"

definition PeerDataFromEntity :: "'p crypto_prims_scheme \<Rightarrow> entity \<Rightarrow> PeerData result" where
  "PeerDataFromEntity P e = ecf_DecodePeerData P (Data e)"

definition IdentityEntity :: "'p crypto_prims_scheme \<Rightarrow> Keypair \<Rightarrow> entity result" where
  "IdentityEntity P k =
     (let ktString = KeyTypeString (kp_KeyType k) in
      if ktString = '''' then Inl []
      else (case ecf_EncodePeerData P \<lparr>pd_PublicKey = kp_PublicKey k, pd_KeyType = ktString\<rparr> of
              Inl e \<Rightarrow> Inl e
            | Inr raw \<Rightarrow> NewEntityFormat P AlgorithmSHA256 TypePeer raw))"

definition ExperimentalTestPeerEntity :: "'p crypto_prims_scheme \<Rightarrow> bytes \<Rightarrow> entity result" where
  "ExperimentalTestPeerEntity P pub =
     (if length pub \<noteq> ExperimentalTestPublicKeyLen then Inl []
      else (case ecf_EncodePeerData P
                   \<lparr>pd_PublicKey = pub, pd_KeyType = KeyTypeStringExperimentalTest\<rparr> of
              Inl e \<Rightarrow> Inl e
            | Inr raw \<Rightarrow> NewEntityFormat P AlgorithmSHA256 TypePeer raw))"

definition ComputePeerIdentityHash :: "'p crypto_prims_scheme \<Rightarrow> bytes \<Rightarrow> byte \<Rightarrow> hash result" where
  "ComputePeerIdentityHash P pub keyType =
     (let ktString = KeyTypeString keyType in
      if ktString = '''' then Inl []
      else (case PeerData_ToEntity P \<lparr>pd_PublicKey = pub, pd_KeyType = ktString\<rparr> of
              Inl e \<Rightarrow> Inl e
            | Inr ent \<Rightarrow> Inr (ContentHash ent)))"

definition ComputePeerIdentityHashFromPeerID ::
  "'p crypto_prims_scheme \<Rightarrow> string \<Rightarrow> hash result" where
  "ComputePeerIdentityHashFromPeerID P pid =
     (case DerivePeerFromPeerID P pid of
        (pub, keyType, ok) \<Rightarrow>
          if \<not> ok then Inl [ErrAuthenticationFailed] else ComputePeerIdentityHash P pub keyType)"

definition PeerIdentityHashHex :: "hash \<Rightarrow> string" where
  "PeerIdentityHashHex h = hex_EncodeToString (hash_Bytes h)"

definition InvariantSignaturePath :: "string \<Rightarrow> hash \<Rightarrow> string" where
  "InvariantSignaturePath signerPeerID target =
     ''/'' @ signerPeerID @ ''/system/signature/'' @ hex_EncodeToString (hash_Bytes target)"

definition LocalSignaturePath :: "hash \<Rightarrow> string" where
  "LocalSignaturePath target = ''system/signature/'' @ hex_EncodeToString (hash_Bytes target)"

definition SignatureData_ToEntity ::
  "'p crypto_prims_scheme \<Rightarrow> byte \<Rightarrow> SignatureData \<Rightarrow> entity result" where
  "SignatureData_ToEntity P dflt d =
     (case ecf_EncodeSignatureData P d of
        Inl e \<Rightarrow> Inl e
      | Inr raw \<Rightarrow> NewEntity P dflt TypeSignature raw)"

definition SignatureDataFromEntity :: "'p crypto_prims_scheme \<Rightarrow> entity \<Rightarrow> SignatureData result" where
  "SignatureDataFromEntity P e = ecf_DecodeSignatureData P (Data e)"

section \<open>Codes and peer ids read back\<close>

lemma bit_7_byte: "128 \<le> unat (v :: byte) \<Longrightarrow> bit v 7"
proof -
  assume a: "128 \<le> unat v"
  have "unat v div 128 = 1"
    using a unat_byte_less [of v] by (auto intro: div_nat_eqI)
  then have "bit (unat v) 7"
    by (simp add: bit_iff_odd)
  then show ?thesis
    by (simp add: bit_unsigned_iff)
qed

lemma varint_code:
  "(v :: byte) < 0x80 \<or> (0x80 \<le> v OR 0x80 \<and> ((v OR 0x80) AND 0x7F) OR push_bit 7 1 = v)"
proof (cases "v < 0x80")
  case False
  then have b: "bit v 7"
    by (intro bit_7_byte) (simp add: word_less_nat_alt)
  have "bit (v OR 128) n = bit v n" "bit ((v AND 0x7F) OR push_bit 7 1) n = bit v n"
    if "n < LENGTH(8)" for n
  proof -
    have "n \<in> {0, 1, 2, 3, 4, 5, 6, 7}"
      using that by auto
    then show "bit (v OR 128) n = bit v n" "bit ((v AND 0x7F) OR push_bit 7 1) n = bit v n"
      using b by (auto simp: bit_simps)
  qed
  then have "v OR 128 = v" "(v AND 0x7F) OR push_bit 7 1 = v"
    by (auto intro!: bit_word_eqI)
  with False show ?thesis
    by (simp add: not_less)
qed simp

lemma appendVarintU8_append: "appendVarintU8 buf v = buf @ appendVarintU8 [] v"
  by (simp add: appendVarintU8_def)

lemma read_append_varint:
  "v \<noteq> 0xFF \<Longrightarrow> readVarintU8 (appendVarintU8 [] v @ r) = Inr (v, length (appendVarintU8 [] v))"
proof -
  assume "v \<noteq> 0xFF"
  moreover have "\<not> (0x80 :: byte) \<le> 1"
    by code_simp
  ultimately show ?thesis
    using varint_code [of v] by (auto simp: readVarintU8_def appendVarintU8_def Let_def not_less)
qed

interpretation varint_codec: codec "\<lambda>v. v \<noteq> 0xFF" "appendVarintU8 []"
  "\<lambda>b. case readVarintU8 b of Inl e \<Rightarrow> Inl e | Inr (v, _) \<Rightarrow> Inr v"
  by unfold_locales (use read_append_varint [of _ "[]"] in simp)

lemma bytes_equal_iff [simp]: "bytes_equal a b \<longleftrightarrow> a = b"
  by (auto simp: bytes_equal_def list_all_iff list_eq_iff_nth_eq [of a b])

lemma validatePublicKeyLen_ok:
  "validatePublicKeyLen pub kt = Inr () \<longleftrightarrow>
     kt = 1 \<and> length pub = 32 \<or> kt = 2 \<and> length pub = 57 \<or> kt = 0xFE \<and> length pub = 64"
  by (simp add: validatePublicKeyLen_def)

text \<open>The digest part of the peer id that \<^verbatim>\<open>derivePeerID\<close> builds.\<close>

definition peer_digest :: "'p crypto_prims_scheme \<Rightarrow> byte \<Rightarrow> bytes \<Rightarrow> bytes" where
  "peer_digest P ht pub = (if ht = HashTypeIdentity then pub else sha256_Sum256 P pub)"

lemma derivePeerID_Inr:
  "derivePeerID P pub kt ht = Inr p \<longleftrightarrow>
     kt \<noteq> 0xFF \<and> (ht = 0 \<and> validatePublicKeyLen pub kt = Inr () \<or> ht = 1) \<and>
     p = base58_Encode P (appendVarintU8 [] kt @ appendVarintU8 [] ht @ peer_digest P ht pub)"
  by (auto simp: derivePeerID_def peer_digest_def Let_def appendVarintU8_append [of "appendVarintU8 _ _"]
      split: sum.splits)

lemma Decode_derivePeerID:
  assumes "base58_laws P" "digest_sizes P" and "derivePeerID P pub kt ht = Inr p"
  shows "peerid_Decode P p =
    Inr \<lparr>dp_KeyType = kt, dp_HashType = ht, dp_Digest = peer_digest P ht pub\<rparr>"
proof -
  let ?raw = "appendVarintU8 [] kt @ appendVarintU8 [] ht @ peer_digest P ht pub"
  have p: "p = base58_Encode P ?raw" and k: "kt \<noteq> 0xFF" and h: "ht \<noteq> 0xFF"
    using assms(3) by (auto simp: derivePeerID_Inr)
  have "length (sha256_Sum256 P pub) = 32"
    using assms(2) by (simp add: digest_sizes_def)
  then have "0 < length (peer_digest P ht pub)"
    using assms(3) by (force simp: derivePeerID_Inr peer_digest_def validatePublicKeyLen_ok)
  moreover have "base58_Decode P p = Inr ?raw"
    using assms(1) p calculation by (auto simp: base58_laws_def)
  ultimately show ?thesis
    using read_append_varint [OF k] read_append_varint [OF h]
    by (simp add: peerid_Decode_def Let_def)
qed

lemma CanonicalHashType_ok:
  "validatePublicKeyLen pub kt = Inr () \<Longrightarrow> CanonicalHashType kt = Inr (if kt = 1 then 0 else 1)"
  by (auto simp: validatePublicKeyLen_ok CanonicalHashType_def)

lemma PeerIDFromPublicKey_Inr:
  "PeerIDFromPublicKey P pub kt = Inr p \<longleftrightarrow>
     validatePublicKeyLen pub kt = Inr () \<and>
     derivePeerID P pub kt (if kt = 1 then 0 else 1) = Inr p"
  by (cases "validatePublicKeyLen pub kt") (simp_all add: PeerIDFromPublicKey_def CanonicalHashType_ok)

lemma peerid_Validate_identity:
  "peerid_Decode P p = Inr \<lparr>dp_KeyType = kt, dp_HashType = 0, dp_Digest = d\<rparr> \<Longrightarrow>
     peerid_Validate P p = Inr () \<longleftrightarrow> validatePublicKeyLen d kt = Inr ()"
  by (auto simp: peerid_Validate_def validatePublicKeyLen_ok)

lemma minted_peer_id:
  assumes "base58_laws P" and "digest_sizes P" and "PeerIDFromPublicKey P pub kt = Inr p"
  defines "ht \<equiv> if kt = 1 then 0 else 1 :: byte"
  shows "peerid_Decode P p =
      Inr \<lparr>dp_KeyType = kt, dp_HashType = ht, dp_Digest = peer_digest P ht pub\<rparr> \<and>
    CanonicalHashType kt = Inr ht \<and>
    peerid_Validate P p = Inr () \<and> VerifyPublicKey P p pub \<and> CanonicalizePeerID P p = Some p \<and>
    (kt = 1 \<longrightarrow> DerivePeerFromPeerID P p = (pub, kt, True))"
proof -
  have len: "validatePublicKeyLen pub kt = Inr ()" and der: "derivePeerID P pub kt ht = Inr p"
    using assms(3) by (simp_all add: PeerIDFromPublicKey_Inr ht_def)
  note dec = Decode_derivePeerID [OF assms(1,2) der]
  have ct: "CanonicalHashType kt = Inr ht"
    unfolding ht_def by (rule CanonicalHashType_ok [OF len])
  have sz: "length (sha256_Sum256 P pub) = 32"
    using assms(2) by (simp add: digest_sizes_def)
  have val: "peerid_Validate P p = Inr ()"
    using dec len sz by (auto simp: peerid_Validate_def peer_digest_def validatePublicKeyLen_ok ht_def)
  show ?thesis
    using dec ct val len sz
    by (auto simp: VerifyPublicKey_def CanonicalizePeerID_def DerivePeerFromPeerID_def peer_digest_def ht_def)
qed

text \<open>
  A peer id minted from a public key of an allocated key type decodes to that key type and its
  canonical hash type, validates, verifies the key it came from, and is its own canonical form;
  an Ed25519 peer id gives the public key back, so no two Ed25519 keys share a peer id.
\<close>

theorem PeerIDFromPublicKey_sound:
  assumes "base58_laws P" and "digest_sizes P" and "PeerIDFromPublicKey P pub kt = Inr p"
  shows "(\<exists>dec. peerid_Decode P p = Inr dec \<and> dp_KeyType dec = kt \<and>
            CanonicalHashType kt = Inr (dp_HashType dec)) \<and>
    peerid_Validate P p = Inr () \<and> VerifyPublicKey P p pub \<and> CanonicalizePeerID P p = Some p \<and>
    (kt = KeyTypeEd25519 \<longrightarrow>
       DerivePeerFromPeerID P p = (pub, kt, True) \<and>
       (\<forall>pub'. PeerIDFromPublicKey P pub' kt = Inr p \<longrightarrow> pub' = pub))"
proof -
  note m = minted_peer_id [OF assms]
  have "pub' = pub" if "kt = KeyTypeEd25519" "PeerIDFromPublicKey P pub' kt = Inr p" for pub'
    using minted_peer_id [OF assms(1,2) that(2)] m that(1) by simp
  with m show ?thesis
    by auto
qed

text \<open>
  \<^verbatim>\<open>CanonicalizePeerID\<close> is idempotent, its results are well formed and in the canonical hash
  type of their key type, and it never changes the peer: the canonical form verifies every public
  key that the given form verified.
\<close>

theorem CanonicalizePeerID_canonical:
  assumes "base58_laws P" and "digest_sizes P" and "CanonicalizePeerID P p = Some q"
  shows "CanonicalizePeerID P q = Some q \<and> peerid_Validate P q = Inr () \<and>
    (\<exists>dec dec'. peerid_Decode P p = Inr dec \<and> peerid_Decode P q = Inr dec' \<and>
       dp_KeyType dec' = dp_KeyType dec \<and> CanonicalHashType (dp_KeyType dec) = Inr (dp_HashType dec')) \<and>
    (\<forall>pub. VerifyPublicKey P p pub \<longrightarrow> VerifyPublicKey P q pub)"
proof -
  obtain dec ct where dec: "peerid_Decode P p = Inr dec"
    and ct: "CanonicalHashType (dp_KeyType dec) = Inr ct"
    using assms(3) by (auto simp: CanonicalizePeerID_def split: sum.splits)
  show ?thesis
  proof (cases "dp_HashType dec = ct")
    case True
    then show ?thesis
      using assms(3) dec ct by (auto simp: CanonicalizePeerID_def split: if_splits)
  next
    case False
    then have id: "dp_HashType dec = 0" and len: "validatePublicKeyLen (dp_Digest dec) (dp_KeyType dec) = Inr ()"
      and q: "PeerIDFromPublicKey P (dp_Digest dec) (dp_KeyType dec) = Inr q"
      using assms(3) dec ct
      by (auto simp: CanonicalizePeerID_def DerivePeerFromPeerID_def split: if_splits sum.splits)
    have "VerifyPublicKey P p pub \<longrightarrow> pub = dp_Digest dec" for pub
      using dec id by (simp add: VerifyPublicKey_def)
    then show ?thesis
      using minted_peer_id [OF assms(1,2) q] dec by auto
  qed
qed

section \<open>A concrete instance\<close>

text \<open>
  An instance of the parameters for evaluation: Base58 is replaced by hexadecimal with \<^verbatim>\<open>z\<close> for
  the digit zero (every digit then is a Base58 letter), a signature is valid when it equals the key.
\<close>

definition demo_b58_char :: "char \<Rightarrow> char" where
  "demo_b58_char c = (if c = CHR ''0'' then CHR ''z'' else if c = CHR ''z'' then CHR ''0'' else c)"

definition demo_base58_Encode :: "bytes \<Rightarrow> string" where
  "demo_base58_Encode b = map demo_b58_char (hex_EncodeToString b)"

definition demo_base58_Decode :: "string \<Rightarrow> bytes result" where
  "demo_base58_Decode s =
     (case hex_DecodeString (map demo_b58_char s) of
        Inl e \<Rightarrow> Inl e
      | Inr b \<Rightarrow> if b \<noteq> [] \<and> demo_base58_Encode b = s then Inr b else Inl [])"

definition demo_crypto_prims :: crypto_prims where
  "demo_crypto_prims =
     \<lparr>sha256_Sum256 = demo_pad 32, sha512_Sum384 = demo_pad 48,
      ecf_EncodeHashable = (\<lambda>t d. Inr (map of_char t @ d)),
      ecf_EncodeBytes = Inr, ecf_DecodeBytes = Inr,
      ecf_DecodeTarget = (\<lambda>_. Inr zero_hash), ecf_EncodeEnvelope = (\<lambda>_. Inl []),
      ecf_DecodeEnvelope = (\<lambda>_. Inl []),
      base58_Encode = demo_base58_Encode, base58_Decode = demo_base58_Decode,
      ed25519_Verify = (\<lambda>k m s. s = k), ed448_Verify = (\<lambda>k m s. s = k),
      ed25519_Sign = (\<lambda>k m. k), ed448_Sign = (\<lambda>k m. k),
      ecf_EncodePeerData = (\<lambda>d. Inr (pd_PublicKey d)),
      ecf_DecodePeerData = (\<lambda>b. Inr \<lparr>pd_PublicKey = b, pd_KeyType = ''ed25519''\<rparr>),
      ecf_EncodeSignatureData = (\<lambda>d. Inr (sd_Signature d)),
      ecf_DecodeSignatureData = (\<lambda>_. Inl [])\<rparr>"

lemma demo_b58_char_inv: "demo_b58_char (demo_b58_char c) = c"
  by (auto simp: demo_b58_char_def)

lemma demo_base58_laws: "base58_laws demo_crypto_prims"
  by (auto simp: base58_laws_def demo_crypto_prims_def demo_base58_Decode_def demo_base58_Encode_def
      comp_def demo_b58_char_inv split: sum.splits if_splits)

lemma demo_crypto_digest_sizes: "digest_sizes demo_crypto_prims"
  by (auto simp: digest_sizes_def demo_crypto_prims_def demo_pad_def)

theorem PeerIDFromPublicKey_sound_witness:
  "VerifyPublicKey demo_crypto_prims
     (demo_base58_Encode (1 # 0 # replicate 32 7)) (replicate 32 7)"
proof -
  have "PeerIDFromPublicKey demo_crypto_prims (replicate 32 7) 1
      = Inr (demo_base58_Encode (1 # 0 # replicate 32 7))"
    by code_simp
  from PeerIDFromPublicKey_sound [OF demo_base58_laws demo_crypto_digest_sizes this]
  show ?thesis by simp
qed

theorem CanonicalizePeerID_canonical_witness:
  "CanonicalizePeerID demo_crypto_prims (demo_base58_Encode (2 # 0 # replicate 57 7)) =
     Some (demo_base58_Encode (2 # 1 # replicate 32 7)) \<and>
   peerid_Validate demo_crypto_prims (demo_base58_Encode (2 # 1 # replicate 32 7)) = Inr ()"
proof -
  have "CanonicalizePeerID demo_crypto_prims (demo_base58_Encode (2 # 0 # replicate 57 7)) =
     Some (demo_base58_Encode (2 # 1 # replicate 32 7))"
    by code_simp
  with CanonicalizePeerID_canonical [OF demo_base58_laws demo_crypto_digest_sizes this]
  show ?thesis by simp
qed

text \<open>
  The canonical form is not unique: the reader of variable-length codes accepts the two-byte
  spelling of a one-byte code, and \<^verbatim>\<open>CanonicalizePeerID\<close> returns a well-formed input as it is. So
  for every 32-byte Ed25519 key there is a second text that decodes to the same peer, is its own
  ``canonical'' form, and differs from the minted peer id; comparing canonical forms as strings, as
  the peer scopes of a grant do, tells the two apart.
\<close>

theorem CanonicalizePeerID_not_unique:
  assumes "base58_laws P" and "length pub = 32"
  shows "\<exists>p q. PeerIDFromPublicKey P pub KeyTypeEd25519 = Inr p \<and> q \<noteq> p \<and>
    peerid_Decode P q = peerid_Decode P p \<and> VerifyPublicKey P q pub \<and>
    CanonicalizePeerID P p = Some p \<and> CanonicalizePeerID P q = Some q"
proof -
  define p q where "p = base58_Encode P (1 # 0 # pub)" and "q = base58_Encode P (0x81 # 0 # 0 # pub)"
  have raw: "base58_Decode P p = Inr (1 # 0 # pub)" "base58_Decode P q = Inr (0x81 # 0 # 0 # pub)"
    using assms(1) by (simp_all add: p_def q_def base58_laws_def)
  have dec: "peerid_Decode P p = Inr \<lparr>dp_KeyType = 1, dp_HashType = 0, dp_Digest = pub\<rparr>"
    "peerid_Decode P q = Inr \<lparr>dp_KeyType = 1, dp_HashType = 0, dp_Digest = pub\<rparr>"
    using raw assms(2) by (simp_all add: peerid_Decode_def readVarintU8_def Let_def)
  have "PeerIDFromPublicKey P pub KeyTypeEd25519 = Inr p"
    using assms(2) by (simp add: PeerIDFromPublicKey_Inr validatePublicKeyLen_ok derivePeerID_Inr
        appendVarintU8_def peer_digest_def p_def)
  moreover have "q \<noteq> p"
    using raw by auto
  ultimately show ?thesis
    using dec assms(2)
    by (intro exI [of _ p] exI [of _ q])
      (simp add: VerifyPublicKey_def CanonicalizePeerID_def CanonicalHashType_def peerid_Validate_def)
qed

theorem CanonicalizePeerID_not_unique_witness:
  "\<exists>p q. PeerIDFromPublicKey demo_crypto_prims (replicate 32 7) KeyTypeEd25519 = Inr p \<and> q \<noteq> p \<and>
     CanonicalizePeerID demo_crypto_prims q = Some q"
  using CanonicalizePeerID_not_unique [OF demo_base58_laws, of "replicate 32 7"] by auto

end
