(* ===== verification/Cap_Types.thy ===== *)
theory Cap_Types
  imports Peer_Identity
begin

unbundle bit_operations_syntax

text \<open>
  The data of capabilities: \<^verbatim>\<open>core/types/granter.go\<close>, the capability part of \<^verbatim>\<open>core/types/system.go\<close>,
  and the request of \<^verbatim>\<open>core/types/protocol.go\<close>.

  A \<^verbatim>\<open>Granter\<close> is either one identity hash or a K-of-N multi-granter; an optional pointer is an
  \<open>option\<close>. Times are 64-bit words (milliseconds). The CBOR forms are parameters.
\<close>

record MultiGranter =
  mg_Signers :: "hash list"
  mg_Threshold :: u64

datatype Granter =
    SingleSigGranter hash
  | MultiSigGranter MultiGranter

record CapabilityScope =
  sc_Include :: "string list"
  sc_Exclude :: "string list"

record GrantEntry =
  g_Handlers :: CapabilityScope
  g_Resources :: CapabilityScope
  g_Operations :: CapabilityScope
  g_Peers :: "CapabilityScope option"
  g_Constraints :: bytes
  g_Allowances :: bytes

record DelegationCaveats =
  dc_NoDelegation :: "bool option"
  dc_MaxDelegationDepth :: "u64 option"
  dc_MaxDelegationTTL :: "u64 option"

record CapabilityTokenData =
  ct_Grants :: "GrantEntry list"
  ct_Granter :: Granter
  ct_Grantee :: hash
  ct_Parent :: "hash option"
  ct_CreatedAt :: u64
  ct_ExpiresAt :: "u64 option"
  ct_NotBefore :: "u64 option"
  ct_DelegationCaveats :: "DelegationCaveats option"

record ResourceTarget =
  rt_Targets :: "string list"
  rt_Exclude :: "string list"

record BoundsData =
  bd_TTL :: "u64 option"
  bd_Budget :: "u64 option"
  bd_CascadeDepth :: "u64 option"
  bd_ChainDepth :: "u64 option"
  bd_ChainID :: string
  bd_ParentChainID :: string
  bd_Visited :: "string list"

record DeliverySpec =
  ds_URI :: string
  ds_Operation :: string

record DurabilityRequestData =
  dr_Level :: string
  dr_MustHave :: bool

record ExecuteData =
  ex_RequestID :: string
  ex_URI :: string
  ex_Operation :: string
  ex_Resource :: "ResourceTarget option"
  ex_Params :: bytes
  ex_Bounds :: "BoundsData option"
  ex_Author :: hash
  ex_Capability :: hash
  ex_DeliverTo :: "DeliverySpec option"
  ex_DeliverToken :: hash
  ex_DurabilityRequest :: "DurabilityRequestData option"

record cap_prims = crypto_prims +
  ecf_EncodeCapToken :: "CapabilityTokenData \<Rightarrow> bytes result"
  ecf_DecodeCapToken :: "bytes \<Rightarrow> CapabilityTokenData result"
  ecf_EncodeMultiGranter :: "MultiGranter \<Rightarrow> bytes result"
  ecf_DecodeMultiGranter :: "bytes \<Rightarrow> MultiGranter result"
  cbor_UnmarshalMap :: "bytes \<Rightarrow> (string, bytes) gomap result"

section \<open>Granters\<close>

text \<open>The loop over the signers with its map \<^verbatim>\<open>seen\<close>.\<close>

fun no_duplicate_signer :: "hash list \<Rightarrow> hash list \<Rightarrow> bool" where
  "no_duplicate_signer seen [] = True"
| "no_duplicate_signer seen (s # ss) =
     (if s \<in> set seen then False else no_duplicate_signer (s # seen) ss)"

definition MultiGranter_Validate :: "MultiGranter \<Rightarrow> unit result" where
  "MultiGranter_Validate mg =
     (let n = length (mg_Signers mg) in
      if n < 2 then Inl []
      else if mg_Threshold mg < 2 then Inl []
      else if mg_Threshold mg > of_nat n then Inl []
      else if \<not> no_duplicate_signer [] (mg_Signers mg) then Inl []
      else Inr ())"

definition HasSigner :: "MultiGranter \<Rightarrow> hash \<Rightarrow> bool" where
  "HasSigner mg h \<longleftrightarrow> list_ex (\<lambda>s. s = h) (mg_Signers mg)"

fun IsMulti :: "Granter \<Rightarrow> bool" where
  "IsMulti (SingleSigGranter _) = False"
| "IsMulti (MultiSigGranter _) = True"

definition IsSingle :: "Granter \<Rightarrow> bool" where
  "IsSingle g \<longleftrightarrow> \<not> IsMulti g"

text \<open>\<open>None\<close> where the Boolean result is false.\<close>

fun SingleHash :: "Granter \<Rightarrow> hash option" where
  "SingleHash (SingleSigGranter h) = Some h"
| "SingleHash (MultiSigGranter _) = None"

fun granter_Multi :: "Granter \<Rightarrow> MultiGranter option" where
  "granter_Multi (SingleSigGranter _) = None"
| "granter_Multi (MultiSigGranter mg) = Some mg"

fun granter_IsZero :: "Granter \<Rightarrow> bool" where
  "granter_IsZero (SingleSigGranter h) = IsZero h"
| "granter_IsZero (MultiSigGranter _) = False"

fun EqualsHash :: "Granter \<Rightarrow> hash \<Rightarrow> bool" where
  "EqualsHash (SingleSigGranter g) h = (g = h)"
| "EqualsHash (MultiSigGranter _) h = False"

fun granter_Validate :: "Granter \<Rightarrow> unit result" where
  "granter_Validate (SingleSigGranter _) = Inr ()"
| "granter_Validate (MultiSigGranter mg) = MultiGranter_Validate mg"

fun granter_MarshalCBOR :: "'p cap_prims_scheme \<Rightarrow> Granter \<Rightarrow> bytes result" where
  "granter_MarshalCBOR P (SingleSigGranter h) = hash_MarshalCBOR P h"
| "granter_MarshalCBOR P (MultiSigGranter mg) = ecf_EncodeMultiGranter P mg"

definition granter_UnmarshalCBOR :: "'p cap_prims_scheme \<Rightarrow> bytes \<Rightarrow> Granter result" where
  "granter_UnmarshalCBOR P data =
     (case data of
        [] \<Rightarrow> Inl []
      | b0 # _ \<Rightarrow>
          let majorType = drop_bit 5 b0 AND 0x07 in
          if majorType = 2 then
            (case hash_UnmarshalCBOR P data of Inl e \<Rightarrow> Inl e | Inr h \<Rightarrow> Inr (SingleSigGranter h))
          else if majorType = 5 then
            (case ecf_DecodeMultiGranter P data of Inl e \<Rightarrow> Inl e | Inr mg \<Rightarrow> Inr (MultiSigGranter mg))
          else if majorType = 6 then Inl []
          else Inl [])"

section \<open>Tokens\<close>

definition TypeCapToken :: string where
  "TypeCapToken = ''system/capability/token''"

definition ValidateStructure :: "CapabilityTokenData \<Rightarrow> unit result" where
  "ValidateStructure d =
     (case granter_Validate (ct_Granter d) of
        Inl e \<Rightarrow> Inl e
      | Inr _ \<Rightarrow>
          if IsMulti (ct_Granter d) \<and> ct_Parent d \<noteq> None then Inl []
          else if IsZero (ct_Grantee d) then Inl [ErrUnresolvableGrantee]
          else Inr ())"

definition CapabilityTokenData_ToEntity ::
  "'p cap_prims_scheme \<Rightarrow> byte \<Rightarrow> CapabilityTokenData \<Rightarrow> entity result" where
  "CapabilityTokenData_ToEntity P dflt d =
     (case ecf_EncodeCapToken P d of
        Inl e \<Rightarrow> Inl e
      | Inr raw \<Rightarrow> NewEntity P dflt TypeCapToken raw)"

definition CapabilityTokenDataFromEntity ::
  "'p cap_prims_scheme \<Rightarrow> entity \<Rightarrow> CapabilityTokenData result" where
  "CapabilityTokenDataFromEntity P e = ecf_DecodeCapToken P (Data e)"

section \<open>Facts\<close>

lemma no_duplicate_signer_iff:
  "no_duplicate_signer seen ss \<longleftrightarrow> distinct ss \<and> set ss \<inter> set seen = {}"
  by (induction ss arbitrary: seen) auto

lemma HasSigner_iff: "HasSigner mg h \<longleftrightarrow> h \<in> set (mg_Signers mg)"
  by (auto simp: HasSigner_def list_ex_iff)

lemma ValidateStructure_ok:
  "ValidateStructure d = Inr () \<longleftrightarrow>
     granter_Validate (ct_Granter d) = Inr () \<and>
     (IsMulti (ct_Granter d) \<longrightarrow> ct_Parent d = None) \<and> \<not> IsZero (ct_Grantee d)"
  by (auto simp: ValidateStructure_def split: sum.splits)

lemma MultiGranter_Validate_ok:
  "MultiGranter_Validate mg = Inr () \<longleftrightarrow>
     2 \<le> length (mg_Signers mg) \<and> 2 \<le> mg_Threshold mg \<and>
     mg_Threshold mg \<le> of_nat (length (mg_Signers mg)) \<and> distinct (mg_Signers mg)"
  by (auto simp: MultiGranter_Validate_def Let_def no_duplicate_signer_iff)

end
