(* ===== verification/Paths.thy ===== *)
theory Paths
  imports Entity_Model
begin

text \<open>
  Tree paths: the path functions of \<^verbatim>\<open>core/store/store.go\<close>. An absolute path is \<^verbatim>\<open>/peer/rest\<close>; a
  peer id is recognised by its alphabet and its length. (A \<^verbatim>\<open>range\<close> loop over a Go string visits
  runes; the alphabet is ASCII, so a string with any other byte fails it either way.)
\<close>

definition QualifyPath :: "string \<Rightarrow> string \<Rightarrow> string" where
  "QualifyPath ns path = ''/'' @ ns @ ''/'' @ path"

definition SplitNamespace :: "string \<Rightarrow> string \<times> string" where
  "SplitNamespace path =
     (if \<not> HasPrefix path ''/'' then ('''', path)
      else (case cut_slash (drop 1 path) of
              None \<Rightarrow> (drop 1 path, '''')
            | Some (ns, rest) \<Rightarrow> (ns, rest)))"

definition base58Alphabet :: string where
  "base58Alphabet = ''123456789ABCDEFGHJKLMNPQRSTUVWXYZabcdefghijkmnopqrstuvwxyz''"

definition looksLikePeerID :: "string \<Rightarrow> bool" where
  "looksLikePeerID s \<longleftrightarrow>
     (if length s < 46 then False else list_all (\<lambda>r. r \<in> set base58Alphabet) s)"

definition IsAbsolute :: "string \<Rightarrow> bool" where
  "IsAbsolute path \<longleftrightarrow> HasPrefix path ''/''"

definition IsURLPathXReservedWord :: "string \<Rightarrow> bool" where
  "IsURLPathXReservedWord s \<longleftrightarrow> s = ''content'' \<or> s = ''manifest''"

definition ValidateURLPathXSegment :: "string \<Rightarrow> unit result" where
  "ValidateURLPathXSegment s =
     (if s = '''' then Inl []
      else if IsURLPathXReservedWord s then Inr ()
      else if looksLikePeerID s then Inr ()
      else Inl [])"

fun ValidatePathChars :: "string \<Rightarrow> unit result" where
  "ValidatePathChars [] = Inr ()"
| "ValidatePathChars (c # cs) =
     (if of_char c < (0x20 :: nat) \<or> of_char c = (0x7F :: nat) then Inl [] else ValidatePathChars cs)"

definition ValidateAbsolutePath :: "string \<Rightarrow> unit result" where
  "ValidateAbsolutePath p =
     (if \<not> HasPrefix p ''/'' then Inl []
      else (case ValidatePathChars p of
              Inl e \<Rightarrow> Inl e
            | Inr _ \<Rightarrow>
                let rest = drop 1 p in
                if rest = '''' then Inl []
                else if Contains rest ''//'' then Inl []
                else
                  let firstSeg = (case cut_slash rest of None \<Rightarrow> rest | Some (f, _) \<Rightarrow> f) in
                  if \<not> looksLikePeerID firstSeg then Inl [] else Inr ()))"

definition IsSafePathSegment :: "string \<Rightarrow> bool" where
  "IsSafePathSegment s \<longleftrightarrow>
     (if s = '''' \<or> s = ''.'' \<or> s = ''..'' then False
      else if Contains s ''/'' then False
      else ValidatePathChars s = Inr ())"

definition SanitizePathSegment :: "string \<Rightarrow> string \<Rightarrow> string" where
  "SanitizePathSegment s sentinel = (if IsSafePathSegment s then s else sentinel)"

section \<open>Facts\<close>

definition control_char :: "char \<Rightarrow> bool" where
  "control_char c \<longleftrightarrow> of_char c < (0x20 :: nat) \<or> of_char c = (0x7F :: nat)"

lemma ValidatePathChars_iff: "ValidatePathChars p = Inr () \<longleftrightarrow> (\<forall>c \<in> set p. \<not> control_char c)"
  by (induction p) (auto simp: control_char_def)

lemma SplitNamespace_QualifyPath:
  "slash \<notin> set ns \<Longrightarrow> SplitNamespace (QualifyPath ns path) = (ns, path)"
  by (simp add: SplitNamespace_def QualifyPath_def)

lemma QualifyPath_inj: "QualifyPath ns a = QualifyPath ns b \<longleftrightarrow> a = b"
  by (simp add: QualifyPath_def)

lemma base58_no_slash: "slash \<notin> set base58Alphabet"
  by (simp add: base58Alphabet_def)

lemma base58_no_star: "CHR ''*'' \<notin> set base58Alphabet"
  by (simp add: base58Alphabet_def)

lemma looksLikePeerID_chars: "looksLikePeerID s \<Longrightarrow> set s \<subseteq> set base58Alphabet"
  by (auto simp: looksLikePeerID_def list_all_iff split: if_splits)

lemma looksLikePeerID_no_slash: "looksLikePeerID s \<Longrightarrow> slash \<notin> set s"
  using base58_no_slash looksLikePeerID_chars by blast



text \<open>
  \<^verbatim>\<open>SanitizePathSegment\<close> with a safe sentinel yields one path segment whatever the untrusted
  input: appended to a path it is the whole last segment and never a dot token; a safe input is
  kept.
\<close>

theorem SanitizePathSegment_safe:
  assumes "IsSafePathSegment sentinel"
  shows "IsSafePathSegment (SanitizePathSegment s sentinel) \<and>
    slash \<notin> set (SanitizePathSegment s sentinel) \<and>
    SanitizePathSegment s sentinel \<notin> {'''', ''.'', ''..''} \<and>
    (IsSafePathSegment s \<longrightarrow> SanitizePathSegment s sentinel = s) \<and>
    SplitNamespace (''/'' @ SanitizePathSegment s sentinel @ ''/'' @ rest)
      = (SanitizePathSegment s sentinel, rest)"
proof -
  have safe: "IsSafePathSegment (SanitizePathSegment s sentinel)"
    using assms by (simp add: SanitizePathSegment_def)
  then have "slash \<notin> set (SanitizePathSegment s sentinel)"
    by (auto simp: IsSafePathSegment_def Contains_char split: if_splits)
  with safe show ?thesis
    using SplitNamespace_QualifyPath [of "SanitizePathSegment s sentinel" rest]
    by (auto simp: IsSafePathSegment_def SanitizePathSegment_def QualifyPath_def split: if_splits)
qed

theorem SanitizePathSegment_safe_witness:
  "SplitNamespace (''/'' @ SanitizePathSegment ''../../x'' ''invalid'' @ ''/'' @ ''m'') = (''invalid'', ''m'')"
proof -
  have "IsSafePathSegment ''invalid''" by code_simp
  from SanitizePathSegment_safe [OF this, of "''../../x''" "''m''"]
  show ?thesis by (simp add: SanitizePathSegment_def IsSafePathSegment_def)
qed

end
