(* ===== verification/Cap_Match.thy ===== *)
theory Cap_Match
  imports Cap_Types Paths
begin

text \<open>
  Matching and the permission checks: \<^verbatim>\<open>core/capability/check.go\<close> and \<^verbatim>\<open>expiry.go\<close>.

  Paths and patterns are strings; \<open>MatchesPattern path pattern\<close> is the path grammar (\<^verbatim>\<open>*\<close>, a leading
  peer wildcard \<^verbatim>\<open>/*/\<close>, a trailing \<^verbatim>\<open>/*\<close>), \<open>idScopeMatches pattern value\<close> the identifier grammar. The
  clock reading of the temporal checks is an argument \<open>now\<close>. A \<^verbatim>\<open>for\<close> loop with a flag and a \<^verbatim>\<open>break\<close> is
  \<open>list_ex\<close>, one that returns false from the function is \<open>list_all\<close>.

  Both matchers are preorders (\<open>pattern_preorder\<close>), which is what makes attenuation of scopes
  transitive; the client lemmas are proved once in the locale.
\<close>

section \<open>Expiry\<close>

definition Expired :: "u64 option \<Rightarrow> u64 \<Rightarrow> bool" where
  "Expired expiresAt now = (case expiresAt of None \<Rightarrow> False | Some t \<Rightarrow> t \<le> now)"

section \<open>Patterns\<close>

function MatchesPattern :: "string \<Rightarrow> string \<Rightarrow> bool" where
  "MatchesPattern path pattern =
     (if pattern = ''*'' then True
      else if HasPrefix pattern ''/*/'' then
        (let remainder = drop 3 pattern in
         if length path < 2 \<or> path ! 0 \<noteq> slash then False
         else (case cut_slash (drop 1 path) of
                 None \<Rightarrow> False
               | Some (_, pathRest) \<Rightarrow> MatchesPattern pathRest remainder))
      else if HasSuffix pattern ''/*'' then HasPrefix path (take (length pattern - 1) pattern)
      else path = pattern)"
  by pat_completeness auto
termination
  by (relation "measure (\<lambda>(_, pattern). length pattern)") (auto simp: HasPrefix_iff)

declare MatchesPattern.simps [simp del]

definition Canonicalize :: "string \<Rightarrow> string \<Rightarrow> string" where
  "Canonicalize path localPeerID =
     (if HasPrefix path ''./'' \<or> HasPrefix path ''../'' then path
      else if HasPrefix path ''*/'' then path
      else
        let rest =
          (if HasPrefix path ''/'' then path
           else if path = ''*'' then ''/'' @ localPeerID @ ''/*''
           else ''/'' @ localPeerID @ ''/'' @ path) in
        if HasPrefix path Scheme then
          (case ParseURI path of
             Inr parsed \<Rightarrow>
               if PeerID parsed \<noteq> '''' then
                 (if Path parsed = '''' then ''/'' @ PeerID parsed
                  else ''/'' @ PeerID parsed @ ''/'' @ Path parsed)
               else rest
           | Inl _ \<Rightarrow> rest)
        else rest)"

definition IsUnmatchablePattern :: "string \<Rightarrow> bool" where
  "IsUnmatchablePattern pattern \<longleftrightarrow>
     HasPrefix pattern ''./'' \<or> HasPrefix pattern ''../'' \<or> HasPrefix pattern ''*/''"

definition IsPattern :: "string \<Rightarrow> bool" where
  "IsPattern s \<longleftrightarrow> Contains s ''*''"

definition PatternsOverlap :: "string \<Rightarrow> string \<Rightarrow> bool" where
  "PatternsOverlap a b =
     (if a = ''*'' \<or> b = ''*'' then True
      else if \<not> IsPattern a \<and> \<not> IsPattern b then a = b
      else if \<not> IsPattern a then MatchesPattern a b
      else if \<not> IsPattern b then MatchesPattern b a
      else
        let aPrefix = TrimSuffix a ''/*''; bPrefix = TrimSuffix b ''/*'' in
        HasPrefix aPrefix bPrefix \<or> HasPrefix bPrefix aPrefix)"

section \<open>Scopes\<close>

definition scopeContains :: "string \<Rightarrow> CapabilityScope \<Rightarrow> bool" where
  "scopeContains value scope \<longleftrightarrow>
     list_ex (\<lambda>pattern. MatchesPattern value pattern) (sc_Include scope) \<and>
     list_all (\<lambda>pattern. \<not> IsUnmatchablePattern pattern \<and> \<not> MatchesPattern value pattern)
       (sc_Exclude scope)"

definition idScopeMatches :: "string \<Rightarrow> string \<Rightarrow> bool" where
  "idScopeMatches pattern value =
     (if pattern = ''*'' then True
      else if HasSuffix pattern ''/*'' then HasPrefix value (take (length pattern - 1) pattern)
      else value = pattern)"

definition matchesIDScope :: "string \<Rightarrow> CapabilityScope \<Rightarrow> bool" where
  "matchesIDScope value scope \<longleftrightarrow>
     list_ex (\<lambda>p. idScopeMatches p value) (sc_Include scope) \<and>
     list_all (\<lambda>p. \<not> idScopeMatches p value) (sc_Exclude scope)"

definition operationsAllow :: "CapabilityScope \<Rightarrow> string \<Rightarrow> bool" where
  "operationsAllow scope op \<longleftrightarrow> matchesIDScope op scope"

datatype peerMatch = peerMatchNo | peerMatchYes | peerMatchUnresolvable

definition peerPatternMatches :: "'p crypto_prims_scheme \<Rightarrow> string \<Rightarrow> string \<Rightarrow> peerMatch" where
  "peerPatternMatches P pattern comparand =
     (if pattern = ''*'' \<or> pattern = comparand then peerMatchYes
      else (case CanonicalizePeerID P pattern of
              None \<Rightarrow> peerMatchUnresolvable
            | Some cpat \<Rightarrow>
                if CanonicalizePeerID P comparand = Some cpat then peerMatchYes else peerMatchNo))"

definition matchesPeerScope :: "'p crypto_prims_scheme \<Rightarrow> string \<Rightarrow> CapabilityScope \<Rightarrow> bool" where
  "matchesPeerScope P comparand scope \<longleftrightarrow>
     list_ex (\<lambda>p. peerPatternMatches P p comparand = peerMatchYes) (sc_Include scope) \<and>
     list_all (\<lambda>p. peerPatternMatches P p comparand \<notin> {peerMatchYes, peerMatchUnresolvable})
       (sc_Exclude scope)"

definition MatchesPeerScope ::
  "'p crypto_prims_scheme \<Rightarrow> string \<Rightarrow> CapabilityScope \<Rightarrow> string \<Rightarrow> bool" where
  "MatchesPeerScope P peerID scope localPeerID \<longleftrightarrow> matchesPeerScope P peerID scope"

section \<open>Target peers\<close>

definition isPeerID :: "string \<Rightarrow> bool" where
  "isPeerID segment \<longleftrightarrow>
     (if length segment < 46 then False else list_all (\<lambda>r. r \<in> set base58Alphabet) segment)"

definition first_segment :: "string \<Rightarrow> string" where
  "first_segment norm = (case cut_slash norm of None \<Rightarrow> norm | Some (f, _) \<Rightarrow> f)"

definition extractPeer :: "string \<Rightarrow> string \<Rightarrow> string" where
  "extractPeer locator localPeerID =
     (let norm = TrimPrefix (NormalizePath locator) ''/''; first = first_segment norm in
      if isPeerID first then first else localPeerID)"

definition ExtractPeer :: "string \<Rightarrow> string \<Rightarrow> string" where
  "ExtractPeer locator localPeerID = extractPeer locator localPeerID"

definition ExtractPeerStrict :: "string \<Rightarrow> string option" where
  "ExtractPeerStrict locator =
     (let norm = TrimPrefix (NormalizePath locator) ''/''; first = first_segment norm in
      if isPeerID first then Some first else None)"

section \<open>Resources\<close>

definition IsCoveredBy :: "string \<Rightarrow> string list \<Rightarrow> string \<Rightarrow> string \<Rightarrow> bool" where
  "IsCoveredBy target patternSet localPeerID granterPeerID \<longleftrightarrow>
     (let canonTarget = Canonicalize target localPeerID in
      list_ex (\<lambda>p. MatchesPattern canonTarget (Canonicalize p granterPeerID)) patternSet)"

definition isExcluded :: "string \<Rightarrow> string list \<Rightarrow> string \<Rightarrow> string \<Rightarrow> bool" where
  "isExcluded target excludeSet localPeerID granterPeerID \<longleftrightarrow>
     (let canonTarget = Canonicalize target localPeerID in
      list_ex (\<lambda>excl. let canonExcl = Canonicalize excl granterPeerID in
                 IsUnmatchablePattern canonExcl \<or> MatchesPattern canonTarget canonExcl) excludeSet)"

definition EffectiveTargets :: "ResourceTarget option \<Rightarrow> string \<Rightarrow> string list" where
  "EffectiveTargets resource localPeerID =
     (case resource of
        None \<Rightarrow> []
      | Some r \<Rightarrow>
          filter (\<lambda>target. \<not> IsCoveredBy (Canonicalize target localPeerID) (rt_Exclude r)
                                localPeerID localPeerID)
            (rt_Targets r))"

definition validConcreteTarget :: "string \<Rightarrow> bool" where
  "validConcreteTarget ct \<longleftrightarrow> ValidateAbsolutePath ct = Inr ()"

text \<open>One iteration of the loop of \<^verbatim>\<open>CheckResourceScope\<close>.\<close>

definition check_target ::
  "string list \<Rightarrow> CapabilityScope \<Rightarrow> string \<Rightarrow> string \<Rightarrow> string \<Rightarrow> bool" where
  "check_target callerExclude grantResources localPeerID granterPeerID target =
     (let ct = Canonicalize target localPeerID in
      if \<not> IsPattern ct \<and> \<not> validConcreteTarget ct then False
      else if \<not> IsCoveredBy target (sc_Include grantResources) localPeerID granterPeerID then False
      else if IsPattern ct then
        list_all
          (\<lambda>ge. let cge = Canonicalize ge granterPeerID in
             if IsUnmatchablePattern cge then False
             else if \<not> PatternsOverlap ct cge then True
             else IsCoveredBy cge callerExclude localPeerID localPeerID)
          (sc_Exclude grantResources)
      else \<not> isExcluded target (sc_Exclude grantResources) localPeerID granterPeerID)"

definition CheckResourceScope ::
  "ResourceTarget option \<Rightarrow> CapabilityScope \<Rightarrow> string \<Rightarrow> string \<Rightarrow> bool" where
  "CheckResourceScope resource grantResources localPeerID granterPeerID =
     (let callerExclude = (case resource of None \<Rightarrow> [] | Some r \<Rightarrow> rt_Exclude r) in
      list_all (check_target callerExclude grantResources localPeerID granterPeerID)
        (EffectiveTargets resource localPeerID))"

section \<open>Grants\<close>

text \<open>The scope an absent \<^verbatim>\<open>peers\<close> field stands for.\<close>

definition peersScope :: "GrantEntry \<Rightarrow> string \<Rightarrow> CapabilityScope" where
  "peersScope grant localPeerID =
     (case g_Peers grant of
        None \<Rightarrow> \<lparr>sc_Include = [localPeerID], sc_Exclude = []\<rparr>
      | Some s \<Rightarrow> s)"

text \<open>The body of the loop of \<^verbatim>\<open>findMatchingGrant\<close>: the four dimensions of one grant.\<close>

definition grant_allows ::
  "'p crypto_prims_scheme \<Rightarrow> ExecuteData \<Rightarrow> string \<Rightarrow> string \<Rightarrow> string \<Rightarrow> string \<Rightarrow> bool \<Rightarrow>
    GrantEntry \<Rightarrow> bool" where
  "grant_allows P execute handlerPattern targetPeer localPeerID granterPeerID relaxPeers grant =
     (if \<not> operationsAllow (g_Operations grant) (ex_Operation execute) then False
      else if \<not> scopeContains handlerPattern (g_Handlers grant) then False
      else if ex_Resource execute \<noteq> None \<and>
              \<not> CheckResourceScope (ex_Resource execute) (g_Resources grant) localPeerID granterPeerID
        then False
      else if \<not> relaxPeers \<and>
              \<not> MatchesPeerScope P targetPeer (peersScope grant localPeerID) localPeerID
        then False
      else True)"

text \<open>The temporal checks at the head of the permission checks.\<close>

definition temporally_valid :: "CapabilityTokenData \<Rightarrow> u64 \<Rightarrow> bool" where
  "temporally_valid cap now =
     (if (case ct_NotBefore cap of None \<Rightarrow> False | Some nb \<Rightarrow> now < nb) then False
      else if Expired (ct_ExpiresAt cap) now then False
      else True)"

definition target_peer :: "ExecuteData \<Rightarrow> string \<Rightarrow> string \<Rightarrow> string" where
  "target_peer execute handlerPattern localPeerID =
     (let targetLocator = (if ex_URI execute = '''' then handlerPattern else ex_URI execute) in
      extractPeer targetLocator localPeerID)"

definition findMatchingGrant ::
  "'p crypto_prims_scheme \<Rightarrow> u64 \<Rightarrow> ExecuteData \<Rightarrow> CapabilityTokenData \<Rightarrow> string \<Rightarrow> string \<Rightarrow>
    string \<Rightarrow> bool \<Rightarrow> GrantEntry option" where
  "findMatchingGrant P now execute cap handlerPattern localPeerID granterPeerID relaxPeers =
     (if \<not> temporally_valid cap now then None
      else
        let targetPeer = target_peer execute handlerPattern localPeerID in
        List.find (grant_allows P execute handlerPattern targetPeer localPeerID granterPeerID relaxPeers)
          (ct_Grants cap))"

definition FindMatchingGrant ::
  "'p crypto_prims_scheme \<Rightarrow> u64 \<Rightarrow> ExecuteData \<Rightarrow> CapabilityTokenData \<Rightarrow> string \<Rightarrow> string \<Rightarrow>
    string \<Rightarrow> GrantEntry option" where
  "FindMatchingGrant P now execute cap handlerPattern localPeerID granterPeerID =
     findMatchingGrant P now execute cap handlerPattern localPeerID granterPeerID False"

definition CheckPermission ::
  "'p crypto_prims_scheme \<Rightarrow> u64 \<Rightarrow> ExecuteData \<Rightarrow> CapabilityTokenData \<Rightarrow> string \<Rightarrow> string \<Rightarrow>
    string \<Rightarrow> bool" where
  "CheckPermission P now execute cap handlerPattern localPeerID granterPeerID \<longleftrightarrow>
     FindMatchingGrant P now execute cap handlerPattern localPeerID granterPeerID \<noteq> None"

definition CheckPermissionRelaxPeers ::
  "'p crypto_prims_scheme \<Rightarrow> u64 \<Rightarrow> ExecuteData \<Rightarrow> CapabilityTokenData \<Rightarrow> string \<Rightarrow> string \<Rightarrow>
    string \<Rightarrow> bool \<Rightarrow> bool" where
  "CheckPermissionRelaxPeers P now execute cap handlerPattern localPeerID granterPeerID relaxPeers \<longleftrightarrow>
     findMatchingGrant P now execute cap handlerPattern localPeerID granterPeerID relaxPeers \<noteq> None"

text \<open>The body of the loop of \<^verbatim>\<open>CheckPathPermission\<close>.\<close>

definition grant_allows_path ::
  "string \<Rightarrow> string \<Rightarrow> string \<Rightarrow> string \<Rightarrow> GrantEntry \<Rightarrow> bool" where
  "grant_allows_path operation canonicalPath handlerPattern granterPeerID grant =
     (if \<not> operationsAllow (g_Operations grant) operation then False
      else if \<not> scopeContains handlerPattern (g_Handlers grant) then False
      else if \<not> list_ex (\<lambda>resource. MatchesPattern canonicalPath (Canonicalize resource granterPeerID))
                   (sc_Include (g_Resources grant))
        then False
      else if IsPattern canonicalPath then
        \<not> list_ex (\<lambda>excl. let cexcl = Canonicalize excl granterPeerID in
                     IsUnmatchablePattern cexcl \<or> PatternsOverlap canonicalPath cexcl)
             (sc_Exclude (g_Resources grant))
      else
        \<not> list_ex (\<lambda>excl. let canonicalExclude = Canonicalize excl granterPeerID in
                     IsUnmatchablePattern canonicalExclude \<or>
                     MatchesPattern canonicalPath canonicalExclude)
             (sc_Exclude (g_Resources grant)))"

definition CheckPathPermission ::
  "u64 \<Rightarrow> string \<Rightarrow> string \<Rightarrow> CapabilityTokenData \<Rightarrow> string \<Rightarrow> string \<Rightarrow> string \<Rightarrow> bool" where
  "CheckPathPermission now operation path cap handlerPattern localPeerID granterPeerID =
     (if \<not> temporally_valid cap now then False
      else
        let canonicalPath = Canonicalize path localPeerID in
        list_ex (grant_allows_path operation canonicalPath handlerPattern granterPeerID) (ct_Grants cap))"

text \<open>The patterns of the two path-scope dimensions, in the order of the four loops.\<close>

definition FirstUnmatchableScopePattern :: "GrantEntry list \<Rightarrow> string" where
  "FirstUnmatchableScopePattern grants =
     (case List.find IsUnmatchablePattern
             (concat (map (\<lambda>g. sc_Include (g_Handlers g) @ sc_Exclude (g_Handlers g) @
                              sc_Include (g_Resources g) @ sc_Exclude (g_Resources g)) grants)) of
        None \<Rightarrow> ''''
      | Some p \<Rightarrow> p)"

section \<open>Granters as namespaces\<close>

definition peerIDFromPeerEntity :: "'p crypto_prims_scheme \<Rightarrow> entity \<Rightarrow> string result" where
  "peerIDFromPeerEntity P ent =
     (if Type ent \<noteq> TypePeer then Inl []
      else (case PeerDataFromEntity P ent of
              Inl e \<Rightarrow> Inl e
            | Inr idData \<Rightarrow>
                (case KeyTypeByte (pd_KeyType idData) of
                   None \<Rightarrow> Inl []
                 | Some ktByte \<Rightarrow> PeerIDFromPublicKey P (pd_PublicKey idData) ktByte)))"

text \<open>\<open>get\<close> is the \<^verbatim>\<open>Get\<close> method of the content store.\<close>

definition ResolveGranterPeerID ::
  "'p crypto_prims_scheme \<Rightarrow> Granter \<Rightarrow> (hash \<Rightarrow> entity option) \<Rightarrow> string \<Rightarrow> string result" where
  "ResolveGranterPeerID P granter get localPeerID =
     (case granter of
        MultiSigGranter _ \<Rightarrow> Inr localPeerID
      | SingleSigGranter granterHash \<Rightarrow>
          if IsZero granterHash then Inr localPeerID
          else (case get granterHash of
                  None \<Rightarrow> Inl []
                | Some granterEnt \<Rightarrow> peerIDFromPeerEntity P granterEnt))"

section \<open>The path matcher\<close>

lemma MatchesPattern_star [simp]: "MatchesPattern s ''*''"
  by (simp add: MatchesPattern.simps)

lemma MatchesPattern_peer:
  "MatchesPattern s (slash # CHR ''*'' # slash # r) \<longleftrightarrow> (\<exists>x t. s = slash # x @ slash # t \<and> slash \<notin> set x \<and> MatchesPattern t r)"
proof -
  have "MatchesPattern s (slash # CHR ''*'' # slash # r) \<longleftrightarrow>
     \<not> (length s < 2 \<or> s ! 0 \<noteq> slash) \<and>
     (case cut_slash (drop 1 s) of None \<Rightarrow> False | Some (_, t) \<Rightarrow> MatchesPattern t r)"
    by (subst MatchesPattern.simps) (simp add: Let_def)
  also have "\<dots> \<longleftrightarrow> (\<exists>x t. s = slash # x @ slash # t \<and> slash \<notin> set x \<and> MatchesPattern t r)"
    by (cases s) (auto simp: cut_slash_Some cut_slash_None dest: split_slash_unique split: option.split)
  finally show ?thesis .
qed

lemma MatchesPattern_peerI:
  "slash \<notin> set x \<Longrightarrow> MatchesPattern t r \<Longrightarrow>
     MatchesPattern (slash # x @ slash # t) (slash # CHR ''*'' # slash # r)"
  by (auto simp: MatchesPattern_peer)

lemmas MatchesPattern_peer_starI = MatchesPattern_peerI [of "''*''", simplified]

lemma MatchesPattern_subtree:
  "\<not> HasPrefix (q @ ''/*'') ''/*/'' \<Longrightarrow> MatchesPattern s (q @ ''/*'') \<longleftrightarrow> HasPrefix s (q @ ''/'')"
  by (subst MatchesPattern.simps) simp

lemma MatchesPattern_exact:
  "p \<noteq> ''*'' \<Longrightarrow> \<not> HasPrefix p ''/*/'' \<Longrightarrow> \<not> HasSuffix p ''/*'' \<Longrightarrow> MatchesPattern s p \<longleftrightarrow> s = p"
  by (subst MatchesPattern.simps) simp

lemma pattern_cases [case_names star peer subtree exact]:
  obtains "p = ''*''" | r where "p = slash # CHR ''*'' # slash # r"
  | q where "p = q @ ''/*''" "\<not> HasPrefix p ''/*/''"
  | "p \<noteq> ''*''" "\<not> HasPrefix p ''/*/''" "\<not> HasSuffix p ''/*''"
proof -
  have "HasPrefix p ''/*/'' \<Longrightarrow> \<exists>r. p = slash # CHR ''*'' # slash # r"
    by (auto simp: HasPrefix_iff)
  then show thesis
    using that by (metis HasSuffix_iff)
qed

lemma subtree_suffix_append: "a @ b = q @ ''/*'' \<Longrightarrow> length b \<ge> 2 \<Longrightarrow> \<exists>q'. b = q' @ ''/*''"
  by (cases b rule: rev_cases; cases "butlast b" rule: rev_cases) auto


lemma MatchesPattern_refl: "MatchesPattern s s"
proof (induction "length s" arbitrary: s rule: less_induct)
  case less
  show ?case
  proof (cases s rule: pattern_cases)
    case (peer r)
    then have "MatchesPattern r r" by (intro less) simp
    then show ?thesis
      unfolding peer by (rule MatchesPattern_peer_starI)
  next
    case (subtree q)
    then show ?thesis by (simp add: MatchesPattern_subtree)
  qed (simp_all add: MatchesPattern_exact)
qed

text \<open>A path below the literal prefix of a subtree pattern matches it, whatever else it contains.\<close>

lemma MatchesPattern_prefix: "HasPrefix s (q @ ''/'') \<Longrightarrow> MatchesPattern s (q @ ''/*'')"
proof (induction "length q" arbitrary: s q rule: less_induct)
  case less
  obtain t where s: "s = q @ slash # t"
    using less.prems by (auto simp: HasPrefix_iff)
  show ?case
  proof (cases "HasPrefix (q @ ''/*'') ''/*/''")
    case True
    then obtain r where r: "q @ ''/*'' = ''/*/'' @ r"
      by (auto simp: HasPrefix_iff)
    show ?thesis
    proof (cases "length q < 3")
      case True
      have "length q \<noteq> 1" using r by (cases q; cases "tl q") auto
      with True r have q: "q = ''/*''"
        by (cases q; cases "tl q"; cases "tl (tl q)") auto
      show ?thesis
        using s q by (simp add: MatchesPattern_peer_starI)
    next
      case False
      then obtain q' where q: "q = ''/*/'' @ q'"
        using r by (cases q; cases "tl q"; cases "tl (tl q)") auto
      then have "MatchesPattern (q' @ slash # t) (q' @ ''/*'')"
        by (intro less.hyps) simp_all
      then show ?thesis
        using s q by (simp add: MatchesPattern_peer_starI)
    qed
  next
    case False
    then show ?thesis using less.prems by (simp add: MatchesPattern_subtree)
  qed
qed

text \<open>What matches a pattern with a peer segment has one, and matches below it.\<close>

lemma MatchesPattern_peer_rest:
  assumes "MatchesPattern a b" and b: "b = slash # x @ slash # b'" and x: "slash \<notin> set x"
  shows "\<exists>y a'. a = slash # y @ slash # a' \<and> slash \<notin> set y \<and> MatchesPattern a' b'"
proof (cases b rule: pattern_cases)
  case star
  then show ?thesis using b by simp
next
  case (peer r)
  then have "r = b'"
    using b x split_slash_unique [of "''*''" r x b'] by auto
  then show ?thesis
    using assms(1) peer by (simp add: MatchesPattern_peer)
next
  case (subtree q)
  then have pre: "HasPrefix a (q @ ''/'')"
    using assms(1) by (simp add: MatchesPattern_subtree)
  show ?thesis
  proof (cases "length b' < 2")
    case True
    then have "b' = ''*''" "q = slash # x"
      using b subtree(1) by (cases b' rule: rev_cases; auto)+
    then show ?thesis
      using pre x by (auto simp: HasPrefix_iff)
  next
    case False
    then obtain q' where q': "b' = q' @ ''/*''"
      using subtree_suffix_append [of "slash # x @ ''/''" b' q] b subtree(1) by auto
    then obtain t where "a = slash # x @ slash # (q' @ slash # t)"
      using b subtree(1) pre by (auto simp: HasPrefix_iff)
    then show ?thesis
      using x MatchesPattern_prefix [of "q' @ slash # t" q'] q' by auto
  qed
next
  case exact
  then show ?thesis
    using assms MatchesPattern_refl [of b'] by (auto simp: MatchesPattern_exact)
qed

lemma subtree_prefix: "HasPrefix (r @ ''/*'') (q @ ''/'') \<Longrightarrow> HasPrefix (r @ ''/'') (q @ ''/'')"
proof -
  assume "HasPrefix (r @ ''/*'') (q @ ''/'')"
  then obtain t where "r @ ''/*'' = q @ ''/'' @ t"
    by (auto simp: HasPrefix_iff)
  then show ?thesis
    by (cases t rule: rev_cases) (auto simp: HasPrefix_iff append_eq_append_conv2)
qed

text \<open>What matches a pattern below a literal prefix is below that prefix.\<close>

lemma MatchesPattern_prefix_mono:
  assumes "MatchesPattern a b" and pre: "HasPrefix b (q @ ''/'')"
    and wild: "\<not> HasPrefix (q @ ''/*'') ''/*/''"
  shows "HasPrefix a (q @ ''/'')"
proof (cases b rule: pattern_cases)
  case star
  then show ?thesis using pre by (cases q) auto
next
  case (peer r)
  have "q = []"
  proof (rule ccontr)
    assume "q \<noteq> []"
    with pre peer obtain q' where q: "q = slash # q'"
      and pre': "HasPrefix (CHR ''*'' # slash # r) (q' @ ''/'')"
      by (cases q) auto
    then obtain q'' where q'': "q' = CHR ''*'' # q''"
      by (cases q') auto
    with pre' have "HasPrefix (q'' @ ''/*'') ''/''"
      by (cases q'') auto
    with wild q q'' show False by simp
  qed
  then show ?thesis
    using assms(1) peer by (auto simp: MatchesPattern_peer)
next
  case (subtree q2)
  then have "HasPrefix a (q2 @ ''/'')"
    using assms(1) by (simp add: MatchesPattern_subtree)
  moreover have "HasPrefix (q2 @ ''/'') (q @ ''/'')"
    using pre subtree(1) by (simp add: subtree_prefix)
  ultimately show ?thesis by (rule HasPrefix_trans)
next
  case exact
  then show ?thesis using assms by (simp add: MatchesPattern_exact)
qed

lemma MatchesPattern_trans: "MatchesPattern a b \<Longrightarrow> MatchesPattern b c \<Longrightarrow> MatchesPattern a c"
proof (induction "length c" arbitrary: a b c rule: less_induct)
  case less
  show ?case
  proof (cases c rule: pattern_cases)
    case (peer c')
    then obtain x b' where b: "b = slash # x @ slash # b'" "slash \<notin> set x" "MatchesPattern b' c'"
      using less.prems(2) by (auto simp: MatchesPattern_peer)
    obtain y a' where a: "a = slash # y @ slash # a'" "slash \<notin> set y" "MatchesPattern a' b'"
      using MatchesPattern_peer_rest [OF less.prems(1) b(1,2)] by auto
    have "MatchesPattern a' c'"
      using less.hyps [of c' a' b'] a(3) b(3) peer by simp
    then show ?thesis
      using a peer by (simp add: MatchesPattern_peerI)
  next
    case (subtree q)
    then show ?thesis
      using less.prems MatchesPattern_prefix_mono by (simp add: MatchesPattern_subtree)
  qed (use less.prems in \<open>simp_all add: MatchesPattern_exact\<close>)
qed

section \<open>Patterns as a preorder\<close>

text \<open>
  The contract that a matcher offers to scopes: a pattern matches itself as a value, and matching
  is transitive. Covering one list of patterns by another then carries matches over.
\<close>

locale pattern_preorder =
  fixes covered :: "'a \<Rightarrow> 'a \<Rightarrow> bool"
  assumes covered_refl: "covered s s"
    and covered_trans: "covered a b \<Longrightarrow> covered b c \<Longrightarrow> covered a c"
begin

definition all_covered :: "'a list \<Rightarrow> 'a list \<Rightarrow> bool" where
  "all_covered inner outer \<longleftrightarrow> list_all (\<lambda>i. list_ex (covered i) outer) inner"

lemma all_covered_refl: "all_covered ps ps"
  using covered_refl by (auto simp: all_covered_def list_all_iff list_ex_iff)

lemma all_covered_match:
  "all_covered inner outer \<Longrightarrow> list_ex (covered v) inner \<Longrightarrow> list_ex (covered v) outer"
  using covered_trans by (fastforce simp: all_covered_def list_all_iff list_ex_iff)

lemma all_covered_trans:
  "all_covered a b \<Longrightarrow> all_covered b c \<Longrightarrow> all_covered a c"
  using all_covered_match unfolding all_covered_def list_all_iff by blast

text \<open>
  Attenuation of a scope: the child's includes are covered by the parent's, the parent's excludes
  by the child's. A value in the child's scope is in the parent's.
\<close>

lemma attenuated_scope:
  assumes "all_covered ci pi" and "all_covered pe ce"
    and "list_ex (covered v) ci" and "\<not> list_ex (covered v) ce"
  shows "list_ex (covered v) pi \<and> \<not> list_ex (covered v) pe"
  using assms all_covered_match by blast

end

interpretation path_pat: pattern_preorder MatchesPattern
  by unfold_locales (auto intro: MatchesPattern_refl MatchesPattern_trans)

lemma idScopeMatches_subtree [simp]: "idScopeMatches (q @ ''/*'') v \<longleftrightarrow> HasPrefix v (q @ ''/'')"
  by (simp add: idScopeMatches_def)

lemma idScopeMatches_star [simp]: "idScopeMatches ''*'' v"
  by (simp add: idScopeMatches_def)

lemma id_pattern_cases [case_names star subtree exact]:
  obtains "p = ''*''" | q where "p = q @ ''/*''"
  | "p \<noteq> ''*''" "\<not> HasSuffix p ''/*''" "\<And>v. idScopeMatches p v \<longleftrightarrow> v = p"
  by (metis HasSuffix_iff idScopeMatches_def)

lemma idScopeMatches_refl: "idScopeMatches p p"
  by (cases p rule: id_pattern_cases) auto

lemma idScopeMatches_trans:
  assumes "idScopeMatches b a" and "idScopeMatches c b"
  shows "idScopeMatches c a"
proof (cases c rule: id_pattern_cases)
  case (subtree q)
  then have pre: "HasPrefix b (q @ ''/'')"
    using assms(2) by simp
  show ?thesis
  proof (cases b rule: id_pattern_cases)
    case star
    then show ?thesis using pre by (cases q) auto
  next
    case (subtree r)
    then show ?thesis
      using assms(1) pre \<open>c = q @ ''/*''\<close> subtree_prefix [of r q] HasPrefix_trans by auto
  qed (use assms subtree pre in auto)
qed (use assms in auto)

interpretation id_pat: pattern_preorder "\<lambda>v p. idScopeMatches p v"
  by unfold_locales (auto intro: idScopeMatches_refl idScopeMatches_trans)

section \<open>Canonical paths\<close>

lemma Canonicalize_unmatchable: "IsUnmatchablePattern p \<Longrightarrow> Canonicalize p g = p"
  by (auto simp: IsUnmatchablePattern_def Canonicalize_def)

lemma Canonicalize_absolute:
  "\<not> IsUnmatchablePattern p \<Longrightarrow> \<exists>r. Canonicalize p g = slash # r"
  by (auto simp: IsUnmatchablePattern_def Canonicalize_def Let_def HasPrefix_iff split: sum.splits)

lemma absolute_matchable: "\<not> IsUnmatchablePattern (slash # r)"
  by (simp add: IsUnmatchablePattern_def)

lemma Canonicalize_id: "Canonicalize (slash # r) g = slash # r"
  by (simp add: Canonicalize_def Let_def Scheme_def)

text \<open>
  Canonicalization is idempotent for every pair of peers, yields an absolute path except on the
  patterns that can never match, which it leaves alone: whether a pattern is unmatchable does not
  depend on the namespace it is read in.
\<close>

theorem Canonicalize_idem:
  "Canonicalize (Canonicalize p g) g' = Canonicalize p g \<and>
   (IsUnmatchablePattern (Canonicalize p g) \<longleftrightarrow> IsUnmatchablePattern p) \<and>
   (IsAbsolute (Canonicalize p g) \<longleftrightarrow> \<not> IsUnmatchablePattern p)"
proof (cases "IsUnmatchablePattern p")
  case True
  then show ?thesis
    by (auto simp: Canonicalize_unmatchable IsAbsolute_def IsUnmatchablePattern_def HasPrefix_iff)
next
  case False
  then obtain r where "Canonicalize p g = slash # r"
    using Canonicalize_absolute by blast
  with False show ?thesis
    by (simp add: Canonicalize_id absolute_matchable IsAbsolute_def)
qed

lemma match_unmatchable:
  assumes "IsUnmatchablePattern a" and "MatchesPattern a b"
  shows "b = ''*'' \<or> IsUnmatchablePattern b"
proof (cases b rule: pattern_cases)
  case (peer r)
  then show ?thesis using assms
    by (auto simp: MatchesPattern_peer IsUnmatchablePattern_def)
next
  case (subtree q)
  then obtain t where "a = q @ slash # t"
    using assms(2) by (auto simp: MatchesPattern_subtree HasPrefix_iff)
  then show ?thesis
    using assms(1) subtree(1)
    by (cases q; cases "tl q"; cases "tl (tl q)") (auto simp: IsUnmatchablePattern_def)
qed (use assms in \<open>simp_all add: MatchesPattern_exact\<close>)


section \<open>Overlap of patterns\<close>

lemma IsPattern_iff: "IsPattern s \<longleftrightarrow> CHR ''*'' \<in> set s"
  by (simp add: IsPattern_def Contains_char)

lemma not_IsPattern_exact: "\<not> IsPattern p \<Longrightarrow> MatchesPattern s p \<longleftrightarrow> s = p"
  by (rule MatchesPattern_exact) (auto simp: IsPattern_iff HasPrefix_iff HasSuffix_iff)

lemma TrimSuffix_prefix:
  assumes "MatchesPattern s p" and "p \<noteq> ''*''" and "\<not> HasPrefix p ''/*/''"
  shows "HasPrefix s (TrimSuffix p ''/*'') \<and> (\<not> HasSuffix p ''/*'' \<longrightarrow> s = p)"
proof (cases p rule: pattern_cases)
  case (subtree q)
  then show ?thesis using assms
    by (auto simp: MatchesPattern_subtree HasPrefix_iff)
next
  case exact
  then show ?thesis using assms by (simp add: MatchesPattern_exact TrimSuffix_def)
qed (use assms in auto)

text \<open>
  \<^verbatim>\<open>PatternsOverlap\<close> misses no common path of two patterns without a peer wildcard: whenever some
  path matches both, it answers true.
\<close>

theorem PatternsOverlap_complete:
  assumes "MatchesPattern s a" and "MatchesPattern s b"
    and "\<not> HasPrefix a ''/*/''" and "\<not> HasPrefix b ''/*/''"
  shows "PatternsOverlap a b"
proof -
  have "HasPrefix (TrimSuffix a ''/*'') (TrimSuffix b ''/*'') \<or>
      HasPrefix (TrimSuffix b ''/*'') (TrimSuffix a ''/*'')" if "a \<noteq> ''*''" "b \<noteq> ''*''"
    using TrimSuffix_prefix [of s a] TrimSuffix_prefix [of s b] assms that HasPrefix_comparable by blast
  then show ?thesis
    using assms by (auto simp: PatternsOverlap_def not_IsPattern_exact Let_def)
qed

theorem PatternsOverlap_complete_witness:
  "PatternsOverlap ''/p/a/*'' ''/p/a/b/*''"
  by (rule PatternsOverlap_complete [of "''/p/a/b/c''"]) code_simp+

text \<open>
  C40. With a peer wildcard \<^verbatim>\<open>PatternsOverlap\<close> does miss a common path, and the resource check of a
  pattern target then lets an excluded region through: under a grant of everything except
  \<^verbatim>\<open>/*/system/secret/*\<close>, the pattern target \<^verbatim>\<open>/peer/system/*\<close> passes, although the path
  \<^verbatim>\<open>/peer/system/secret/k\<close> matches it and is refused when it is named itself.
\<close>

theorem PatternsOverlap_misses_wildcard:
  assumes "looksLikePeerID p"
  defines "target \<equiv> ''/'' @ p @ ''/system/*''" and "secret \<equiv> ''/'' @ p @ ''/system/secret/k''"
    and "grant \<equiv> \<lparr>sc_Include = [''/*/*''], sc_Exclude = [''/*/system/secret/*'']\<rparr>"
  shows "MatchesPattern secret target \<and>
    CheckResourceScope (Some \<lparr>rt_Targets = [target], rt_Exclude = []\<rparr>) grant l g \<and>
    \<not> CheckResourceScope (Some \<lparr>rt_Targets = [secret], rt_Exclude = []\<rparr>) grant l g"
proof -
  have star: "CHR ''*'' \<notin> set p" and sl: "slash \<notin> set p"
    using looksLikePeerID_chars [OF assms(1)] base58_no_star base58_no_slash by auto
  obtain c p' where p: "p = c # p'" and c: "c \<noteq> CHR ''*''"
    using assms(1) star by (cases p) (auto simp: looksLikePeerID_def)
  have "HasPrefix secret ((''/'' @ p @ ''/system'') @ ''/'')"
    by (simp add: secret_def HasPrefix_iff)
  then have m: "MatchesPattern secret target"
    using MatchesPattern_prefix [of secret "''/'' @ p @ ''/system''"] by (simp add: target_def)
  have t1: "MatchesPattern target ''/*/*''" and t2: "\<not> PatternsOverlap target ''/*/system/secret/*''"
    using MatchesPattern_peerI [OF sl, of "''system/*''" "''*''"] c
    by (simp_all add: target_def PatternsOverlap_def IsPattern_iff Let_def TrimSuffix_def HasSuffix_def p)
  have "MatchesPattern ''system/secret/k'' ''system/secret/*''"
    by code_simp
  then have s1: "MatchesPattern secret ''/*/system/secret/*''"
    using MatchesPattern_peerI [OF sl, of "''system/secret/k''" "''system/secret/*''"]
    by (simp add: secret_def)
  have "IsPattern target" "\<not> IsPattern secret"
    using star by (simp_all add: target_def secret_def IsPattern_iff)
  moreover have "Canonicalize target l = target" "Canonicalize secret l = secret"
    "Canonicalize ''/*/*'' g = ''/*/*''" "Canonicalize ''/*/system/secret/*'' g = ''/*/system/secret/*''"
    by (simp_all add: target_def secret_def Canonicalize_id)
  ultimately show ?thesis
    using m t1 t2 s1
    by (simp add: CheckResourceScope_def EffectiveTargets_def IsCoveredBy_def check_target_def
        isExcluded_def grant_def absolute_matchable Let_def)
qed

theorem PatternsOverlap_misses_wildcard_witness:
  "CheckResourceScope (Some \<lparr>rt_Targets = [''/'' @ replicate 46 CHR ''a'' @ ''/system/*''], rt_Exclude = []\<rparr>)
     \<lparr>sc_Include = [''/*/*''], sc_Exclude = [''/*/system/secret/*'']\<rparr> ''l'' ''g''"
proof -
  have "looksLikePeerID (replicate 46 CHR ''a'')" by code_simp
  from PatternsOverlap_misses_wildcard [OF this, of "''l''" "''g''"] show ?thesis by blast
qed

section \<open>The permission check\<close>

lemma findMatchingGrant_iff:
  "findMatchingGrant P now ex cap h l g relax \<noteq> None \<longleftrightarrow>
     temporally_valid cap now \<and>
     list_ex (grant_allows P ex h (target_peer ex h l) l g relax) (ct_Grants cap)"
  by (auto simp: findMatchingGrant_def Let_def list_ex_iff find_None_iff simp del: not_None_eq)

lemma CheckPermission_iff:
  "CheckPermission P now ex cap h l g \<longleftrightarrow>
     temporally_valid cap now \<and>
     list_ex (grant_allows P ex h (target_peer ex h l) l g False) (ct_Grants cap)"
  by (simp add: CheckPermission_def FindMatchingGrant_def findMatchingGrant_iff del: not_None_eq)

end
