(* ===== verification/Cap_Chain.thy ===== *)
theory Cap_Chain
  imports Cap_Match
begin

text \<open>
  Delegation: \<^verbatim>\<open>core/capability/authority.go\<close> and \<^verbatim>\<open>delegation.go\<close>.

  An authority chain is a list of entities from the leaf to the root. A resolver is a function from
  hashes to entities. \<open>clock i\<close> is the reading of \<^verbatim>\<open>time.Now\<close> while the link at position \<open>i\<close> is
  checked. Range loops over the \<^verbatim>\<open>included\<close> map visit the association list in its order; the theorems
  hold for every order.
\<close>

definition maxChainDepth :: nat where
  "maxChainDepth = 64"

section \<open>Authority chains\<close>

definition IncludedResolver :: "included_map \<Rightarrow> hash \<Rightarrow> entity option" where
  "IncludedResolver included h = gm_get included h"

fun findSignatureForTarget ::
  "'p crypto_prims_scheme \<Rightarrow> hash \<Rightarrow> included_map \<Rightarrow> entity option" where
  "findSignatureForTarget P target [] = None"
| "findSignatureForTarget P target ((_, ent) # rest) =
     (if Type ent \<noteq> TypeSignature then findSignatureForTarget P target rest
      else (case SignatureDataFromEntity P ent of
              Inl _ \<Rightarrow> findSignatureForTarget P target rest
            | Inr sigData \<Rightarrow>
                if sd_Target sigData = target then Some ent
                else findSignatureForTarget P target rest))"

fun findSignatureBySigner ::
  "'p crypto_prims_scheme \<Rightarrow> hash \<Rightarrow> hash \<Rightarrow> included_map \<Rightarrow> entity option" where
  "findSignatureBySigner P target signer [] = None"
| "findSignatureBySigner P target signer ((_, ent) # rest) =
     (if Type ent \<noteq> TypeSignature then findSignatureBySigner P target signer rest
      else (case SignatureDataFromEntity P ent of
              Inl _ \<Rightarrow> findSignatureBySigner P target signer rest
            | Inr sigData \<Rightarrow>
                if sd_Target sigData = target \<and> sd_Signer sigData = signer then Some ent
                else findSignatureBySigner P target signer rest))"

definition IncludedSignatureResolver ::
  "'p crypto_prims_scheme \<Rightarrow> included_map \<Rightarrow> hash \<Rightarrow> hash \<Rightarrow> entity option" where
  "IncludedSignatureResolver P included target signer = findSignatureBySigner P target signer included"

text \<open>The loop of \<^verbatim>\<open>CollectAuthorityChain\<close>, with its variables as arguments.\<close>

function collect_chain ::
  "'p cap_prims_scheme \<Rightarrow> (hash \<Rightarrow> entity option) \<Rightarrow> byte \<Rightarrow> entity list \<Rightarrow> entity \<Rightarrow> nat \<Rightarrow>
    entity list result" where
  "collect_chain P resolve chainFormatCode chain current depth =
     (if depth > maxChainDepth then Inl [ErrChainTooDeep]
      else if Algorithm (ContentHash current) \<noteq> chainFormatCode then Inl [ErrCapabilityDenied]
      else (case CapabilityTokenDataFromEntity P current of
              Inl e \<Rightarrow> Inl e
            | Inr capData \<Rightarrow>
                (case ct_Parent capData of
                   None \<Rightarrow> Inr (chain @ [current])
                 | Some parent \<Rightarrow>
                     (case resolve parent of
                        None \<Rightarrow> Inl [ErrChainUnreachable]
                      | Some parentEntity \<Rightarrow>
                          collect_chain P resolve chainFormatCode (chain @ [current]) parentEntity
                            (Suc depth)))))"
  by pat_completeness auto
termination
  by (relation "measure (\<lambda>(_, _, _, _, _, depth). Suc maxChainDepth - depth)") auto

declare collect_chain.simps [simp del]

definition CollectAuthorityChain ::
  "'p cap_prims_scheme \<Rightarrow> entity \<Rightarrow> (hash \<Rightarrow> entity option) \<Rightarrow> entity list result" where
  "CollectAuthorityChain P capEntity resolve =
     collect_chain P resolve (Algorithm (ContentHash capEntity)) [] capEntity 0"

text \<open>The loop of \<^verbatim>\<open>CheckCreatorAuthority\<close>; \<open>findSig = None\<close> is the nil resolver.\<close>

fun creator_in_chain ::
  "'p cap_prims_scheme \<Rightarrow> hash \<Rightarrow> (hash \<Rightarrow> entity option) \<Rightarrow> (hash \<Rightarrow> hash \<Rightarrow> entity option) option \<Rightarrow>
    entity list \<Rightarrow> bool result" where
  "creator_in_chain P ident resolve findSig [] = Inr False"
| "creator_in_chain P ident resolve findSig (ent # rest) =
     (case CapabilityTokenDataFromEntity P ent of
        Inl e \<Rightarrow> Inl e
      | Inr capData \<Rightarrow>
          (case ValidateStructure capData of
             Inl _ \<Rightarrow> Inl [ErrCapabilityDenied]
           | Inr _ \<Rightarrow>
               (case ct_Granter capData of
                  SingleSigGranter granterHash \<Rightarrow>
                    if granterHash = ident then Inr True
                    else creator_in_chain P ident resolve findSig rest
                | MultiSigGranter multi \<Rightarrow>
                    if \<not> HasSigner multi ident then creator_in_chain P ident resolve findSig rest
                    else (case findSig of
                            None \<Rightarrow> creator_in_chain P ident resolve findSig rest
                          | Some fs \<Rightarrow>
                              (case fs (ContentHash ent) ident of
                                 None \<Rightarrow> creator_in_chain P ident resolve findSig rest
                               | Some sigEntity \<Rightarrow>
                                   (case (SignatureDataFromEntity P sigEntity, resolve ident) of
                                      (Inr sigData, Some writer) \<Rightarrow>
                                        (case PeerDataFromEntity P writer of
                                           Inl _ \<Rightarrow> creator_in_chain P ident resolve findSig rest
                                         | Inr writerIdentity \<Rightarrow>
                                             (case KeyTypeByte (pd_KeyType writerIdentity) of
                                                None \<Rightarrow> creator_in_chain P ident resolve findSig rest
                                              | Some ktByte \<Rightarrow>
                                                  if crypto_Verify P ktByte (pd_PublicKey writerIdentity)
                                                       (hash_Bytes (ContentHash ent)) (sd_Signature sigData)
                                                  then Inr True
                                                  else creator_in_chain P ident resolve findSig rest))
                                    | _ \<Rightarrow> creator_in_chain P ident resolve findSig rest))))))"

text \<open>The chain that the Go function also returns is the one collected here.\<close>

definition CheckCreatorAuthority ::
  "'p cap_prims_scheme \<Rightarrow> entity \<Rightarrow> hash \<Rightarrow> (hash \<Rightarrow> entity option) \<Rightarrow>
    (hash \<Rightarrow> hash \<Rightarrow> entity option) option \<Rightarrow> bool result \<times> entity list" where
  "CheckCreatorAuthority P capEntity ident resolve findSig =
     (case CollectAuthorityChain P capEntity resolve of
        Inl e \<Rightarrow> (Inl e, [])
      | Inr chain \<Rightarrow> (creator_in_chain P ident resolve findSig chain, chain))"

section \<open>Attenuation\<close>

definition idScopeSubset :: "CapabilityScope \<Rightarrow> CapabilityScope \<Rightarrow> bool" where
  "idScopeSubset child parent \<longleftrightarrow>
     list_all (\<lambda>childPattern. list_ex (\<lambda>parentPattern. idScopeMatches parentPattern childPattern)
                 (sc_Include parent)) (sc_Include child) \<and>
     list_all (\<lambda>parentEx. list_ex (\<lambda>childEx. idScopeMatches childEx parentEx)
                 (sc_Exclude child)) (sc_Exclude parent)"

definition excludesInherited ::
  "string list \<Rightarrow> string list \<Rightarrow> (string \<Rightarrow> string) \<Rightarrow> (string \<Rightarrow> string) \<Rightarrow> bool" where
  "excludesInherited parentExcludes childExcludes canonParent canonChild \<longleftrightarrow>
     list_all (\<lambda>pe. let cpe = canonParent pe in
                 list_ex (\<lambda>ce. MatchesPattern cpe (canonChild ce)) childExcludes) parentExcludes"

definition decodeCBORMap :: "'p cap_prims_scheme \<Rightarrow> bytes \<Rightarrow> (string, bytes) gomap" where
  "decodeCBORMap P raw =
     (if length raw = 0 then []
      else (case cbor_UnmarshalMap P raw of Inl _ \<Rightarrow> [] | Inr m \<Rightarrow> m))"

definition checkMapAttenuation :: "'p cap_prims_scheme \<Rightarrow> bytes \<Rightarrow> bytes \<Rightarrow> bool \<Rightarrow> bool" where
  "checkMapAttenuation P parentRaw childRaw isConstraint =
     (let parentMap = decodeCBORMap P parentRaw; childMap = decodeCBORMap P childRaw in
      if isConstraint then
        list_all (\<lambda>(key, parentVal).
            case gm_get childMap key of None \<Rightarrow> False | Some childVal \<Rightarrow> parentVal = childVal) parentMap
      else
        list_all (\<lambda>(key, childVal).
            case gm_get parentMap key of None \<Rightarrow> False | Some parentVal \<Rightarrow> parentVal = childVal) childMap)"

definition grantCovers ::
  "'p cap_prims_scheme \<Rightarrow> GrantEntry \<Rightarrow> GrantEntry \<Rightarrow> string \<Rightarrow> string \<Rightarrow> string \<Rightarrow> bool" where
  "grantCovers P parent child parentGranterPeerID childGranterPeerID localPeerID =
     (if \<not> list_all (\<lambda>childHandler. list_ex (\<lambda>parentHandler. MatchesPattern childHandler parentHandler)
               (sc_Include (g_Handlers parent))) (sc_Include (g_Handlers child)) then False
      else if \<not> idScopeSubset (g_Operations child) (g_Operations parent) then False
      else if \<not> list_all (\<lambda>childRes. let canonChild = Canonicalize childRes childGranterPeerID in
               list_ex (\<lambda>parentRes. MatchesPattern canonChild (Canonicalize parentRes parentGranterPeerID))
                 (sc_Include (g_Resources parent))) (sc_Include (g_Resources child)) then False
      else if \<not> idScopeSubset (peersScope child localPeerID) (peersScope parent localPeerID) then False
      else if \<not> excludesInherited (sc_Exclude (g_Handlers parent)) (sc_Exclude (g_Handlers child))
               (\<lambda>s. s) (\<lambda>s. s) then False
      else if \<not> excludesInherited (sc_Exclude (g_Resources parent)) (sc_Exclude (g_Resources child))
               (\<lambda>s. Canonicalize s parentGranterPeerID) (\<lambda>s. Canonicalize s childGranterPeerID) then False
      else if \<not> checkMapAttenuation P (g_Constraints parent) (g_Constraints child) True then False
      else if \<not> checkMapAttenuation P (g_Allowances parent) (g_Allowances child) False then False
      else True)"

definition IsAttenuated ::
  "'p cap_prims_scheme \<Rightarrow> CapabilityTokenData \<Rightarrow> CapabilityTokenData \<Rightarrow> string \<Rightarrow> string \<Rightarrow> string \<Rightarrow> bool" where
  "IsAttenuated P child parent childGranterPeerID parentGranterPeerID localPeerID =
     (if \<not> list_all (\<lambda>childGrant.
               list_ex (\<lambda>parentGrant.
                   grantCovers P parentGrant childGrant parentGranterPeerID childGranterPeerID localPeerID)
                 (ct_Grants parent)) (ct_Grants child) then False
      else (case ct_ExpiresAt parent of
              None \<Rightarrow> True
            | Some pe \<Rightarrow>
                (case ct_ExpiresAt child of
                   None \<Rightarrow> False
                 | Some ce \<Rightarrow> if ce > pe then False else True)))"

definition checkDelegationCaveats ::
  "CapabilityTokenData \<Rightarrow> CapabilityTokenData \<Rightarrow> nat \<Rightarrow> unit result" where
  "checkDelegationCaveats parent child depth =
     (case ct_DelegationCaveats parent of
        None \<Rightarrow> Inr ()
      | Some caveats \<Rightarrow>
          if dc_NoDelegation caveats = Some True then Inl [ErrCapabilityDenied]
          else if (case dc_MaxDelegationDepth caveats of
                     None \<Rightarrow> False | Some d \<Rightarrow> (of_nat depth :: u64) \<ge> d) then Inl [ErrCapabilityDenied]
          else if (case (dc_MaxDelegationTTL caveats, ct_ExpiresAt child) of
                     (Some maxttl, Some ex) \<Rightarrow> ex - ct_CreatedAt child > maxttl
                   | _ \<Rightarrow> False) then Inl [ErrCapabilityDenied]
          else Inr ())"

section \<open>Signatures of a link\<close>

text \<open>The inner loop of the multi-signature path, with the map \<^verbatim>\<open>seen\<close> and the counter \<^verbatim>\<open>valid\<close>.\<close>

fun count_signers ::
  "'p crypto_prims_scheme \<Rightarrow> entity \<Rightarrow> included_map \<Rightarrow> u64 \<Rightarrow> hash list \<Rightarrow> u64 \<Rightarrow> hash list \<Rightarrow> unit result" where
  "count_signers P current included threshold seen valid [] = Inl [ErrCapabilityDenied]"
| "count_signers P current included threshold seen valid (candidate # cs) =
     (let skip = (\<lambda>seen'. count_signers P current included threshold seen' valid cs) in
      if candidate \<in> set seen then skip seen
      else (case gm_get included candidate of
              None \<Rightarrow> skip (candidate # seen)
            | Some candidateIdentity \<Rightarrow>
                (case PeerDataFromEntity P candidateIdentity of
                   Inl _ \<Rightarrow> skip (candidate # seen)
                 | Inr idData \<Rightarrow>
                     (case findSignatureBySigner P (ContentHash current) candidate included of
                        None \<Rightarrow> skip (candidate # seen)
                      | Some sigEntity \<Rightarrow>
                          (case (SignatureDataFromEntity P sigEntity, KeyTypeByte (pd_KeyType idData)) of
                             (Inr sigData, Some ktByte) \<Rightarrow>
                               if \<not> crypto_Verify P ktByte (pd_PublicKey idData)
                                      (hash_Bytes (ContentHash current)) (sd_Signature sigData)
                               then skip (candidate # seen)
                               else if valid + 1 \<ge> threshold then Inr ()
                               else count_signers P current included threshold (candidate # seen)
                                      (valid + 1) cs
                           | _ \<Rightarrow> skip (candidate # seen))))))"

definition verifyLinkSignatures ::
  "'p crypto_prims_scheme \<Rightarrow> entity \<Rightarrow> CapabilityTokenData \<Rightarrow> included_map \<Rightarrow> unit result" where
  "verifyLinkSignatures P current capData included =
     (case ct_Granter capData of
        SingleSigGranter granterHash \<Rightarrow>
          (case findSignatureForTarget P (ContentHash current) included of
             None \<Rightarrow> Inl [ErrCapabilityDenied]
           | Some sigEntity \<Rightarrow>
               (case SignatureDataFromEntity P sigEntity of
                  Inl _ \<Rightarrow> Inl [ErrCapabilityDenied]
                | Inr sigData \<Rightarrow>
                    if sd_Signer sigData \<noteq> granterHash then Inl [ErrCapabilityDenied]
                    else (case gm_get included granterHash of
                            None \<Rightarrow> Inl [ErrCapabilityDenied]
                          | Some granterEntity \<Rightarrow>
                              (case PeerDataFromEntity P granterEntity of
                                 Inl _ \<Rightarrow> Inl [ErrCapabilityDenied]
                               | Inr granterData \<Rightarrow>
                                   (case KeyTypeByte (pd_KeyType granterData) of
                                      None \<Rightarrow> Inl [ErrAuthenticationFailed]
                                    | Some ktByte \<Rightarrow>
                                        if \<not> crypto_Verify P ktByte (pd_PublicKey granterData)
                                               (hash_Bytes (ContentHash current)) (sd_Signature sigData)
                                        then Inl [ErrAuthenticationFailed]
                                        else Inr ())))))
      | MultiSigGranter multi \<Rightarrow>
          if length (mg_Signers multi) < 2 \<or> mg_Threshold multi < 2 \<or>
             mg_Threshold multi > of_nat (length (mg_Signers multi)) then Inl [ErrCapabilityDenied]
          else count_signers P current included (mg_Threshold multi) [] 0 (mg_Signers multi))"

text \<open>The loop of the multi-signature branch of \<^verbatim>\<open>verifyRootGranter\<close>.\<close>

fun local_signer ::
  "'p crypto_prims_scheme \<Rightarrow> entity \<Rightarrow> included_map \<Rightarrow> string \<Rightarrow> hash list \<Rightarrow> unit result" where
  "local_signer P root included localPeerID [] = Inl [ErrCapabilityDenied]"
| "local_signer P root included localPeerID (candidate # cs) =
     (let skip = local_signer P root included localPeerID cs in
      case gm_get included candidate of
        None \<Rightarrow> skip
      | Some candidateIdentity \<Rightarrow>
          (case PeerDataFromEntity P candidateIdentity of
             Inl _ \<Rightarrow> skip
           | Inr idData \<Rightarrow>
               (case KeyTypeByte (pd_KeyType idData) of
                  None \<Rightarrow> skip
                | Some ktByte \<Rightarrow>
                    (case PeerIDFromPublicKey P (pd_PublicKey idData) ktByte of
                       Inl _ \<Rightarrow> skip
                     | Inr candPID \<Rightarrow>
                         if candPID \<noteq> localPeerID then skip
                         else (case findSignatureBySigner P (ContentHash root) candidate included of
                                 None \<Rightarrow> skip
                               | Some sigEntity \<Rightarrow>
                                   (case SignatureDataFromEntity P sigEntity of
                                      Inl _ \<Rightarrow> skip
                                    | Inr sigData \<Rightarrow>
                                        if crypto_Verify P ktByte (pd_PublicKey idData)
                                             (hash_Bytes (ContentHash root)) (sd_Signature sigData)
                                        then Inr () else skip))))))"

definition verifyRootGranter ::
  "'p crypto_prims_scheme \<Rightarrow> entity \<Rightarrow> CapabilityTokenData \<Rightarrow> included_map \<Rightarrow> string \<Rightarrow> unit result" where
  "verifyRootGranter P root capData included localPeerID =
     (case ct_Granter capData of
        SingleSigGranter granterHash \<Rightarrow>
          (case gm_get included granterHash of
             None \<Rightarrow> Inl [ErrCapabilityDenied]
           | Some granterEntity \<Rightarrow>
               (case PeerDataFromEntity P granterEntity of
                  Inl _ \<Rightarrow> Inl [ErrCapabilityDenied]
                | Inr granterData \<Rightarrow>
                    (case KeyTypeByte (pd_KeyType granterData) of
                       None \<Rightarrow> Inl [ErrCapabilityDenied]
                     | Some ktByte \<Rightarrow>
                         (case PeerIDFromPublicKey P (pd_PublicKey granterData) ktByte of
                            Inl _ \<Rightarrow> Inl [ErrCapabilityDenied]
                          | Inr granterPID \<Rightarrow>
                              if granterPID \<noteq> localPeerID then Inl [ErrCapabilityDenied] else Inr ()))))
      | MultiSigGranter multi \<Rightarrow> local_signer P root included localPeerID (mg_Signers multi))"

section \<open>Verifying a chain\<close>

definition granterPeerIDFromIncluded ::
  "'p crypto_prims_scheme \<Rightarrow> Granter \<Rightarrow> included_map \<Rightarrow> string \<Rightarrow> string result" where
  "granterPeerIDFromIncluded P granter included localPeerID =
     (case granter of
        MultiSigGranter _ \<Rightarrow> Inr localPeerID
      | SingleSigGranter granterHash \<Rightarrow>
          if IsZero granterHash then Inr localPeerID
          else (case gm_get included granterHash of
                  None \<Rightarrow> Inl []
                | Some granterEnt \<Rightarrow> peerIDFromPeerEntity P granterEnt))"

definition ResolveGranterPeerIDFromIncluded ::
  "'p crypto_prims_scheme \<Rightarrow> Granter \<Rightarrow> included_map \<Rightarrow> string \<Rightarrow> string result" where
  "ResolveGranterPeerIDFromIncluded P granter included localPeerID =
     granterPeerIDFromIncluded P granter included localPeerID"

text \<open>The second half of the loop body of \<^verbatim>\<open>VerifyChain\<close>: a non-root link against its parent.\<close>

definition verify_delegation ::
  "'p cap_prims_scheme \<Rightarrow> included_map \<Rightarrow> string \<Rightarrow> nat \<Rightarrow> CapabilityTokenData \<Rightarrow> entity \<Rightarrow> unit result" where
  "verify_delegation P included localPeerID i capData parentEntity =
     (case CapabilityTokenDataFromEntity P parentEntity of
        Inl _ \<Rightarrow> Inl [ErrCapabilityDenied]
      | Inr parentData \<Rightarrow>
          (case SingleHash (ct_Granter capData) of
             None \<Rightarrow> Inl [ErrCapabilityDenied]
           | Some currentGranterHash \<Rightarrow>
               if ct_Grantee parentData \<noteq> currentGranterHash then Inl [ErrCapabilityDenied]
               else (case granterPeerIDFromIncluded P (ct_Granter capData) included localPeerID of
                       Inl _ \<Rightarrow> Inl [ErrCapabilityDenied]
                     | Inr childGranterPeerID \<Rightarrow>
                         (case granterPeerIDFromIncluded P (ct_Granter parentData) included localPeerID of
                            Inl _ \<Rightarrow> Inl [ErrCapabilityDenied]
                          | Inr parentGranterPeerID \<Rightarrow>
                              if \<not> IsAttenuated P capData parentData childGranterPeerID
                                     parentGranterPeerID localPeerID
                              then Inl [ErrCapabilityDenied]
                              else checkDelegationCaveats parentData capData i))))"

text \<open>The loop body of \<^verbatim>\<open>VerifyChain\<close>; \<open>rest\<close> are the links above the current one.\<close>

definition verify_link ::
  "'p cap_prims_scheme \<Rightarrow> (nat \<Rightarrow> u64) \<Rightarrow> included_map \<Rightarrow> string \<Rightarrow> nat \<Rightarrow> entity \<Rightarrow> entity list \<Rightarrow>
    unit result" where
  "verify_link P clock included localPeerID i current rest =
     (case CapabilityTokenDataFromEntity P current of
        Inl _ \<Rightarrow> Inl [ErrCapabilityDenied]
      | Inr capData \<Rightarrow>
          (case ValidateStructure capData of
             Inl e \<Rightarrow> Inl (ErrCapabilityDenied # e)
           | Inr _ \<Rightarrow>
               if FirstUnmatchableScopePattern (ct_Grants capData) \<noteq> '''' then Inl [ErrCapabilityDenied]
               else if (case ct_NotBefore capData of None \<Rightarrow> False | Some nb \<Rightarrow> clock i < nb)
                 then Inl [ErrCapabilityDenied]
               else if Expired (ct_ExpiresAt capData) (clock i) then Inl [ErrCapabilityDenied]
               else (case verifyLinkSignatures P current capData included of
                       Inl e \<Rightarrow> Inl e
                     | Inr _ \<Rightarrow>
                         if (case gm_get included (ct_Grantee capData) of
                               None \<Rightarrow> True | Some granteeEnt \<Rightarrow> Type granteeEnt \<noteq> TypePeer)
                         then Inl [ErrUnresolvableGrantee]
                         else (case rest of
                                 [] \<Rightarrow> verifyRootGranter P current capData included localPeerID
                               | parentEntity # _ \<Rightarrow>
                                   verify_delegation P included localPeerID i capData parentEntity))))"

fun verify_links ::
  "'p cap_prims_scheme \<Rightarrow> (nat \<Rightarrow> u64) \<Rightarrow> included_map \<Rightarrow> string \<Rightarrow> nat \<Rightarrow> entity list \<Rightarrow> unit result" where
  "verify_links P clock included localPeerID i [] = Inr ()"
| "verify_links P clock included localPeerID i (current # rest) =
     (case verify_link P clock included localPeerID i current rest of
        Inl e \<Rightarrow> Inl e
      | Inr _ \<Rightarrow> verify_links P clock included localPeerID (Suc i) rest)"

definition VerifyChain ::
  "'p cap_prims_scheme \<Rightarrow> (nat \<Rightarrow> u64) \<Rightarrow> entity \<Rightarrow> included_map \<Rightarrow> string \<Rightarrow> unit result" where
  "VerifyChain P clock capEntity included localPeerID =
     (case VerifyIncludedKeyBinding P included of
        Inl _ \<Rightarrow> Inl [ErrCapabilityDenied]
      | Inr _ \<Rightarrow>
          (case CollectAuthorityChain P capEntity (IncludedResolver included) of
             Inl e \<Rightarrow> if errors_Is e ErrChainTooDeep then Inl e else Inl [ErrCapabilityDenied]
           | Inr chain \<Rightarrow> verify_links P clock included localPeerID 0 chain))"

section \<open>Collecting a chain\<close>

text \<open>The shape of an authority chain, from the leaf to a link without a parent.\<close>

fun is_authority_chain ::
  "'p cap_prims_scheme \<Rightarrow> (hash \<Rightarrow> entity option) \<Rightarrow> byte \<Rightarrow> entity list \<Rightarrow> bool" where
  "is_authority_chain P resolve fmt [] \<longleftrightarrow> False"
| "is_authority_chain P resolve fmt [e] \<longleftrightarrow>
     Algorithm (ContentHash e) = fmt \<and>
     (\<exists>d. CapabilityTokenDataFromEntity P e = Inr d \<and> ct_Parent d = None)"
| "is_authority_chain P resolve fmt (e # e' # es) \<longleftrightarrow>
     Algorithm (ContentHash e) = fmt \<and>
     (\<exists>d h. CapabilityTokenDataFromEntity P e = Inr d \<and> ct_Parent d = Some h \<and> resolve h = Some e') \<and>
     is_authority_chain P resolve fmt (e' # es)"

lemma is_authority_chain_last:
  "is_authority_chain P resolve fmt es \<Longrightarrow> CapabilityTokenDataFromEntity P (last es) = Inr d \<Longrightarrow>
     ct_Parent d = None"
  by (induction P resolve fmt es rule: is_authority_chain.induct) auto

lemma ex_list_cases: "(\<exists>xs. Q xs) \<longleftrightarrow> Q [] \<or> (\<exists>y ys. Q (y # ys))"
  by (metis list.exhaust)

lemma collect_chain_iff:
  assumes "depth \<le> Suc maxChainDepth"
  shows "collect_chain P resolve fmt acc cur depth = Inr chain \<longleftrightarrow>
    (\<exists>es. chain = acc @ cur # es \<and> is_authority_chain P resolve fmt (cur # es) \<and>
       depth + length (cur # es) \<le> Suc maxChainDepth)"
  using assms
proof (induction P resolve fmt acc cur depth arbitrary: chain rule: collect_chain.induct)
  case (1 P resolve fmt acc cur depth)
  let ?step = "\<exists>d h p. CapabilityTokenDataFromEntity P cur = Inr d \<and> ct_Parent d = Some h \<and> resolve h = Some p"
  show ?case
  proof (cases "depth \<le> maxChainDepth \<and> Algorithm (ContentHash cur) = fmt \<and> ?step")
    case False
    then show ?thesis
      by (subst collect_chain.simps, subst ex_list_cases) (auto split: sum.splits option.splits)
  next
    case True
    then obtain d h p where d: "CapabilityTokenDataFromEntity P cur = Inr d" "ct_Parent d = Some h"
      "resolve h = Some p" and depth: "\<not> depth > maxChainDepth" and fmt: "\<not> Algorithm (ContentHash cur) \<noteq> fmt"
      by auto
    have "collect_chain P resolve fmt acc cur depth = collect_chain P resolve fmt (acc @ [cur]) p (Suc depth)"
      using d depth fmt by (subst collect_chain.simps) simp
    then show ?thesis
      using d depth fmt 1(1) [OF depth fmt d] by (subst ex_list_cases) auto
  qed
qed

lemma CollectAuthorityChain_unfold:
  "CollectAuthorityChain P e resolve = Inr chain \<longleftrightarrow>
     (\<exists>es. chain = e # es \<and> is_authority_chain P resolve (Algorithm (ContentHash e)) (e # es) \<and>
        length (e # es) \<le> Suc maxChainDepth)"
  unfolding CollectAuthorityChain_def by (subst collect_chain_iff) simp_all

text \<open>
  C5. \<^verbatim>\<open>CollectAuthorityChain\<close> always terminates and returns exactly the authority chain of the leaf:
  the links follow the parent references to a root, all in the leaf's hash format, and the chain
  has at most 65 links; in every other case it is an error.
\<close>

theorem CollectAuthorityChain_iff:
  "CollectAuthorityChain P capEntity resolve = Inr chain \<longleftrightarrow>
     is_authority_chain P resolve (Algorithm (ContentHash capEntity)) chain \<and>
     hd chain = capEntity \<and> length chain \<le> Suc maxChainDepth"
  unfolding CollectAuthorityChain_unfold by (cases chain) auto

section \<open>Attenuation is sound\<close>

lemma idScopeSubset_sound:
  assumes "idScopeSubset child parent" and "matchesIDScope v child"
  shows "matchesIDScope v parent"
  using id_pat.attenuated_scope [of "sc_Include child" "sc_Include parent" "sc_Exclude parent"
      "sc_Exclude child" v] assms
  by (auto simp: idScopeSubset_def matchesIDScope_def id_pat.all_covered_def list_ex_iff list_all_iff)

lemma excluded_upward:
  assumes "list_all (\<lambda>pe. list_ex (MatchesPattern pe) ces) pes"
    and "list_ex (\<lambda>pe. IsUnmatchablePattern pe \<or> MatchesPattern v pe) pes"
  shows "list_ex (\<lambda>ce. IsUnmatchablePattern ce \<or> MatchesPattern v ce) ces"
proof -
  obtain pe ce where pe: "pe \<in> set pes" "IsUnmatchablePattern pe \<or> MatchesPattern v pe"
    and ce: "ce \<in> set ces" "MatchesPattern pe ce"
    using assms by (auto simp: list_ex_iff list_all_iff)
  have "IsUnmatchablePattern ce \<or> MatchesPattern v ce"
    using pe(2) ce(2) match_unmatchable MatchesPattern_trans MatchesPattern_star by blast
  with ce(1) show ?thesis
    by (auto simp: list_ex_iff)
qed

lemma scopeContains_alt:
  "scopeContains v s \<longleftrightarrow>
     list_ex (MatchesPattern v) (sc_Include s) \<and>
     \<not> list_ex (\<lambda>p. IsUnmatchablePattern p \<or> MatchesPattern v p) (sc_Exclude s)"
  by (auto simp: scopeContains_def list_ex_iff list_all_iff)

lemma isExcluded_alt:
  "isExcluded t es l g \<longleftrightarrow>
     list_ex (\<lambda>p. IsUnmatchablePattern p \<or> MatchesPattern (Canonicalize t l) p) (map (\<lambda>e. Canonicalize e g) es)"
  by (simp add: isExcluded_def Let_def list_ex_iff)

lemma IsCoveredBy_alt:
  "IsCoveredBy t ps l g \<longleftrightarrow> list_ex (MatchesPattern (Canonicalize t l)) (map (\<lambda>p. Canonicalize p g) ps)"
  by (simp add: IsCoveredBy_def Let_def list_ex_iff)

lemma excludesInherited_alt:
  "excludesInherited pes ces f h \<longleftrightarrow> list_all (\<lambda>pe. list_ex (MatchesPattern pe) (map h ces)) (map f pes)"
  by (simp add: excludesInherited_def Let_def list_ex_iff list_all_iff)

text \<open>What the covering of one grant by another says, dimension by dimension.\<close>

lemma grantCovers_dims:
  assumes "grantCovers P parent child pg cg l"
  shows "path_pat.all_covered (sc_Include (g_Handlers child)) (sc_Include (g_Handlers parent))"
    and "list_all (\<lambda>pe. list_ex (MatchesPattern pe) (sc_Exclude (g_Handlers child))) (sc_Exclude (g_Handlers parent))"
    and "idScopeSubset (g_Operations child) (g_Operations parent)"
    and "idScopeSubset (peersScope child l) (peersScope parent l)"
    and "path_pat.all_covered (map (\<lambda>p. Canonicalize p cg) (sc_Include (g_Resources child)))
           (map (\<lambda>p. Canonicalize p pg) (sc_Include (g_Resources parent)))"
    and "list_all (\<lambda>pe. list_ex (MatchesPattern pe) (map (\<lambda>p. Canonicalize p cg) (sc_Exclude (g_Resources child))))
           (map (\<lambda>p. Canonicalize p pg) (sc_Exclude (g_Resources parent)))"
  using assms
  by (simp_all add: grantCovers_def excludesInherited_alt path_pat.all_covered_def Let_def list_all_iff
      list_ex_iff split: if_splits)

text \<open>A request none of whose effective targets is a pattern.\<close>

definition concrete_request :: "ResourceTarget option \<Rightarrow> string \<Rightarrow> bool" where
  "concrete_request r l \<longleftrightarrow> list_all (\<lambda>t. \<not> IsPattern (Canonicalize t l)) (EffectiveTargets r l)"

lemma CheckResourceScope_sound:
  assumes cov: "grantCovers P parent child pg cg l" and conc: "concrete_request r l"
    and chk: "CheckResourceScope r (g_Resources child) l cg"
  shows "CheckResourceScope r (g_Resources parent) l pg"
proof -
  have "check_target ex (g_Resources parent) l pg t"
    if t: "\<not> IsPattern (Canonicalize t l)" and c: "check_target ex (g_Resources child) l cg t" for ex t
  proof -
    from c t have "validConcreteTarget (Canonicalize t l)"
      and "IsCoveredBy t (sc_Include (g_Resources child)) l cg"
      and "\<not> isExcluded t (sc_Exclude (g_Resources child)) l cg"
      by (auto simp: check_target_def Let_def split: if_splits)
    moreover have "IsCoveredBy t (sc_Include (g_Resources parent)) l pg"
      using calculation(2) path_pat.all_covered_match [OF grantCovers_dims(5) [OF cov]]
      by (simp add: IsCoveredBy_alt)
    moreover have "\<not> isExcluded t (sc_Exclude (g_Resources parent)) l pg"
      using calculation(3) excluded_upward [OF grantCovers_dims(6) [OF cov]]
      by (auto simp: isExcluded_alt)
    ultimately show ?thesis
      using t by (simp add: check_target_def Let_def)
  qed
  with conc chk show ?thesis
    by (auto simp: CheckResourceScope_def concrete_request_def list_all_iff)
qed

text \<open>Base58 decoding refuses a character outside the alphabet; only the slash matters here.\<close>

definition base58_refuses_slash :: "'p crypto_prims_scheme \<Rightarrow> bool" where
  "base58_refuses_slash P \<longleftrightarrow> (\<forall>s. slash \<in> set s \<longrightarrow> \<not> is_ok (base58_Decode P s))"

lemma CanonicalizePeerID_slash:
  "base58_refuses_slash P \<Longrightarrow> slash \<in> set p \<Longrightarrow> CanonicalizePeerID P p = None"
  by (auto simp: base58_refuses_slash_def CanonicalizePeerID_def peerid_Decode_def split: sum.splits)

lemma peer_include_upward:
  assumes "base58_refuses_slash P" and "slash \<notin> set v"
    and "idScopeMatches outer inner" and "peerPatternMatches P inner v = peerMatchYes"
  shows "peerPatternMatches P outer v = peerMatchYes"
proof (cases outer rule: id_pattern_cases)
  case (subtree q)
  then have "slash \<in> set inner"
    using assms(3) by (auto simp: HasPrefix_iff)
  moreover from this have "inner \<noteq> ''*''"
    by auto
  ultimately show ?thesis
    using assms by (auto simp: peerPatternMatches_def CanonicalizePeerID_slash split: if_splits)
qed (use assms in \<open>auto simp: peerPatternMatches_def\<close>)

lemma peer_exclude_upward:
  assumes "base58_refuses_slash P" and "idScopeMatches outer inner"
    and "peerPatternMatches P inner v \<in> {peerMatchYes, peerMatchUnresolvable}"
  shows "peerPatternMatches P outer v \<in> {peerMatchYes, peerMatchUnresolvable}"
proof (cases outer rule: id_pattern_cases)
  case (subtree q)
  then have "slash \<in> set outer" by simp
  then show ?thesis
    using assms(1) by (auto simp: peerPatternMatches_def CanonicalizePeerID_slash)
qed (use assms in \<open>auto simp: peerPatternMatches_def\<close>)

lemma matchesPeerScope_sound:
  assumes "base58_refuses_slash P" and "slash \<notin> set v"
    and "idScopeSubset child parent" and "matchesPeerScope P v child"
  shows "matchesPeerScope P v parent"
proof -
  obtain c p where "p \<in> set (sc_Include parent)" "idScopeMatches p c"
    "peerPatternMatches P c v = peerMatchYes"
    using assms(3,4) by (auto simp: matchesPeerScope_def idScopeSubset_def list_ex_iff list_all_iff)
  moreover have "peerPatternMatches P pe v \<notin> {peerMatchYes, peerMatchUnresolvable}"
    if pe: "pe \<in> set (sc_Exclude parent)" for pe
  proof -
    obtain ce where "ce \<in> set (sc_Exclude child)" "idScopeMatches ce pe"
      using assms(3) pe by (auto simp: idScopeSubset_def list_ex_iff list_all_iff)
    moreover have "peerPatternMatches P ce v \<notin> {peerMatchYes, peerMatchUnresolvable}"
      using assms(4) calculation(1) by (simp add: matchesPeerScope_def list_all_iff)
    ultimately show ?thesis
      using peer_exclude_upward [OF assms(1)] by blast
  qed
  ultimately show ?thesis
    using peer_include_upward [OF assms(1,2)]
    unfolding matchesPeerScope_def list_ex_iff list_all_iff by blast
qed

lemma grant_allows_sound:
  assumes "grantCovers P parent child pg cg l" and "base58_refuses_slash P" and "slash \<notin> set tp"
    and "concrete_request (ex_Resource ex) l"
    and "grant_allows P ex h tp l cg relax child"
  shows "grant_allows P ex h tp l pg relax parent"
proof -
  have "operationsAllow (g_Operations parent) (ex_Operation ex)"
    using assms(5) idScopeSubset_sound [OF grantCovers_dims(3) [OF assms(1)]]
    by (auto simp: grant_allows_def operationsAllow_def split: if_splits)
  moreover have "scopeContains h (g_Handlers parent)"
    using assms(5) path_pat.all_covered_match [OF grantCovers_dims(1) [OF assms(1)]]
      excluded_upward [OF grantCovers_dims(2) [OF assms(1)]]
    by (auto simp: grant_allows_def scopeContains_alt split: if_splits)
  moreover have "relax \<or> matchesPeerScope P tp (peersScope parent l)"
    using assms(5) matchesPeerScope_sound [OF assms(2,3) grantCovers_dims(4) [OF assms(1)]]
    by (auto simp: grant_allows_def MatchesPeerScope_def split: if_splits)
  moreover have "ex_Resource ex = None \<or> CheckResourceScope (ex_Resource ex) (g_Resources parent) l pg"
    using assms(5) CheckResourceScope_sound [OF assms(1,4)]
    by (auto simp: grant_allows_def split: if_splits)
  ultimately show ?thesis
    by (auto simp: grant_allows_def MatchesPeerScope_def)
qed


lemma target_peer_no_slash: "slash \<notin> set l \<Longrightarrow> slash \<notin> set (target_peer ex h l)"
  using base58_no_slash
  by (auto simp: target_peer_def extractPeer_def isPeerID_def list_all_iff Let_def split: if_splits)


end
