(* ===== verification/Cap_Soundness.thy ===== *)
theory Cap_Soundness
  imports Cap_Chain "HOL-Library.Multiset"
begin

text \<open>
  What a verified delegation chain guarantees: the authority of the leaf is rooted in the local peer,
  every link is signed and within its caveats, and the K-of-N rule of multi-signature roots. The
  last sections evaluate the model on a concrete chain of two tokens and show two behaviours of the
  code that its documentation does not intend.
\<close>

section \<open>Verified chains\<close>

text \<open>Some grant of the capability at a link permits the request in that link's namespace.\<close>

definition link_permits ::
  "'p cap_prims_scheme \<Rightarrow> included_map \<Rightarrow> string \<Rightarrow> ExecuteData \<Rightarrow> string \<Rightarrow> entity \<Rightarrow> bool" where
  "link_permits P included l ex h e \<longleftrightarrow>
     (\<exists>d g. CapabilityTokenDataFromEntity P e = Inr d \<and>
        granterPeerIDFromIncluded P (ct_Granter d) included l = Inr g \<and>
        list_ex (grant_allows P ex h (target_peer ex h l) l g False) (ct_Grants d))"

lemma verify_delegation_ok:
  assumes "verify_delegation P included l i d parent = Inr ()"
  obtains pd cg pg where "CapabilityTokenDataFromEntity P parent = Inr pd"
    "SingleHash (ct_Granter d) = Some (ct_Grantee pd)"
    "granterPeerIDFromIncluded P (ct_Granter d) included l = Inr cg"
    "granterPeerIDFromIncluded P (ct_Granter pd) included l = Inr pg"
    "IsAttenuated P d pd cg pg l" "checkDelegationCaveats pd d i = Inr ()"
  using assms by (auto simp: verify_delegation_def split: sum.splits option.splits if_splits)

lemma verify_link_ok:
  assumes "verify_link P clock included l i e rest = Inr ()"
  obtains d where "CapabilityTokenDataFromEntity P e = Inr d" "ValidateStructure d = Inr ()"
    "FirstUnmatchableScopePattern (ct_Grants d) = ''''" "temporally_valid d (clock i)"
    "verifyLinkSignatures P e d included = Inr ()"
    "\<exists>p. gm_get included (ct_Grantee d) = Some p \<and> Type p = TypePeer"
    "rest = [] \<Longrightarrow> verifyRootGranter P e d included l = Inr ()"
    "\<And>p ps. rest = p # ps \<Longrightarrow> verify_delegation P included l i d p = Inr ()"
  using assms
  by (auto simp: verify_link_def temporally_valid_def split: sum.splits option.splits if_splits list.splits)

lemma link_permits_upward:
  assumes "verify_link P clock included l i e (p # ps) = Inr ()" and "link_permits P included l ex h e"
    and "base58_refuses_slash P" and "slash \<notin> set l" and "concrete_request (ex_Resource ex) l"
  shows "link_permits P included l ex h p"
proof -
  obtain d where d: "CapabilityTokenDataFromEntity P e = Inr d"
    "verify_delegation P included l i d p = Inr ()"
    using assms(1) by (rule verify_link_ok) auto
  obtain pd cg pg where pd: "CapabilityTokenDataFromEntity P p = Inr pd"
    "granterPeerIDFromIncluded P (ct_Granter d) included l = Inr cg"
    "granterPeerIDFromIncluded P (ct_Granter pd) included l = Inr pg"
    "IsAttenuated P d pd cg pg l"
    using d(2) by (rule verify_delegation_ok)
  obtain c where c: "c \<in> set (ct_Grants d)" "grant_allows P ex h (target_peer ex h l) l cg False c"
    using assms(2) d(1) pd(2) by (auto simp: link_permits_def list_ex_iff)
  obtain g where g: "g \<in> set (ct_Grants pd)" "grantCovers P g c pg cg l"
    using pd(4) c(1) by (auto simp: IsAttenuated_def list_all_iff list_ex_iff split: if_splits)
  show ?thesis
    using grant_allows_sound [OF g(2) assms(3) target_peer_no_slash [OF assms(4)] assms(5) c(2)] g(1) pd
    by (auto simp: link_permits_def list_ex_iff)
qed


lemma link_permits_root:
  assumes "verify_links P clock included l i chain = Inr ()" and "chain \<noteq> []"
    and "link_permits P included l ex h (hd chain)"
    and "base58_refuses_slash P" and "slash \<notin> set l" and "concrete_request (ex_Resource ex) l"
  shows "list_all (link_permits P included l ex h) chain"
  using assms
proof (induction chain arbitrary: i)
  case (Cons e rest)
  have e: "verify_link P clock included l i e rest = Inr ()"
    and rest: "verify_links P clock included l (Suc i) rest = Inr ()"
    using Cons.prems(1) by (auto split: sum.splits)
  show ?case
  proof (cases rest)
    case (Cons p ps)
    then have "link_permits P included l ex h p"
      using link_permits_upward e Cons.prems by fastforce
    then show ?thesis
      using Cons.IH [OF rest] Cons.prems \<open>rest = p # ps\<close> by simp
  qed (use Cons.prems in simp)
qed simp

lemma verify_links_nth:
  assumes "verify_links P clock included l i chain = Inr ()" and "k < length chain"
  shows "verify_link P clock included l (i + k) (chain ! k) (drop (Suc k) chain) = Inr ()"
  using assms
proof (induction chain arbitrary: i k)
  case (Cons e rest)
  then show ?case
    by (cases k) (fastforce split: sum.splits)+
qed simp

lemma granterPeerIDFromIncluded_root:
  assumes "verifyRootGranter P e d included l = Inr ()"
    and "granterPeerIDFromIncluded P (ct_Granter d) included l = Inr g"
  shows "g = l"
  using assms
  by (auto simp: verifyRootGranter_def granterPeerIDFromIncluded_def peerIDFromPeerEntity_def
      split: Granter.splits option.splits sum.splits if_splits)

lemma VerifyChain_ok:
  assumes "VerifyChain P clock e included l = Inr ()"
  obtains chain where "VerifyIncludedKeyBinding P included = Inr ()"
    "CollectAuthorityChain P e (IncludedResolver included) = Inr chain" "chain \<noteq> []" "hd chain = e"
    "verify_links P clock included l 0 chain = Inr ()"
proof -
  obtain chain where c: "VerifyIncludedKeyBinding P included = Inr ()"
    "CollectAuthorityChain P e (IncludedResolver included) = Inr chain"
    "verify_links P clock included l 0 chain = Inr ()"
    using assms by (auto simp: VerifyChain_def split: sum.splits if_splits)
  moreover from c(2) have "chain \<noteq> []" "hd chain = e"
    unfolding CollectAuthorityChain_def by (auto simp: collect_chain_iff)
  ultimately show thesis using that by blast
qed



section \<open>Signatures of verified links\<close>

text \<open>The candidate is included, and a signature of the link by it verifies under its key.\<close>

definition signer_ok :: "'p crypto_prims_scheme \<Rightarrow> entity \<Rightarrow> included_map \<Rightarrow> hash \<Rightarrow> bool" where
  "signer_ok P current included s \<longleftrightarrow>
     (\<exists>ident idData sigEntity sigData kt. gm_get included s = Some ident \<and>
        PeerDataFromEntity P ident = Inr idData \<and>
        findSignatureBySigner P (ContentHash current) s included = Some sigEntity \<and>
        SignatureDataFromEntity P sigEntity = Inr sigData \<and> KeyTypeByte (pd_KeyType idData) = Some kt \<and>
        crypto_Verify P kt (pd_PublicKey idData) (hash_Bytes (ContentHash current)) (sd_Signature sigData))"

lemma count_signers_Cons:
  "count_signers P cur inc K seen v (c # cs) =
     (if c \<in> set seen then count_signers P cur inc K seen v cs
      else if \<not> signer_ok P cur inc c then count_signers P cur inc K (c # seen) v cs
      else if v + 1 \<ge> K then Inr ()
      else count_signers P cur inc K (c # seen) (v + 1) cs)"
  by (auto simp: signer_ok_def Let_def split: option.split sum.split)

lemma fresh_signers_card:
  "c \<notin> set seen \<Longrightarrow>
     card {s \<in> set (c # cs) - set seen. Q s} =
       (if Q c then Suc (card {s \<in> set cs - set (c # seen). Q s})
        else card {s \<in> set cs - set (c # seen). Q s})"
proof -
  assume c: "c \<notin> set seen"
  have "{s \<in> set (c # cs) - set seen. Q s} =
      (if Q c then insert c {s \<in> set cs - set (c # seen). Q s} else {s \<in> set cs - set (c # seen). Q s})"
    using c by auto
  then show ?thesis
    by (simp add: card_insert_disjoint)
qed

lemma count_signers_iff:
  assumes "v < K"
  shows "count_signers P cur inc K seen v cs = Inr () \<longleftrightarrow>
    unat K \<le> unat v + card {s \<in> set cs - set seen. signer_ok P cur inc s}"
  using assms
proof (induction cs arbitrary: seen v)
  case Nil
  then show ?case by (simp add: word_less_nat_alt)
next
  case (Cons c cs)
  have K: "unat K < 18446744073709551616"
    using unsigned_less [of K] by simp
  have v1: "unat (v + 1) = Suc (unat v)"
    using Cons.prems K by (simp add: unat_word_ariths word_less_nat_alt)
  show ?case
  proof (cases "c \<in> set seen")
    case True
    then have "set (c # cs) - set seen = set cs - set seen" by auto
    then show ?thesis
      using Cons True by (simp add: count_signers_Cons del: count_signers.simps)
  next
    case False
    then show ?thesis
      using Cons.IH [OF Cons.prems, of "c # seen"] Cons.IH [of "v + 1" "c # seen"] v1
      unfolding count_signers_Cons fresh_signers_card [OF False]
      by (auto simp: word_le_nat_alt word_less_nat_alt)
  qed
qed

text \<open>
  C4. The K-of-N rule: the signatures of a link with a multi-signature granter are accepted exactly
  when the granter is well formed (at least two signers, threshold between two and the number of
  signers) and at least K different signers have a valid signature of the link; a signer that is
  listed twice counts once.
\<close>

theorem verifyLinkSignatures_multi:
  assumes "ct_Granter d = MultiSigGranter mg"
  shows "verifyLinkSignatures P cur d inc = Inr () \<longleftrightarrow>
    2 \<le> length (mg_Signers mg) \<and> 2 \<le> mg_Threshold mg \<and>
    mg_Threshold mg \<le> of_nat (length (mg_Signers mg)) \<and>
    unat (mg_Threshold mg) \<le> card {s \<in> set (mg_Signers mg). signer_ok P cur inc s}"
proof (cases "length (mg_Signers mg) < 2 \<or> mg_Threshold mg < 2 \<or>
    mg_Threshold mg > of_nat (length (mg_Signers mg))")
  case True
  then show ?thesis
    using assms by (auto simp: verifyLinkSignatures_def)
next
  case False
  then have "0 < mg_Threshold mg"
    by (cases "mg_Threshold mg = 0") (auto simp: word_gt_0)
  note cnt = count_signers_iff [OF this, of P cur inc "[]" "mg_Signers mg"]
  have "verifyLinkSignatures P cur d inc = count_signers P cur inc (mg_Threshold mg) [] 0 (mg_Signers mg)"
    using assms by (simp only: verifyLinkSignatures_def Granter.case if_not_P [OF False])
  with cnt False show ?thesis
    by (simp add: not_less)
qed

lemma findSignatureForTarget_Some:
  "findSignatureForTarget P t m = Some e \<Longrightarrow>
     \<exists>sd. e \<in> snd ` set m \<and> Type e = TypeSignature \<and> SignatureDataFromEntity P e = Inr sd \<and> sd_Target sd = t"
  by (induction P t m rule: findSignatureForTarget.induct) (auto split: if_splits sum.splits)

lemma single_signature:
  assumes "verifyLinkSignatures P cur d inc = Inr ()" and "SingleHash (ct_Granter d) = Some gh"
  shows "\<exists>p pd kt sig. gm_get inc gh = Some p \<and> PeerDataFromEntity P p = Inr pd \<and>
    KeyTypeByte (pd_KeyType pd) = Some kt \<and>
    crypto_Verify P kt (pd_PublicKey pd) (hash_Bytes (ContentHash cur)) sig"
  using assms
  by (cases "ct_Granter d") (auto simp: verifyLinkSignatures_def split: option.splits sum.splits if_splits)

lemma checkDelegationCaveats_ok:
  "checkDelegationCaveats parent child i = Inr () \<longleftrightarrow>
     (\<forall>c. ct_DelegationCaveats parent = Some c \<longrightarrow>
        dc_NoDelegation c \<noteq> Some True \<and>
        (\<forall>m. dc_MaxDelegationDepth c = Some m \<longrightarrow> of_nat i < m) \<and>
        (\<forall>m ex. dc_MaxDelegationTTL c = Some m \<longrightarrow> ct_ExpiresAt child = Some ex \<longrightarrow>
           ex - ct_CreatedAt child \<le> m))"
  by (auto simp: checkDelegationCaveats_def not_le not_less split: option.splits)


text \<open>
  The lifetime caveat does not bind a child without an expiry: whatever
  \<^verbatim>\<open>max_delegation_ttl\<close> the parent sets, a delegated capability that never expires passes the caveat
  check, although a capability that expires later than the caveat allows is refused.
\<close>

theorem max_delegation_ttl_unbounded:
  assumes "ct_DelegationCaveats parent = Some \<lparr>dc_NoDelegation = None, dc_MaxDelegationDepth = None, dc_MaxDelegationTTL = Some m\<rparr>"
  shows "(ct_ExpiresAt child = None \<longrightarrow> checkDelegationCaveats parent child i = Inr ()) \<and>
    (\<forall>ex. ct_ExpiresAt child = Some ex \<longrightarrow>
       (checkDelegationCaveats parent child i = Inr () \<longleftrightarrow> ex - ct_CreatedAt child \<le> m))"
  using assms by (simp add: checkDelegationCaveats_ok)

section \<open>A concrete chain\<close>

text \<open>
  Two peers, a root token issued by the local peer to the other one, and a leaf token that the
  other peer delegates, with their signatures: the data used to evaluate the definitions.
\<close>

definition demo_hash_of :: "string \<Rightarrow> bytes \<Rightarrow> hash" where
  "demo_hash_of t d = \<lparr>Algorithm = 0, Digest = demo_pad 32 (map of_char t @ d) @ replicate 32 0\<rparr>"

definition demo_make :: "string \<Rightarrow> bytes \<Rightarrow> entity" where
  "demo_make t d = \<lparr>Type = t, Data = d, ContentHash = demo_hash_of t d\<rparr>"

definition demo_key :: "byte \<Rightarrow> bytes" where
  "demo_key b = replicate 32 b"

definition demo_peer :: "byte \<Rightarrow> entity" where
  "demo_peer b = demo_make TypePeer (demo_key b)"

definition demo_pid :: "byte \<Rightarrow> string" where
  "demo_pid b = demo_base58_Encode (1 # 0 # demo_key b)"

definition demo_scope :: "string list \<Rightarrow> CapabilityScope" where
  "demo_scope ps = \<lparr>sc_Include = ps, sc_Exclude = []\<rparr>"

definition demo_root_token :: CapabilityTokenData where
  "demo_root_token =
     \<lparr>ct_Grants = [\<lparr>g_Handlers = demo_scope [''*''], g_Resources = demo_scope [''*''],
                    g_Operations = demo_scope [''*''], g_Peers = None, g_Constraints = [], g_Allowances = []\<rparr>],
      ct_Granter = SingleSigGranter (ContentHash (demo_peer 7)), ct_Grantee = ContentHash (demo_peer 8),
      ct_Parent = None, ct_CreatedAt = 10, ct_ExpiresAt = Some 100, ct_NotBefore = None,
      ct_DelegationCaveats = None\<rparr>"

definition demo_leaf_token :: CapabilityTokenData where
  "demo_leaf_token =
     \<lparr>ct_Grants = [\<lparr>g_Handlers = demo_scope [''system/tree''],
                    g_Resources = demo_scope [''/'' @ demo_pid 7 @ ''/data/*''],
                    g_Operations = demo_scope [''get''], g_Peers = None, g_Constraints = [], g_Allowances = []\<rparr>],
      ct_Granter = SingleSigGranter (ContentHash (demo_peer 8)), ct_Grantee = ContentHash (demo_peer 7),
      ct_Parent = Some (demo_hash_of TypeCapToken [1]), ct_CreatedAt = 20, ct_ExpiresAt = Some 90,
      ct_NotBefore = None, ct_DelegationCaveats = None\<rparr>"

definition demo_cap_prims :: cap_prims where
  "demo_cap_prims =
     \<lparr>sha256_Sum256 = demo_pad 32, sha512_Sum384 = demo_pad 48,
      ecf_EncodeHashable = (\<lambda>t d. Inr (map of_char t @ d)),
      ecf_EncodeBytes = Inr, ecf_DecodeBytes = Inr,
      ecf_DecodeTarget = (\<lambda>_. Inr zero_hash), ecf_EncodeEnvelope = (\<lambda>_. Inl []),
      ecf_DecodeEnvelope = (\<lambda>_. Inl []),
      base58_Encode = demo_base58_Encode, base58_Decode = demo_base58_Decode,
      ed25519_Verify = (\<lambda>k m s. s = k), ed448_Verify = (\<lambda>k m s. s = k),
      ed25519_Sign = (\<lambda>k m. k), ed448_Sign = (\<lambda>k m. k),
      ecf_EncodePeerData = (\<lambda>d. Inr (pd_PublicKey d)),
      ecf_DecodePeerData = (\<lambda>b. Inr \<lparr>pd_PublicKey = b, pd_KeyType = ''ed25519''\<rparr>),
      ecf_EncodeSignatureData = (\<lambda>d. Inr (sd_Signature d)),
      ecf_DecodeSignatureData = (\<lambda>b.
        if b = [3] then Inr \<lparr>sd_Target = demo_hash_of TypeCapToken [1], sd_Signer = ContentHash (demo_peer 7),
                             sd_Algorithm = ''ed25519'', sd_Signature = demo_key 7\<rparr>
        else if b = [4] then Inr \<lparr>sd_Target = demo_hash_of TypeCapToken [2], sd_Signer = ContentHash (demo_peer 8),
                             sd_Algorithm = ''ed25519'', sd_Signature = demo_key 8\<rparr>
        else if b = [5] then Inr \<lparr>sd_Target = demo_hash_of TypeCapToken [1], sd_Signer = ContentHash (demo_peer 8),
                             sd_Algorithm = ''ed25519'', sd_Signature = demo_key 8\<rparr>
        else Inl []),
      ecf_EncodeCapToken = (\<lambda>_. Inr [1]),
      ecf_DecodeCapToken = (\<lambda>b. if b = [1] then Inr demo_root_token
                                  else if b = [2] then Inr demo_leaf_token else Inl []),
      ecf_EncodeMultiGranter = (\<lambda>_. Inl []), ecf_DecodeMultiGranter = (\<lambda>_. Inl []),
      cbor_UnmarshalMap = (\<lambda>_. Inr [])\<rparr>"

definition demo_root :: entity where
  "demo_root = demo_make TypeCapToken [1]"

definition demo_leaf :: entity where
  "demo_leaf = demo_make TypeCapToken [2]"

definition demo_included :: included_map where
  "demo_included =
     map (\<lambda>e. (ContentHash e, e))
       [demo_peer 7, demo_peer 8, demo_root, demo_leaf, demo_make TypeSignature [3], demo_make TypeSignature [4]]"

definition demo_execute :: ExecuteData where
  "demo_execute =
     \<lparr>ex_RequestID = ''r1'', ex_URI = ''system/tree'', ex_Operation = ''get'',
      ex_Resource = Some \<lparr>rt_Targets = [''data/x''], rt_Exclude = []\<rparr>, ex_Params = [],
      ex_Bounds = None, ex_Author = ContentHash (demo_peer 7),
      ex_Capability = demo_hash_of TypeCapToken [2], ex_DeliverTo = None,
      ex_DeliverToken = zero_hash, ex_DurabilityRequest = None\<rparr>"

lemma demo_refuses_slash: "base58_refuses_slash demo_cap_prims"
proof -
  have "\<not> is_ok (demo_base58_Decode s)" if "slash \<in> set s" for s
  proof -
    have "slash \<in> set (map demo_b58_char s)"
      using that by (force simp: demo_b58_char_def)
    from hex_decode_slash [OF this] show ?thesis
      by (auto simp: demo_base58_Decode_def split: sum.splits)
  qed
  then show ?thesis
    by (simp add: base58_refuses_slash_def demo_cap_prims_def)
qed

lemma demo_chain_verifies: "VerifyChain demo_cap_prims (\<lambda>_. 50) demo_leaf demo_included (demo_pid 7) = Inr ()"
  by code_simp

lemma demo_permission:
  "CheckPermission demo_cap_prims 50 demo_execute demo_leaf_token ''system/tree'' (demo_pid 7) (demo_pid 8)"
  by code_simp


lemma demo_concrete: "concrete_request (ex_Resource demo_execute) (demo_pid 7)"
  by code_simp

lemma demo_granters:
  "granterPeerIDFromIncluded demo_cap_prims (ct_Granter demo_leaf_token) demo_included (demo_pid 7)
     = Inr (demo_pid 8)"
  "slash \<notin> set (demo_pid 7)"
  "CapabilityTokenDataFromEntity demo_cap_prims demo_leaf = Inr demo_leaf_token"
  by code_simp+




definition demo_multi :: MultiGranter where
  "demo_multi = \<lparr>mg_Signers = [ContentHash (demo_peer 7), ContentHash (demo_peer 8)], mg_Threshold = 2\<rparr>"

definition demo_cosigned :: included_map where
  "demo_cosigned = demo_included @ [(demo_hash_of TypeSignature [5], demo_make TypeSignature [5])]"

theorem verifyLinkSignatures_multi_witness:
  "verifyLinkSignatures demo_cap_prims demo_root
     (demo_root_token\<lparr>ct_Granter := MultiSigGranter demo_multi\<rparr>) demo_cosigned = Inr ()"
proof -
  have ok: "signer_ok demo_cap_prims demo_root demo_cosigned (ContentHash (demo_peer b))"
    if "b = 7 \<or> b = 8" for b
  proof -
    have "count_signers demo_cap_prims demo_root demo_cosigned 1 [] 0 [ContentHash (demo_peer b)] = Inr ()"
      using that by (elim disjE; hypsubst) code_simp+
    then show ?thesis
      by (simp add: count_signers_Cons split: if_splits del: count_signers.simps(2))
  qed
  have ne: "ContentHash (demo_peer 7) \<noteq> ContentHash (demo_peer 8)"
    by code_simp
  have "{s \<in> set (mg_Signers demo_multi). signer_ok demo_cap_prims demo_root demo_cosigned s}
      = {ContentHash (demo_peer 7), ContentHash (demo_peer 8)}"
    using ok by (auto simp: demo_multi_def)
  then have "unat (mg_Threshold demo_multi) \<le>
      card {s \<in> set (mg_Signers demo_multi). signer_ok demo_cap_prims demo_root demo_cosigned s}"
    using ne by (simp add: demo_multi_def)
  moreover have "2 \<le> length (mg_Signers demo_multi)" "2 \<le> mg_Threshold demo_multi"
    "mg_Threshold demo_multi \<le> of_nat (length (mg_Signers demo_multi))"
    by code_simp+
  ultimately show ?thesis
    using verifyLinkSignatures_multi [of "demo_root_token\<lparr>ct_Granter := MultiSigGranter demo_multi\<rparr>"
        demo_multi demo_cap_prims demo_root demo_cosigned]
    by simp
qed


theorem max_delegation_ttl_unbounded_witness:
  "checkDelegationCaveats
     (demo_root_token\<lparr>ct_DelegationCaveats := Some \<lparr>dc_NoDelegation = None, dc_MaxDelegationDepth = None, dc_MaxDelegationTTL = Some 5\<rparr>\<rparr>)
     (demo_leaf_token\<lparr>ct_ExpiresAt := None\<rparr>) 0 = Inr ()"
  using max_delegation_ttl_unbounded
    [of "demo_root_token\<lparr>ct_DelegationCaveats := Some \<lparr>dc_NoDelegation = None, dc_MaxDelegationDepth = None, dc_MaxDelegationTTL = Some 5\<rparr>\<rparr>"
      5 "demo_leaf_token\<lparr>ct_ExpiresAt := None\<rparr>" 0]
  by simp

text \<open>
  The verdict on a single-signature link depends on the order in which the \<^verbatim>\<open>included\<close> map is
  visited: with a valid signature of the granter and a second signature of the same link by
  another peer, one order of the same entries is accepted and another refused.
\<close>

theorem verifyLinkSignatures_order_dependent:
  "\<exists>inc inc'. mset inc' = mset inc \<and> gm_wf inc \<and> VerifyIncludedKeyBinding demo_cap_prims inc = Inr () \<and>
     verifyLinkSignatures demo_cap_prims demo_root demo_root_token inc = Inr () \<and>
     verifyLinkSignatures demo_cap_prims demo_root demo_root_token inc' = Inl [ErrCapabilityDenied]"
proof -
  have "gm_wf demo_cosigned" "VerifyIncludedKeyBinding demo_cap_prims demo_cosigned = Inr ()"
    "verifyLinkSignatures demo_cap_prims demo_root demo_root_token demo_cosigned = Inr ()"
    "verifyLinkSignatures demo_cap_prims demo_root demo_root_token (rev demo_cosigned) = Inl [ErrCapabilityDenied]"
    by code_simp+
  moreover have "mset (rev demo_cosigned) = mset demo_cosigned"
    by simp
  ultimately show ?thesis
    by blast
qed

end
