(* ===== verification/Cap_Lifecycle.thy ===== *)
theory Cap_Lifecycle
  imports Cap_Soundness
begin

text \<open>
  The life of capabilities in the store: \<^verbatim>\<open>index.go\<close>, \<^verbatim>\<open>storage_path.go\<close>, \<^verbatim>\<open>revoked.go\<close>,
  \<^verbatim>\<open>grant_validity.go\<close>, \<^verbatim>\<open>mint.go\<close> and \<^verbatim>\<open>chainbundle.go\<close> of \<^verbatim>\<open>core/capability\<close>.

  A content store and a location index are used here through their \<^verbatim>\<open>Get\<close> methods only, so they are
  functions; a nil interface is \<open>None\<close>. \<open>ErrBundleChainUnreachable\<close> is the package's own sentinel of
  \<^verbatim>\<open>chainbundle.go\<close>, which is not the \<^verbatim>\<open>ErrChainUnreachable\<close> of \<^verbatim>\<open>core/errors\<close>.
\<close>

section \<open>The capability index\<close>

record MemoryCapabilityIndex =
  mi_paths :: "(hash, string) gomap"

definition NewMemoryCapabilityIndex :: MemoryCapabilityIndex where
  "NewMemoryCapabilityIndex = \<lparr>mi_paths = []\<rparr>"

definition Record :: "MemoryCapabilityIndex \<Rightarrow> hash \<Rightarrow> string \<Rightarrow> MemoryCapabilityIndex" where
  "Record m capHash path =
     (if IsZero capHash \<or> path = '''' then m
      else m\<lparr>mi_paths := gm_set (mi_paths m) capHash path\<rparr>)"

definition Forget :: "MemoryCapabilityIndex \<Rightarrow> hash \<Rightarrow> MemoryCapabilityIndex" where
  "Forget m capHash = m\<lparr>mi_paths := gm_delete (mi_paths m) capHash\<rparr>"

definition index_PathFor :: "MemoryCapabilityIndex \<Rightarrow> hash \<Rightarrow> string option" where
  "index_PathFor m capHash = gm_get (mi_paths m) capHash"

definition nop_PathFor :: "hash \<Rightarrow> string option" where
  "nop_PathFor capHash = None"

section \<open>Storage paths\<close>

definition CapabilityGrantsRoot :: string where
  "CapabilityGrantsRoot = ''system/capability/grants''"

definition MultiSigRootGrantsPrefix :: string where
  "MultiSigRootGrantsPrefix = CapabilityGrantsRoot @ ''/multi-sig-root''"

definition RevocationsRoot :: string where
  "RevocationsRoot = ''system/capability/revocations''"

definition RevocationPathFor :: "hash \<Rightarrow> string" where
  "RevocationPathFor capHash = RevocationsRoot @ ''/'' @ hex_EncodeToString (hash_Bytes capHash)"

definition CapabilityPathFor :: "(hash \<Rightarrow> string option) option \<Rightarrow> hash \<Rightarrow> string option" where
  "CapabilityPathFor index capHash = (case index of None \<Rightarrow> None | Some f \<Rightarrow> f capHash)"

definition storage_PathFor :: "'p cap_prims_scheme \<Rightarrow> entity \<Rightarrow> string option result" where
  "storage_PathFor P capEntity =
     (case CapabilityTokenDataFromEntity P capEntity of
        Inl e \<Rightarrow> Inl e
      | Inr tok \<Rightarrow>
          if IsMulti (ct_Granter tok) then
            Inr (Some (MultiSigRootGrantsPrefix @ ''/'' @ hex_EncodeToString (hash_Bytes (ContentHash capEntity))))
          else Inr None)"

section \<open>Revocation\<close>

record RevocationContext =
  rc_ContentStore :: "(hash \<Rightarrow> entity option) option"
  rc_LocationIndex :: "(string \<Rightarrow> hash option) option"
  rc_Included :: "included_map option"
  rc_CapabilityIndex :: "(hash \<Rightarrow> string option) option"

definition resolveCapAncestor :: "hash \<Rightarrow> RevocationContext \<Rightarrow> entity option" where
  "resolveCapAncestor h rctx =
     (case (case rc_ContentStore rctx of None \<Rightarrow> None | Some get \<Rightarrow> get h) of
        Some ent \<Rightarrow> Some ent
      | None \<Rightarrow> (case rc_Included rctx of None \<Rightarrow> None | Some m \<Rightarrow> gm_get m h))"

text \<open>
  The first loop of \<^verbatim>\<open>IsRevoked\<close>: \<open>Some None\<close> where it returns true, \<open>Some (Some root)\<close> where it
  breaks, \<open>None\<close> where it would not end.
\<close>

partial_function (option) walk_to_root ::
  "'p cap_prims_scheme \<Rightarrow> RevocationContext \<Rightarrow> hash list \<Rightarrow> entity \<Rightarrow> entity option option" where
  "walk_to_root P rctx visited current =
     (case CapabilityTokenDataFromEntity P current of
        Inl _ \<Rightarrow> Some None
      | Inr capData \<Rightarrow>
          (case ct_Parent capData of
             None \<Rightarrow> Some (Some current)
           | Some parent \<Rightarrow>
               if ContentHash current \<in> set visited then Some None
               else (case resolveCapAncestor parent rctx of
                       None \<Rightarrow> Some None
                     | Some p \<Rightarrow> walk_to_root P rctx (ContentHash current # visited) p)))"

text \<open>Steps 2 and 3 of \<^verbatim>\<open>IsRevoked\<close>, on the root.\<close>

definition root_revoked :: "RevocationContext \<Rightarrow> entity \<Rightarrow> bool" where
  "root_revoked rctx root =
     (let bindingRevoked =
        (case (rc_LocationIndex rctx, rc_CapabilityIndex rctx) of
           (Some li, Some ci) \<Rightarrow>
             (case ci (ContentHash root) of
                None \<Rightarrow> False
              | Some path \<Rightarrow>
                  (case li path of
                     None \<Rightarrow> True
                   | Some stored \<Rightarrow> stored \<noteq> ContentHash root))
         | _ \<Rightarrow> False) in
      if bindingRevoked then True
      else (case rc_LocationIndex rctx of
              None \<Rightarrow> False
            | Some li \<Rightarrow>
                li (RevocationsRoot @ ''/'' @ hex_EncodeToString (hash_Bytes (ContentHash root))) \<noteq> None))"

definition IsRevoked :: "'p cap_prims_scheme \<Rightarrow> entity \<Rightarrow> RevocationContext \<Rightarrow> bool option" where
  "IsRevoked P capEntity rctx =
     (case walk_to_root P rctx [] capEntity of
        None \<Rightarrow> None
      | Some None \<Rightarrow> Some True
      | Some (Some root) \<Rightarrow> Some (root_revoked rctx root))"

section \<open>Handler grants\<close>

text \<open>The error is the stable code of \<^verbatim>\<open>ErrGrantInvalid\<close>.\<close>

definition VerifyHandlerGrant ::
  "'p cap_prims_scheme \<Rightarrow> u64 \<Rightarrow> entity \<Rightarrow> string \<Rightarrow> hash \<Rightarrow> (hash \<Rightarrow> entity option) \<Rightarrow>
    (string \<Rightarrow> hash option) \<Rightarrow> string + unit" where
  "VerifyHandlerGrant P now grantEnt signaturePath localIdentityHash cs li =
     (if Type grantEnt \<noteq> TypeCapToken then Inl ''wrong_type''
      else case CapabilityTokenDataFromEntity P grantEnt of
        Inl _ \<Rightarrow> Inl ''decode_failed''
      | Inr tok \<Rightarrow>
      if granter_IsZero (ct_Granter tok) then Inl ''missing_granter''
      else case SingleHash (ct_Granter tok) of
        None \<Rightarrow> Inl ''multi_sig_granter_not_supported_here''
      | Some granterHash \<Rightarrow>
      if granterHash \<noteq> localIdentityHash then Inl ''foreign_granter''
      else case li signaturePath of
        None \<Rightarrow> Inl ''missing_signature''
      | Some sigHash \<Rightarrow>
      (case cs sigHash of
        None \<Rightarrow> Inl ''missing_signature_entity''
      | Some sigEnt \<Rightarrow>
      if Type sigEnt \<noteq> TypeSignature then Inl ''wrong_signature_type''
      else case SignatureDataFromEntity P sigEnt of
        Inl _ \<Rightarrow> Inl ''signature_decode_failed''
      | Inr sig \<Rightarrow>
      if sd_Target sig \<noteq> ContentHash grantEnt then Inl ''signature_target_mismatch''
      else if sd_Signer sig \<noteq> granterHash then Inl ''signature_signer_mismatch''
      else case cs granterHash of
        None \<Rightarrow> Inl ''granter_identity_unresolvable''
      | Some idEnt \<Rightarrow>
      if Type idEnt \<noteq> TypePeer then Inl ''granter_not_identity''
      else case PeerDataFromEntity P idEnt of
        Inl _ \<Rightarrow> Inl ''granter_identity_decode_failed''
      | Inr idData \<Rightarrow>
      (case KeyTypeByte (pd_KeyType idData) of
        None \<Rightarrow> Inl ''unsupported_key_type''
      | Some ktByte \<Rightarrow>
      if sd_Algorithm sig \<noteq> '''' \<and> sd_Algorithm sig \<noteq> pd_KeyType idData
        then Inl ''unsupported_signature_algorithm''
      else
        let expectedPubLen =
          (if ktByte = KeyTypeEd25519 then Ed25519PublicKeyLen
           else if ktByte = KeyTypeEd448 then Ed448PublicKeyLen else 0) in
        if expectedPubLen > 0 \<and> length (pd_PublicKey idData) \<noteq> expectedPubLen
          then Inl ''granter_public_key_invalid''
        else if \<not> crypto_Verify P ktByte (pd_PublicKey idData) (hash_Bytes (ContentHash grantEnt))
                    (sd_Signature sig)
          then Inl ''signature_verification_failed''
        else if (case ct_NotBefore tok of None \<Rightarrow> False | Some nb \<Rightarrow> now < nb)
          then Inl ''grant_not_yet_valid''
        else if Expired (ct_ExpiresAt tok) now then Inl ''grant_expired''
        else Inr ())))"

section \<open>Minting\<close>

text \<open>\<open>dflt\<close> is the process-wide hash format of \<^verbatim>\<open>NewEntity\<close>.\<close>

definition MintReattenuated ::
  "'p cap_prims_scheme \<Rightarrow> byte \<Rightarrow> Keypair \<Rightarrow> entity \<Rightarrow> hash \<Rightarrow> entity \<Rightarrow> GrantEntry list \<Rightarrow> u64 \<Rightarrow>
    u64 option \<Rightarrow> (entity \<times> entity) result" where
  "MintReattenuated P dflt signer signerIdentity grantee parent grants createdAt expiresAt =
     (if IsZero (ContentHash parent) then Inl []
      else if IsZero grantee then Inl []
      else if length grants = 0 then Inl []
      else
        let tokenData =
          \<lparr>ct_Grants = grants, ct_Granter = SingleSigGranter (ContentHash signerIdentity),
           ct_Grantee = grantee, ct_Parent = Some (ContentHash parent), ct_CreatedAt = createdAt,
           ct_ExpiresAt = expiresAt, ct_NotBefore = None, ct_DelegationCaveats = None\<rparr> in
        case CapabilityTokenData_ToEntity P dflt tokenData of
          Inl e \<Rightarrow> Inl e
        | Inr capEnt \<Rightarrow>
            (case Sign P signer (hash_Bytes (ContentHash capEnt)) of
               Inl e \<Rightarrow> Inl e
             | Inr sig \<Rightarrow>
                 (case SignatureData_ToEntity P dflt
                         \<lparr>sd_Target = ContentHash capEnt, sd_Signer = ContentHash signerIdentity,
                          sd_Algorithm = KeyTypeString (kp_KeyType signer), sd_Signature = sig\<rparr> of
                    Inl e \<Rightarrow> Inl e
                  | Inr sigEnt \<Rightarrow> Inr (capEnt, sigEnt))))"

section \<open>Chain bundles\<close>

definition StoreResolver :: "(hash \<Rightarrow> entity option) \<Rightarrow> hash \<Rightarrow> entity option" where
  "StoreResolver cs h = cs h"

definition findBoundSignature ::
  "'p cap_prims_scheme \<Rightarrow> (hash \<Rightarrow> entity option) \<Rightarrow> (string \<Rightarrow> hash option) \<Rightarrow> hash \<Rightarrow> entity \<Rightarrow>
    entity option" where
  "findBoundSignature P cs li target signerIdentity =
     (case PeerDataFromEntity P signerIdentity of
        Inl _ \<Rightarrow> None
      | Inr idData \<Rightarrow>
          (case KeyTypeByte (pd_KeyType idData) of
             None \<Rightarrow> None
           | Some ktByte \<Rightarrow>
               (case PeerIDFromPublicKey P (pd_PublicKey idData) ktByte of
                  Inl _ \<Rightarrow> None
                | Inr pid \<Rightarrow>
                    (case li (InvariantSignaturePath pid target) of
                       None \<Rightarrow> None
                     | Some sigHash \<Rightarrow>
                         (case cs sigHash of
                            None \<Rightarrow> None
                          | Some sigEnt \<Rightarrow> if Type sigEnt \<noteq> TypeSignature then None else Some sigEnt)))))"

text \<open>The inner loop over the signers of one link.\<close>

fun bundle_signers ::
  "'p cap_prims_scheme \<Rightarrow> (hash \<Rightarrow> entity option) \<Rightarrow> (string \<Rightarrow> hash option) \<Rightarrow> entity \<Rightarrow> hash list \<Rightarrow>
    included_map \<Rightarrow> included_map result" where
  "bundle_signers P cs li capEnt [] bundle = Inr bundle"
| "bundle_signers P cs li capEnt (signer # ss) bundle =
     (case cs signer of
        None \<Rightarrow> Inl [ErrBundleChainUnreachable]
      | Some idEnt \<Rightarrow>
          if Type idEnt \<noteq> TypePeer then Inl [ErrBundleChainUnreachable]
          else
            let bundle1 = gm_set bundle (ContentHash idEnt) idEnt in
            (case findBoundSignature P cs li (ContentHash capEnt) idEnt of
               None \<Rightarrow> bundle_signers P cs li capEnt ss bundle1
             | Some sigEnt \<Rightarrow>
                 bundle_signers P cs li capEnt ss (gm_set bundle1 (ContentHash sigEnt) sigEnt)))"

text \<open>The outer loop over the chain.\<close>

fun bundle_chain ::
  "'p cap_prims_scheme \<Rightarrow> (hash \<Rightarrow> entity option) \<Rightarrow> (string \<Rightarrow> hash option) \<Rightarrow> entity list \<Rightarrow>
    included_map \<Rightarrow> included_map result" where
  "bundle_chain P cs li [] bundle = Inr bundle"
| "bundle_chain P cs li (capEnt # rest) bundle =
     (let bundle1 = gm_set bundle (ContentHash capEnt) capEnt in
      case CapabilityTokenDataFromEntity P capEnt of
        Inl _ \<Rightarrow> bundle_chain P cs li rest bundle1
      | Inr capData \<Rightarrow>
          (case bundle_signers P cs li capEnt
                  (case ct_Granter capData of
                     SingleSigGranter g \<Rightarrow> [g] | MultiSigGranter mg \<Rightarrow> mg_Signers mg) bundle1 of
             Inl e \<Rightarrow> Inl e
           | Inr bundle2 \<Rightarrow>
               if IsZero (ct_Grantee capData) then bundle_chain P cs li rest bundle2
               else (case cs (ct_Grantee capData) of
                       None \<Rightarrow> Inl [ErrBundleChainUnreachable]
                     | Some idEnt \<Rightarrow>
                         if Type idEnt \<noteq> TypePeer then Inl [ErrBundleChainUnreachable]
                         else bundle_chain P cs li rest (gm_set bundle2 (ContentHash idEnt) idEnt))))"

definition CollectChainBundle ::
  "'p cap_prims_scheme \<Rightarrow> entity \<Rightarrow> (hash \<Rightarrow> entity option) \<Rightarrow> (string \<Rightarrow> hash option) \<Rightarrow>
    included_map result" where
  "CollectChainBundle P leafCap cs li =
     (case CollectAuthorityChain P leafCap (StoreResolver cs) of
        Inl e \<Rightarrow> Inl e
      | Inr chain \<Rightarrow> bundle_chain P cs li chain [])"

section \<open>What revocation means\<close>

text \<open>The entities from a capability up to, but without, its root.\<close>

fun ancestry :: "'p cap_prims_scheme \<Rightarrow> RevocationContext \<Rightarrow> entity \<Rightarrow> entity list \<Rightarrow> entity \<Rightarrow> bool" where
  "ancestry P rctx e [] root \<longleftrightarrow>
     e = root \<and> (\<exists>d. CapabilityTokenDataFromEntity P e = Inr d \<and> ct_Parent d = None)"
| "ancestry P rctx e (x # xs) root \<longleftrightarrow>
     e = x \<and> (\<exists>d h p. CapabilityTokenDataFromEntity P e = Inr d \<and> ct_Parent d = Some h \<and>
                resolveCapAncestor h rctx = Some p \<and> ancestry P rctx p xs root)"

lemma walk_to_root_complete:
  "ancestry P rctx e xs root \<Longrightarrow> distinct (map ContentHash xs) \<Longrightarrow>
     set (map ContentHash xs) \<inter> set visited = {} \<Longrightarrow> walk_to_root P rctx visited e = Some (Some root)"
proof (induction xs arbitrary: e visited)
  case Nil
  then show ?case by (subst walk_to_root.simps) auto
next
  case (Cons x xs)
  then obtain d h p where "e = x" "CapabilityTokenDataFromEntity P e = Inr d" "ct_Parent d = Some h"
    "resolveCapAncestor h rctx = Some p" "ancestry P rctx p xs root" by auto
  moreover from this have "walk_to_root P rctx (ContentHash x # visited) p = Some (Some root)"
    using Cons by (intro Cons.IH) auto
  ultimately show ?case
    using Cons.prems by (subst walk_to_root.simps) auto
qed

lemma walk_to_root_step:
  assumes walk: "\<And>v e root. walk v e = Some (Some root) \<Longrightarrow>
      \<exists>xs. ancestry P rctx e xs root \<and> distinct (map ContentHash xs) \<and> set (map ContentHash xs) \<inter> set v = {}"
    and step: "(case CapabilityTokenDataFromEntity P e of
        Inl _ \<Rightarrow> Some None
      | Inr capData \<Rightarrow>
          (case ct_Parent capData of
             None \<Rightarrow> Some (Some e)
           | Some parent \<Rightarrow>
               if ContentHash e \<in> set visited then Some None
               else (case resolveCapAncestor parent rctx of
                       None \<Rightarrow> Some None
                     | Some p \<Rightarrow> walk (ContentHash e # visited) p))) = Some (Some root)"
  shows "\<exists>xs. ancestry P rctx e xs root \<and> distinct (map ContentHash xs) \<and>
       set (map ContentHash xs) \<inter> set visited = {}"
proof -
  obtain d where d: "CapabilityTokenDataFromEntity P e = Inr d"
    using step by (auto split: sum.splits)
  show ?thesis
  proof (cases "ct_Parent d")
    case None
    then show ?thesis
      using step d by (intro exI [of _ "[]"]) simp
  next
    case (Some h)
    then obtain p where new: "ContentHash e \<notin> set visited" and p: "resolveCapAncestor h rctx = Some p"
      and w: "walk (ContentHash e # visited) p = Some (Some root)"
      using step d by (auto split: if_splits option.splits)
    from walk [OF w] obtain xs where "ancestry P rctx p xs root" "distinct (map ContentHash xs)"
      "set (map ContentHash xs) \<inter> set (ContentHash e # visited) = {}"
      by blast
    then show ?thesis
      using d Some p new by (intro exI [of _ "e # xs"]) auto
  qed
qed

lemma walk_to_root_sound:
  assumes "walk_to_root P rctx visited e = Some (Some root)"
  shows "\<exists>xs. ancestry P rctx e xs root \<and> distinct (map ContentHash xs) \<and>
       set (map ContentHash xs) \<inter> set visited = {}"
proof -
  let ?Q = "\<lambda>(((P, rctx), visited), e) r. \<forall>root. r = Some root \<longrightarrow>
    (\<exists>xs. ancestry P rctx e xs root \<and> distinct (map ContentHash xs) \<and> set (map ContentHash xs) \<inter> set visited = {})"
  have "?Q (((P, rctx), visited), e) (Some root)"
  proof (rule walk_to_root.raw_induct [of ?Q, OF _ assms], goal_cases)
    case (1 walk P rctx visited e y)
    have "\<exists>xs. ancestry P rctx e xs root \<and> distinct (map ContentHash xs) \<and>
        set (map ContentHash xs) \<inter> set visited = {}" if "y = Some root" for root
    proof (rule walk_to_root_step [where walk = "walk P rctx"])
      fix v e' root' assume "walk P rctx v e' = Some (Some root')"
      from 1(1) [OF this] show "\<exists>xs. ancestry P rctx e' xs root' \<and> distinct (map ContentHash xs) \<and>
          set (map ContentHash xs) \<inter> set v = {}" by simp
    qed (use 1(2) that in simp)
    then show ?case by simp
  qed
  then show ?thesis
    by simp
qed

lemma walk_to_root_ends:
  assumes "finite H" and "\<And>h p. resolveCapAncestor h rctx = Some p \<Longrightarrow> ContentHash p \<in> H"
  shows "ContentHash e \<in> H \<Longrightarrow> set visited \<subseteq> H \<Longrightarrow> \<exists>r. walk_to_root P rctx visited e = Some r"
proof (induction "card (H - set visited)" arbitrary: visited e rule: less_induct)
  case less
  show ?case
  proof (cases "\<exists>d h p. CapabilityTokenDataFromEntity P e = Inr d \<and> ct_Parent d = Some h \<and>
      ContentHash e \<notin> set visited \<and> resolveCapAncestor h rctx = Some p")
    case True
    then obtain d h p where d: "CapabilityTokenDataFromEntity P e = Inr d" "ct_Parent d = Some h"
      "ContentHash e \<notin> set visited" "resolveCapAncestor h rctx = Some p" by auto
    have "card (H - set (ContentHash e # visited)) < card (H - set visited)"
      using less.prems d(3) assms(1) by (intro psubset_card_mono) auto
    then obtain r where "walk_to_root P rctx (ContentHash e # visited) p = Some r"
      using less.hyps [of "ContentHash e # visited" p] less.prems assms(2) d(4) by auto
    then show ?thesis
      using d by (subst walk_to_root.simps) simp
  next
    case False
    then show ?thesis
      by (subst walk_to_root.simps) (auto split: sum.splits option.splits)
  qed
qed


lemma IsRevoked_False:
  "IsRevoked P e rctx = Some False \<longleftrightarrow>
     (\<exists>xs root. ancestry P rctx e xs root \<and> distinct (map ContentHash xs) \<and> \<not> root_revoked rctx root)"
proof
  assume "IsRevoked P e rctx = Some False"
  then obtain root where "walk_to_root P rctx [] e = Some (Some root)" "\<not> root_revoked rctx root"
    by (auto simp: IsRevoked_def split: option.splits)
  then show "\<exists>xs root. ancestry P rctx e xs root \<and> distinct (map ContentHash xs) \<and> \<not> root_revoked rctx root"
    using walk_to_root_sound by blast
next
  assume "\<exists>xs root. ancestry P rctx e xs root \<and> distinct (map ContentHash xs) \<and> \<not> root_revoked rctx root"
  then obtain xs root where "ancestry P rctx e xs root" "distinct (map ContentHash xs)"
    "\<not> root_revoked rctx root"
    by blast
  then show "IsRevoked P e rctx = Some False"
    using walk_to_root_complete [of P rctx e xs root "[]"] by (simp add: IsRevoked_def)
qed

lemma root_standing:
  "\<not> root_revoked rctx root \<longleftrightarrow>
     (\<forall>li. rc_LocationIndex rctx = Some li \<longrightarrow>
        li (RevocationPathFor (ContentHash root)) = None \<and>
        (\<forall>ci path. rc_CapabilityIndex rctx = Some ci \<longrightarrow> ci (ContentHash root) = Some path \<longrightarrow>
           li path = Some (ContentHash root)))"
  by (auto simp: root_revoked_def Let_def RevocationPathFor_def split: option.splits)


lemma RevocationPathFor_inj:
  assumes "hash_wf a" "allocated (Algorithm a)" "hash_wf b" "allocated (Algorithm b)"
  shows "RevocationPathFor a = RevocationPathFor b \<longleftrightarrow> a = b"
  using assms hash_Bytes_inj by (auto simp: RevocationPathFor_def hex_encode_inj)

lemma resolveCapAncestor_location [simp]:
  "resolveCapAncestor h (rctx\<lparr>rc_LocationIndex := li\<rparr>) = resolveCapAncestor h rctx"
  by (simp add: resolveCapAncestor_def split: option.split)

lemma ancestry_location:
  "ancestry P (rctx\<lparr>rc_LocationIndex := li\<rparr>) e xs root \<longleftrightarrow> ancestry P rctx e xs root"
  by (induction xs arbitrary: e) simp_all

text \<open>
  C7. Revoking works and is precise: binding anything at the revocation path of a root revokes every
  capability that descends from it, and binding a marker for another hash changes the verdict of no
  capability whose recorded root paths lie outside that marker's path.
\<close>

theorem revocation_marker:
  assumes "rc_LocationIndex rctx = Some li" and "ancestry P rctx e xs root"
    and "distinct (map ContentHash xs)"
    and "hash_wf (ContentHash root)" and "allocated (Algorithm (ContentHash root))"
    and "hash_wf h" and "allocated (Algorithm h)"
  shows "IsRevoked P e (rctx\<lparr>rc_LocationIndex := Some (li(RevocationPathFor (ContentHash root) \<mapsto> m))\<rparr>) = Some True \<and>
    (h \<noteq> ContentHash root \<longrightarrow>
     (\<forall>ci. rc_CapabilityIndex rctx = Some ci \<longrightarrow> ci (ContentHash root) \<noteq> Some (RevocationPathFor h)) \<longrightarrow>
     IsRevoked P e (rctx\<lparr>rc_LocationIndex := Some (li(RevocationPathFor h \<mapsto> m))\<rparr>) = IsRevoked P e rctx)"
proof -
  have walk: "walk_to_root P (rctx\<lparr>rc_LocationIndex := l\<rparr>) [] e = Some (Some root)" for l
    using assms(2,3) by (intro walk_to_root_complete) (auto simp: ancestry_location)
  have walk0: "walk_to_root P rctx [] e = Some (Some root)"
    using assms(2,3) by (intro walk_to_root_complete) auto
  have "root_revoked (rctx\<lparr>rc_LocationIndex := Some (li(RevocationPathFor (ContentHash root) \<mapsto> m))\<rparr>) root"
    by (simp add: root_revoked_def RevocationPathFor_def Let_def)
  moreover have "root_revoked (rctx\<lparr>rc_LocationIndex := Some (li(RevocationPathFor h \<mapsto> m))\<rparr>) root
      \<longleftrightarrow> root_revoked rctx root"
    if "h \<noteq> ContentHash root"
      "\<forall>ci. rc_CapabilityIndex rctx = Some ci \<longrightarrow> ci (ContentHash root) \<noteq> Some (RevocationPathFor h)"
  proof -
    have "RevocationPathFor (ContentHash root) \<noteq> RevocationPathFor h"
      using RevocationPathFor_inj assms(4-7) that(1) by metis
    then show ?thesis
      using assms(1) that(2)
      by (auto simp: root_revoked_def Let_def RevocationPathFor_def split: option.splits)
  qed
  ultimately show ?thesis
    using walk walk0 by (simp add: IsRevoked_def)
qed


section \<open>Handler grants\<close>

text \<open>
  A handler grant is accepted exactly when it is a capability token whose single granter is the
  local identity, a signature entity of the grant by that granter is bound at the given path, the
  granter's identity is stored and its key (of the declared type and length) verifies the signature,
  and the grant is within its validity window.
\<close>

theorem VerifyHandlerGrant_iff:
  "VerifyHandlerGrant P now g sp local cs li = Inr () \<longleftrightarrow>
     Type g = TypeCapToken \<and> \<not> IsZero local \<and>
     (\<exists>tok sh se sig ie idd kt. CapabilityTokenDataFromEntity P g = Inr tok \<and>
        ct_Granter tok = SingleSigGranter local \<and>
        li sp = Some sh \<and> cs sh = Some se \<and> Type se = TypeSignature \<and>
        SignatureDataFromEntity P se = Inr sig \<and> sd_Target sig = ContentHash g \<and> sd_Signer sig = local \<and>
        cs local = Some ie \<and> Type ie = TypePeer \<and> PeerDataFromEntity P ie = Inr idd \<and>
        KeyTypeByte (pd_KeyType idd) = Some kt \<and> sd_Algorithm sig \<in> {'''', pd_KeyType idd} \<and>
        crypto_Verify P kt (pd_PublicKey idd) (hash_Bytes (ContentHash g)) (sd_Signature sig) \<and>
        temporally_valid tok now)"
proof -
  define bad where "bad kt k \<longleftrightarrow>
      0 < (if kt = 1 then 32 else if kt = 2 then 57 else (0 :: nat)) \<and>
      length k \<noteq> (if kt = 1 then 32 else if kt = 2 then 57 else (0 :: nat))" for kt :: byte and k :: bytes
  have len: "crypto_Verify P kt k m s \<Longrightarrow> \<not> bad kt k" for kt k m s
    by (auto simp: crypto_Verify_def bad_def split: if_splits)
  have single: "SingleHash gr = Some h \<longleftrightarrow> gr = SingleSigGranter h" for gr h
    by (cases gr) auto
  have zero: "granter_IsZero (SingleSigGranter h) \<longleftrightarrow> IsZero h" for h
    by simp
  have alg: "sd_Algorithm sig \<in> {'''', k} \<longleftrightarrow> \<not> (sd_Algorithm sig \<noteq> '''' \<and> sd_Algorithm sig \<noteq> k)" for sig k
    by blast
  have valid: "temporally_valid tok now \<longleftrightarrow>
      \<not> (case ct_NotBefore tok of None \<Rightarrow> False | Some nb \<Rightarrow> now < nb) \<and> \<not> Expired (ct_ExpiresAt tok) now" for tok
    by (simp add: temporally_valid_def)
  show ?thesis
    unfolding VerifyHandlerGrant_def ok_simps single Let_def key_consts valid alg bad_def [symmetric]
    using len zero by metis
qed


section \<open>Minting\<close>

text \<open>
  A re-attenuated capability that \<^verbatim>\<open>MintReattenuated\<close> returns is a valid entity and a well-formed
  token with the given grants, granted by the signer to the given grantee under the given parent;
  and with its detached signature in the envelope it passes the signature check of a chain link,
  when the token and the signature survive their encoding and the signer's signatures verify under
  the key of its identity entity.
\<close>

theorem MintReattenuated_verifies:
  assumes mint: "MintReattenuated P dflt signer ident grantee parent grants created expires = Inr (c, s)"
    and tok: "\<And>b. ecf_EncodeCapToken P tok = Inr b \<Longrightarrow> ecf_DecodeCapToken P b = Inr tok"
    and sig: "\<And>b. ecf_EncodeSignatureData P sd = Inr b \<Longrightarrow> ecf_DecodeSignatureData P b = Inr sd"
    and tok_def: "tok = \<lparr>ct_Grants = grants, ct_Granter = SingleSigGranter (ContentHash ident), ct_Grantee = grantee,
        ct_Parent = Some (ContentHash parent), ct_CreatedAt = created, ct_ExpiresAt = expires,
        ct_NotBefore = None, ct_DelegationCaveats = None\<rparr>"
    and sd_def: "sd = \<lparr>sd_Target = ContentHash c, sd_Signer = ContentHash ident,
        sd_Algorithm = KeyTypeString (kp_KeyType signer), sd_Signature = sg\<rparr>"
    and sg: "Sign P signer (hash_Bytes (ContentHash c)) = Inr sg"
    and peer: "gm_get inc (ContentHash ident) = Some ident" "PeerDataFromEntity P ident = Inr pd"
      "KeyTypeByte (pd_KeyType pd) = Some kt" "crypto_Verify P kt (pd_PublicKey pd) (hash_Bytes (ContentHash c)) sg"
    and found: "findSignatureForTarget P (ContentHash c) inc = Some s"
  shows "Validate P c = Inr () \<and> Validate P s = Inr () \<and> Type c = TypeCapToken \<and>
    CapabilityTokenDataFromEntity P c = Inr tok \<and> ValidateStructure tok = Inr () \<and> grants \<noteq> [] \<and>
    verifyLinkSignatures P c tok inc = Inr ()"
proof -
  have cs: "CapabilityTokenData_ToEntity P dflt tok = Inr c" "SignatureData_ToEntity P dflt sd = Inr s"
    and g: "\<not> IsZero grantee" "grants \<noteq> []"
    using mint sg by (auto simp: MintReattenuated_def Let_def tok_def sd_def split: if_splits sum.splits)
  obtain bt bs where b: "ecf_EncodeCapToken P tok = Inr bt" "NewEntityFormat P dflt TypeCapToken bt = Inr c"
    "ecf_EncodeSignatureData P sd = Inr bs" "NewEntityFormat P dflt TypeSignature bs = Inr s"
    using cs by (auto simp: CapabilityTokenData_ToEntity_def SignatureData_ToEntity_def NewEntity_def split: sum.splits)
  note nc = NewEntityFormat_props [OF b(2)] and ns = NewEntityFormat_props [OF b(4)]
  have "CapabilityTokenDataFromEntity P c = Inr tok" "SignatureDataFromEntity P s = Inr sd"
    using tok [OF b(1)] sig [OF b(3)] nc ns
    by (simp_all add: CapabilityTokenDataFromEntity_def SignatureDataFromEntity_def)
  then show ?thesis
    using nc ns g found peer by (simp add: ValidateStructure_ok verifyLinkSignatures_def tok_def sd_def)
qed

section \<open>Chain bundles\<close>

text \<open>A content store returns an entity under its own content hash.\<close>

definition content_addressed :: "(hash \<Rightarrow> entity option) \<Rightarrow> bool" where
  "content_addressed cs \<longleftrightarrow> (\<forall>h e. cs h = Some e \<longrightarrow> ContentHash e = h)"

definition drawn_from :: "(hash \<Rightarrow> entity option) \<Rightarrow> included_map \<Rightarrow> bool" where
  "drawn_from cs b \<longleftrightarrow> (\<forall>k e. gm_get b k = Some e \<longrightarrow> cs k = Some e)"

definition bundle_extends :: "included_map \<Rightarrow> included_map \<Rightarrow> bool" where
  "bundle_extends b b' \<longleftrightarrow> (\<forall>k e. gm_get b k = Some e \<longrightarrow> gm_get b' k = Some e)"

lemma bundle_extends_refl: "bundle_extends b b"
  by (simp add: bundle_extends_def)

lemma bundle_extends_trans: "bundle_extends a b \<Longrightarrow> bundle_extends b c \<Longrightarrow> bundle_extends a c"
  by (simp add: bundle_extends_def)

lemma bundle_add:
  assumes "drawn_from cs b" and "content_addressed cs" and "cs h = Some e"
  shows "drawn_from cs (gm_set b (ContentHash e) e)" "bundle_extends b (gm_set b (ContentHash e) e)"
    "gm_get (gm_set b (ContentHash e) e) h = Some e"
  using assms by (auto simp: drawn_from_def bundle_extends_def content_addressed_def)

lemma findBoundSignature_stored:
  "findBoundSignature P cs li t i = Some e \<Longrightarrow> \<exists>h. cs h = Some e"
  by (auto simp: findBoundSignature_def split: sum.splits option.splits if_splits)

lemma bundle_signers_ok:
  assumes "content_addressed cs" and "bundle_signers P cs li c ss b = Inr b'" and "drawn_from cs b"
  shows "drawn_from cs b' \<and> bundle_extends b b' \<and>
    (\<forall>s \<in> set ss. \<exists>i. gm_get b' s = Some i \<and> Type i = TypePeer)"
  using assms(2,3)
proof (induction ss arbitrary: b)
  case Nil
  then show ?case by (simp add: bundle_extends_refl)
next
  case (Cons s ss)
  then obtain i where i: "cs s = Some i" "Type i = TypePeer"
    by (auto split: option.splits if_splits)
  let ?b1 = "gm_set b (ContentHash i) i"
  note b1 = bundle_add [OF Cons.prems(2) assms(1) i(1)]
  obtain b2 where b2: "bundle_signers P cs li c ss b2 = Inr b'" "drawn_from cs b2" "bundle_extends ?b1 b2"
  proof (cases "findBoundSignature P cs li (ContentHash c) i")
    case None
    then show thesis
      using that [of ?b1] Cons.prems(1) i b1 by (simp add: bundle_extends_refl Let_def)
  next
    case (Some e)
    then obtain h where "cs h = Some e"
      using findBoundSignature_stored by blast
    from bundle_add [OF b1(1) assms(1) this] show thesis
      using that [of "gm_set ?b1 (ContentHash e) e"] Cons.prems(1) i Some by (simp add: Let_def)
  qed
  from Cons.IH [OF b2(1,2)] show ?case
    using b2(3) b1 i by (auto simp: bundle_extends_def)
qed

text \<open>The identities a link needs: its granters and its grantee.\<close>

definition link_identities :: "CapabilityTokenData \<Rightarrow> hash set" where
  "link_identities d =
     (case ct_Granter d of SingleSigGranter g \<Rightarrow> {g} | MultiSigGranter mg \<Rightarrow> set (mg_Signers mg)) \<union>
     (if IsZero (ct_Grantee d) then {} else {ct_Grantee d})"

lemma bundle_chain_ok:
  assumes "content_addressed cs" and "bundle_chain P cs li chain b = Inr b'" and "drawn_from cs b"
    and "\<forall>e \<in> set chain. cs (ContentHash e) = Some e"
  shows "drawn_from cs b' \<and> bundle_extends b b' \<and>
    (\<forall>e \<in> set chain. gm_get b' (ContentHash e) = Some e \<and>
       (\<forall>d. CapabilityTokenDataFromEntity P e = Inr d \<longrightarrow>
          (\<forall>h \<in> link_identities d. \<exists>i. gm_get b' h = Some i \<and> Type i = TypePeer)))"
  using assms(2-4)
proof (induction chain arbitrary: b)
  case Nil
  then show ?case by (simp add: bundle_extends_refl)
next
  case (Cons c chain)
  let ?b1 = "gm_set b (ContentHash c) c"
  have c: "cs (ContentHash c) = Some c"
    using Cons.prems(3) by simp
  note b1 = bundle_add [OF Cons.prems(2) assms(1) c]
  obtain b2 where b2: "bundle_chain P cs li chain b2 = Inr b'" "drawn_from cs b2" "bundle_extends ?b1 b2"
    "\<forall>d. CapabilityTokenDataFromEntity P c = Inr d \<longrightarrow>
       (\<forall>h \<in> link_identities d. \<exists>i. gm_get b2 h = Some i \<and> Type i = TypePeer)"
  proof (cases "CapabilityTokenDataFromEntity P c")
    case (Inl e)
    then show thesis
      using that [of ?b1] Cons.prems(1) b1 by (simp add: bundle_extends_refl Let_def)
  next
    case (Inr d)
    let ?ss = "case ct_Granter d of SingleSigGranter g \<Rightarrow> [g] | MultiSigGranter mg \<Rightarrow> mg_Signers mg"
    obtain bs where bs: "bundle_signers P cs li c ?ss ?b1 = Inr bs"
      using Cons.prems(1) Inr by (auto simp: Let_def split: sum.splits)
    note bsok = bundle_signers_ok [OF assms(1) bs b1(1)]
    show thesis
    proof (cases "IsZero (ct_Grantee d)")
      case True
      then show thesis
        using that [of bs] Cons.prems(1) Inr bs bsok
        by (auto simp: Let_def link_identities_def split: Granter.splits)
    next
      case False
      then obtain i where i: "cs (ct_Grantee d) = Some i" "Type i = TypePeer"
        using Cons.prems(1) Inr bs by (auto simp: Let_def split: option.splits if_splits)
      note add = bundle_add [OF conjunct1 [OF bsok] assms(1) i(1)]
      show thesis
        using that [of "gm_set bs (ContentHash i) i"] Cons.prems(1) Inr bs bsok add i False
        by (auto simp: Let_def link_identities_def bundle_extends_def split: Granter.splits)
    qed
  qed
  from Cons.IH [OF b2(1,2)] Cons.prems(3) show ?case
    using b2(3,4) b1 by (auto simp: bundle_extends_def; meson)
qed


lemma is_authority_chain_stored:
  "content_addressed cs \<Longrightarrow> is_authority_chain P (StoreResolver cs) fmt es \<Longrightarrow>
     \<forall>e \<in> set (tl es). cs (ContentHash e) = Some e"
  by (induction P "StoreResolver cs" fmt es rule: is_authority_chain.induct)
    (auto simp: StoreResolver_def content_addressed_def)

lemma is_authority_chain_mono:
  "is_authority_chain P r fmt es \<Longrightarrow> (\<And>h e. e \<in> set es \<Longrightarrow> r h = Some e \<Longrightarrow> r' h = Some e) \<Longrightarrow>
     is_authority_chain P r' fmt es"
  by (induction P r fmt es rule: is_authority_chain.induct) auto

text \<open>
  A chain bundle is self-contained: collecting the leaf's authority chain from the bundle alone
  gives the chain that the local store gives, every granter and non-zero grantee of every link is in
  the bundle as a \<^verbatim>\<open>system/peer\<close> entity, and the bundle holds only entities of the store, each under
  its own hash.
\<close>

theorem CollectChainBundle_complete:
  assumes "content_addressed cs" and "cs (ContentHash leaf) = Some leaf"
    and "CollectChainBundle P leaf cs li = Inr bundle"
  shows "\<exists>chain. CollectAuthorityChain P leaf (StoreResolver cs) = Inr chain \<and>
    CollectAuthorityChain P leaf (IncludedResolver bundle) = Inr chain \<and>
    (\<forall>e \<in> set chain. \<forall>d. CapabilityTokenDataFromEntity P e = Inr d \<longrightarrow>
       (\<forall>h \<in> link_identities d. \<exists>i. gm_get bundle h = Some i \<and> Type i = TypePeer)) \<and>
    (\<forall>k e. gm_get bundle k = Some e \<longrightarrow> cs k = Some e \<and> ContentHash e = k)"
proof -
  obtain chain where chain: "CollectAuthorityChain P leaf (StoreResolver cs) = Inr chain"
    "bundle_chain P cs li chain [] = Inr bundle"
    using assms(3) by (auto simp: CollectChainBundle_def split: sum.splits)
  then obtain es where es: "chain = leaf # es"
    "is_authority_chain P (StoreResolver cs) (Algorithm (ContentHash leaf)) (leaf # es)"
    "length (leaf # es) \<le> Suc maxChainDepth"
    by (auto simp: CollectAuthorityChain_unfold)
  have stored: "\<forall>e \<in> set chain. cs (ContentHash e) = Some e"
    using is_authority_chain_stored [OF assms(1) es(2)] assms(2) es(1) by simp
  have "drawn_from cs []"
    by (simp add: drawn_from_def)
  note b = bundle_chain_ok [OF assms(1) chain(2) this stored]
  have "is_authority_chain P (IncludedResolver bundle) (Algorithm (ContentHash leaf)) (leaf # es)"
    using b assms(1) es(1)
    by (intro is_authority_chain_mono [OF es(2)])
      (auto simp: IncludedResolver_def StoreResolver_def content_addressed_def)
  then have "CollectAuthorityChain P leaf (IncludedResolver bundle) = Inr chain"
    using es by (simp add: CollectAuthorityChain_unfold)
  then show ?thesis
    using chain(1) b assms(1) unfolding drawn_from_def content_addressed_def by blast
qed

section \<open>The concrete chain again\<close>

definition demo_rctx :: RevocationContext where
  "demo_rctx = \<lparr>rc_ContentStore = None, rc_LocationIndex = Some (\<lambda>_. None),
     rc_Included = Some demo_included, rc_CapabilityIndex = None\<rparr>"


lemma demo_ancestry: "ancestry demo_cap_prims demo_rctx demo_leaf [demo_leaf] demo_root"
proof -
  have "CapabilityTokenDataFromEntity demo_cap_prims demo_leaf = Inr demo_leaf_token"
    "CapabilityTokenDataFromEntity demo_cap_prims demo_root = Inr demo_root_token"
    "ct_Parent demo_root_token = None" "ct_Parent demo_leaf_token = Some (ContentHash demo_root)"
    "resolveCapAncestor (ContentHash demo_root) demo_rctx = Some demo_root"
    by code_simp+
  then show ?thesis by simp
qed

theorem revocation_marker_witness:
  "IsRevoked demo_cap_prims demo_leaf
     (demo_rctx\<lparr>rc_LocationIndex := Some ((\<lambda>_. None)(RevocationPathFor (ContentHash demo_root) \<mapsto> zero_hash))\<rparr>)
     = Some True"
proof -
  have "rc_LocationIndex demo_rctx = Some (\<lambda>_. None)" "distinct (map ContentHash [demo_leaf])"
    by (simp_all add: demo_rctx_def)
  moreover have "hash_wf (ContentHash demo_root)" "allocated (Algorithm (ContentHash demo_root))"
    "hash_wf zero_hash" "allocated (Algorithm zero_hash)"
    by code_simp+
  ultimately show ?thesis
    using revocation_marker [OF _ demo_ancestry] by blast
qed

definition demo_mint_prims :: cap_prims where
  "demo_mint_prims =
     demo_cap_prims\<lparr>ecf_EncodeCapToken := \<lambda>_. Inr [2], ecf_EncodeSignatureData := \<lambda>_. Inr [4]\<rparr>"

theorem MintReattenuated_verifies_witness:
  "MintReattenuated demo_mint_prims 0 \<lparr>kp_KeyType = 1, kp_PrivateKey = demo_key 8, kp_PublicKey = demo_key 8\<rparr>
     (demo_peer 8) (ContentHash (demo_peer 7)) demo_root (ct_Grants demo_leaf_token) 20 (Some 90)
     = Inr (demo_leaf, demo_make TypeSignature [4]) \<and>
   verifyLinkSignatures demo_mint_prims demo_leaf demo_leaf_token demo_included = Inr ()"
proof -
  let ?k = "\<lparr>kp_KeyType = 1, kp_PrivateKey = demo_key 8, kp_PublicKey = demo_key 8\<rparr>"
  let ?pd = "\<lparr>pd_PublicKey = demo_key 8, pd_KeyType = ''ed25519''\<rparr>"
  have m: "MintReattenuated demo_mint_prims 0 ?k (demo_peer 8) (ContentHash (demo_peer 7)) demo_root
      (ct_Grants demo_leaf_token) 20 (Some 90) = Inr (demo_leaf, demo_make TypeSignature [4])"
    by code_simp
  have t: "ecf_EncodeCapToken demo_mint_prims demo_leaf_token = Inr b \<Longrightarrow>
      ecf_DecodeCapToken demo_mint_prims b = Inr demo_leaf_token" for b
    by (auto simp: demo_mint_prims_def demo_cap_prims_def)
  have leaf: "demo_leaf_token = \<lparr>ct_Grants = ct_Grants demo_leaf_token,
      ct_Granter = SingleSigGranter (ContentHash (demo_peer 8)), ct_Grantee = ContentHash (demo_peer 7),
      ct_Parent = Some (ContentHash demo_root), ct_CreatedAt = 20, ct_ExpiresAt = Some 90,
      ct_NotBefore = None, ct_DelegationCaveats = None\<rparr>"
    by (simp add: demo_leaf_token_def demo_root_def demo_make_def)
  let ?sd = "\<lparr>sd_Target = ContentHash demo_leaf, sd_Signer = ContentHash (demo_peer 8),
      sd_Algorithm = KeyTypeString (kp_KeyType ?k), sd_Signature = demo_key 8\<rparr>"
  have s: "ecf_EncodeSignatureData demo_mint_prims ?sd = Inr b \<Longrightarrow>
      ecf_DecodeSignatureData demo_mint_prims b = Inr ?sd" for b
    by (auto simp: demo_mint_prims_def demo_cap_prims_def demo_leaf_def demo_make_def KeyTypeString_def)
  have "Sign demo_mint_prims ?k (hash_Bytes (ContentHash demo_leaf)) = Inr (demo_key 8)"
    "gm_get demo_included (ContentHash (demo_peer 8)) = Some (demo_peer 8)"
    "PeerDataFromEntity demo_mint_prims (demo_peer 8) = Inr ?pd"
    "KeyTypeByte (pd_KeyType ?pd) = Some 1"
    "crypto_Verify demo_mint_prims 1 (pd_PublicKey ?pd) (hash_Bytes (ContentHash demo_leaf)) (demo_key 8)"
    "findSignatureForTarget demo_mint_prims (ContentHash demo_leaf) demo_included
       = Some (demo_make TypeSignature [4])"
    by code_simp+
  from MintReattenuated_verifies [OF m t s leaf refl this] m show ?thesis
    by blast
qed

theorem CollectChainBundle_complete_witness:
  "\<exists>bundle chain. CollectChainBundle demo_cap_prims demo_leaf (gm_get demo_included) (\<lambda>_. None) = Inr bundle \<and>
     CollectAuthorityChain demo_cap_prims demo_leaf (IncludedResolver bundle) = Inr chain"
proof -
  have "list_all (\<lambda>(k, e). ContentHash e = k) demo_included"
    and leaf: "gm_get demo_included (ContentHash demo_leaf) = Some demo_leaf"
    and "is_ok (CollectChainBundle demo_cap_prims demo_leaf (gm_get demo_included) (\<lambda>_. None))"
    by code_simp+
  then obtain bd where ca: "content_addressed (gm_get demo_included)"
    and b: "CollectChainBundle demo_cap_prims demo_leaf (gm_get demo_included) (\<lambda>_. None) = Inr bd"
    using gm_get_mem by (fastforce simp: content_addressed_def list_all_iff is_ok_iff)
  from CollectChainBundle_complete [OF ca leaf b] b show ?thesis
    by blast
qed

end
