(* ===== verification/Store_Memory.thy ===== *)
theory Store_Memory
  imports Paths
begin

text \<open>
  The two store interfaces of \<^verbatim>\<open>core/store/store.go\<close> and their in-memory implementations
  (\<^verbatim>\<open>core/store/memory.go\<close>).

  A Go interface value is a record of its methods, each a function of the state \<open>'i\<close> of the
  value behind it; a method that mutates returns the new state last. The optional interface
  \<^verbatim>\<open>ContextualWriter\<close>, which callers find by a type assertion, is an optional field. Every method
  of the in-memory stores runs under the store's mutex, so it is one atomic step.

  The locales \<open>location_base\<close>, \<open>location_index\<close> and \<open>content_store\<close> state what a client of such
  an interface relies on. \<open>key\<close> gives the stored key of a path, or \<open>None\<close> when the index refuses
  it; \<open>abs\<close> reads the bindings off the state.
\<close>

section \<open>Events and mutation contexts (event.go, cascade.go)\<close>

datatype ChangeType = ChangeCreated | ChangeModified | ChangeDeleted

record MutationContext =
  AuthorHash :: hash
  CapabilityHash :: hash
  CallerCapabilityHash :: hash
  HandlerPattern :: string
  Operation :: string
  ChainID :: string
  ParentChainID :: string
  CascadeDepth :: "u64 option"
  Clock :: bytes
  ClockType :: string

record TreeChangeEvent =
  evt_Path :: string
  evt_PeerID :: string
  evt_Hash :: hash
  evt_PreviousHash :: hash
  evt_ChangeType :: ChangeType
  evt_Context :: "MutationContext option"

record ConsumerResult =
  Status :: nat
  Code :: string
  Message :: string

record CascadeHaltEntry =
  halt_Name :: string
  halt_Error :: ConsumerResult

record CascadeResult =
  BindingCommitted :: bool
  Completed :: "string list"
  Halted :: "CascadeHaltEntry list"
  Skipped :: "string list"
  cr_CascadeDepth :: u64

section \<open>Interfaces (store.go)\<close>

record LocationEntry =
  le_Path :: string
  le_Hash :: hash

text \<open>\<^verbatim>\<open>CasError\<close>: \<^verbatim>\<open>Actual\<close> is read only where \<^verbatim>\<open>NotFound\<close> is false. Other errors are \<open>Plain\<close>.\<close>

datatype index_error =
    CasNotFound
  | CasActual hash
  | Plain error

record 'i ContextualWriter =
  cw_SetWithContext ::
    "string \<Rightarrow> hash \<Rightarrow> MutationContext option \<Rightarrow> 'i \<Rightarrow> (CascadeResult option \<times> unit result) \<times> 'i"
  cw_RemoveWithContext ::
    "string \<Rightarrow> MutationContext option \<Rightarrow> 'i \<Rightarrow> (hash option \<times> CascadeResult option) \<times> 'i"

record 'i LocationIndex =
  li_Set :: "string \<Rightarrow> hash \<Rightarrow> 'i \<Rightarrow> unit result \<times> 'i"
  li_Get :: "string \<Rightarrow> 'i \<Rightarrow> hash option"
  li_Has :: "string \<Rightarrow> 'i \<Rightarrow> bool"
  li_Remove :: "string \<Rightarrow> 'i \<Rightarrow> hash option \<times> 'i"
  li_List :: "string \<Rightarrow> 'i \<Rightarrow> LocationEntry list"
  li_LenPrefix :: "string \<Rightarrow> 'i \<Rightarrow> nat"
  li_CompareAndSwap :: "string \<Rightarrow> hash \<Rightarrow> hash \<Rightarrow> 'i \<Rightarrow> (index_error + unit) \<times> 'i"
  li_CompareAndRemove :: "string \<Rightarrow> hash \<Rightarrow> 'i \<Rightarrow> (index_error + unit) \<times> 'i"
  li_Contextual :: "'i ContextualWriter option"

record 'c ContentStore =
  cs_Put :: "entity \<Rightarrow> 'c \<Rightarrow> hash result \<times> 'c"
  cs_Get :: "hash \<Rightarrow> 'c \<Rightarrow> entity option"
  cs_Has :: "hash \<Rightarrow> 'c \<Rightarrow> bool"
  cs_Remove :: "hash \<Rightarrow> 'c \<Rightarrow> bool \<times> 'c"
  cs_Len :: "'c \<Rightarrow> nat"

section \<open>The in-memory content store\<close>

record MemoryContentStore =
  entities :: "(hash, entity) gomap"

definition NewMemoryContentStore :: MemoryContentStore where
  "NewMemoryContentStore = \<lparr>entities = []\<rparr>"

definition mcs_Put ::
  "'p hash_prims_scheme \<Rightarrow> entity \<Rightarrow> MemoryContentStore \<Rightarrow> hash result \<times> MemoryContentStore" where
  "mcs_Put P e s =
     (case ComputeFormat P (Algorithm (ContentHash e)) (Type e) (Data e) of
        Inl err \<Rightarrow> (Inl err, s)
      | Inr computed \<Rightarrow>
          if \<not> IsZero (ContentHash e) \<and> ContentHash e \<noteq> computed then (Inl [], s)
          else (Inr computed,
                s\<lparr>entities := gm_set (entities s) computed (e\<lparr>ContentHash := computed\<rparr>)\<rparr>))"

definition mcs_Get :: "hash \<Rightarrow> MemoryContentStore \<Rightarrow> entity option" where
  "mcs_Get h s = gm_get (entities s) h"

definition mcs_Has :: "hash \<Rightarrow> MemoryContentStore \<Rightarrow> bool" where
  "mcs_Has h s \<longleftrightarrow> gm_get (entities s) h \<noteq> None"

definition mcs_Remove :: "hash \<Rightarrow> MemoryContentStore \<Rightarrow> bool \<times> MemoryContentStore" where
  "mcs_Remove h s =
     (if gm_get (entities s) h \<noteq> None then (True, s\<lparr>entities := gm_delete (entities s) h\<rparr>)
      else (False, s))"

definition mcs_Len :: "MemoryContentStore \<Rightarrow> nat" where
  "mcs_Len s = length (entities s)"

definition MemoryContentStore_iface :: "'p hash_prims_scheme \<Rightarrow> MemoryContentStore ContentStore" where
  "MemoryContentStore_iface P =
     \<lparr>cs_Put = mcs_Put P, cs_Get = mcs_Get, cs_Has = mcs_Has, cs_Remove = mcs_Remove, cs_Len = mcs_Len\<rparr>"

section \<open>The in-memory location index\<close>

record MemoryLocationIndex =
  paths :: "(string, hash) gomap"

definition NewMemoryLocationIndex :: MemoryLocationIndex where
  "NewMemoryLocationIndex = \<lparr>paths = []\<rparr>"

definition mli_Set :: "string \<Rightarrow> hash \<Rightarrow> MemoryLocationIndex \<Rightarrow> unit result \<times> MemoryLocationIndex" where
  "mli_Set path h i = (Inr (), i\<lparr>paths := gm_set (paths i) path h\<rparr>)"

definition mli_Get :: "string \<Rightarrow> MemoryLocationIndex \<Rightarrow> hash option" where
  "mli_Get path i = gm_get (paths i) path"

definition mli_Has :: "string \<Rightarrow> MemoryLocationIndex \<Rightarrow> bool" where
  "mli_Has path i \<longleftrightarrow> gm_get (paths i) path \<noteq> None"

definition mli_Remove :: "string \<Rightarrow> MemoryLocationIndex \<Rightarrow> hash option \<times> MemoryLocationIndex" where
  "mli_Remove path i =
     (case gm_get (paths i) path of
        None \<Rightarrow> (None, i)
      | Some h \<Rightarrow> (Some h, i\<lparr>paths := gm_delete (paths i) path\<rparr>))"

definition mli_CompareAndSwap ::
  "string \<Rightarrow> hash \<Rightarrow> hash \<Rightarrow> MemoryLocationIndex \<Rightarrow> (index_error + unit) \<times> MemoryLocationIndex" where
  "mli_CompareAndSwap path expected new i =
     (case gm_get (paths i) path of
        None \<Rightarrow> (Inl CasNotFound, i)
      | Some current \<Rightarrow>
          if current \<noteq> expected then (Inl (CasActual current), i)
          else (Inr (), i\<lparr>paths := gm_set (paths i) path new\<rparr>))"

definition mli_CompareAndRemove ::
  "string \<Rightarrow> hash \<Rightarrow> MemoryLocationIndex \<Rightarrow> (index_error + unit) \<times> MemoryLocationIndex" where
  "mli_CompareAndRemove path expected i =
     (case gm_get (paths i) path of
        None \<Rightarrow> (Inl CasNotFound, i)
      | Some current \<Rightarrow>
          if current \<noteq> expected then (Inl (CasActual current), i)
          else (Inr (), i\<lparr>paths := gm_delete (paths i) path\<rparr>))"

definition mli_List :: "string \<Rightarrow> MemoryLocationIndex \<Rightarrow> LocationEntry list" where
  "mli_List pre i =
     sort_key le_Path
       (map (\<lambda>(p, h). \<lparr>le_Path = p, le_Hash = h\<rparr>)
         (filter (\<lambda>(p, h). HasPrefix p pre) (paths i)))"

definition mli_LenPrefix :: "string \<Rightarrow> MemoryLocationIndex \<Rightarrow> nat" where
  "mli_LenPrefix pre i =
     (if pre = '''' then length (paths i)
      else length (filter (\<lambda>(p, h). HasPrefix p pre) (paths i)))"

definition MemoryLocationIndex_iface :: "MemoryLocationIndex LocationIndex" where
  "MemoryLocationIndex_iface =
     \<lparr>li_Set = mli_Set, li_Get = mli_Get, li_Has = mli_Has, li_Remove = mli_Remove,
      li_List = mli_List, li_LenPrefix = mli_LenPrefix,
      li_CompareAndSwap = mli_CompareAndSwap, li_CompareAndRemove = mli_CompareAndRemove,
      li_Contextual = None\<rparr>"

section \<open>Contract of a location index\<close>

text \<open>The bindings under a prefix, as a listing that is sorted by path and complete.\<close>

definition lists_under :: "LocationEntry list \<Rightarrow> string \<Rightarrow> (string \<rightharpoonup> hash) \<Rightarrow> bool" where
  "lists_under es pre m \<longleftrightarrow>
     sorted_wrt (<) (map le_Path es) \<and>
     (\<forall>p h. \<lparr>le_Path = p, le_Hash = h\<rparr> \<in> set es \<longleftrightarrow> m p = Some h \<and> HasPrefix p pre)"

text \<open>A history of conditional swaps on one path, and the swaps of it that succeeded.\<close>

fun run_swaps :: "'i LocationIndex \<Rightarrow> string \<Rightarrow> (hash \<times> hash) list \<Rightarrow> 'i \<Rightarrow> (hash \<times> hash) list \<times> 'i" where
  "run_swaps I p [] i = ([], i)"
| "run_swaps I p ((x, n) # ops) i =
     (case li_CompareAndSwap I p x n i of
        (r, i1) \<Rightarrow>
          (case run_swaps I p ops i1 of
             (won, i2) \<Rightarrow> (if r = Inr () then (x, n) # won else won, i2)))"

fun swap_chain :: "hash \<Rightarrow> (hash \<times> hash) list \<Rightarrow> hash \<Rightarrow> bool" where
  "swap_chain v [] w = (v = w)"
| "swap_chain v ((x, n) # ops) w = (x = v \<and> swap_chain n ops w)"

text \<open>
  What every index gives: reads see the abstract map, and a mutation that reports success has
  been applied, to its own key and to no other. \<open>view prefix\<close> is the prefix a listing filters by
  (\<open>None\<close>: refused, nothing is listed).
\<close>

locale location_base =
  fixes I :: "'i LocationIndex"
    and inv :: "'i \<Rightarrow> bool"
    and abs :: "'i \<Rightarrow> string \<rightharpoonup> hash"
    and key :: "string \<Rightarrow> string option"
    and view :: "string \<Rightarrow> string option"
  assumes get_abs: "inv i \<Longrightarrow> li_Get I p i = Option.bind (key p) (abs i)"
    and has_abs: "inv i \<Longrightarrow> li_Has I p i \<longleftrightarrow> li_Get I p i \<noteq> None"
    and list_abs: "inv i \<Longrightarrow> view q = Some v \<Longrightarrow> lists_under (li_List I q i) v (abs i)"
    and list_refused: "inv i \<Longrightarrow> view q = None \<Longrightarrow> li_List I q i = []"
    and len_abs: "inv i \<Longrightarrow> li_LenPrefix I q i = length (li_List I q i)"
    and set_ok: "inv i \<Longrightarrow> li_Set I p h i = (Inr (), i') \<Longrightarrow>
        inv i' \<and> (\<exists>k. key p = Some k \<and> abs i' = (abs i)(k \<mapsto> h))"
    and set_refused: "inv i \<Longrightarrow> key p = None \<Longrightarrow> \<exists>e. li_Set I p h i = (Inl e, i)"
    and remove_abs: "inv i \<Longrightarrow> li_Remove I p i = (r, i') \<Longrightarrow>
        inv i' \<and> r = li_Get I p i \<and>
        (case key p of None \<Rightarrow> i' = i | Some k \<Rightarrow> abs i' = (abs i)(k := None))"
    and cas_ok: "inv i \<Longrightarrow> li_CompareAndSwap I p x n i = (Inr (), i') \<Longrightarrow>
        inv i' \<and> (\<exists>k. key p = Some k \<and> abs i k = Some x \<and> abs i' = (abs i)(k \<mapsto> n))"
    and cas_err: "inv i \<Longrightarrow> li_CompareAndSwap I p x n i = (Inl e, i') \<Longrightarrow>
        i' = i \<and> li_Get I p i \<noteq> Some x \<and> (\<forall>a. e = CasActual a \<longrightarrow> li_Get I p i = Some a)"
    and car_ok: "inv i \<Longrightarrow> li_CompareAndRemove I p x i = (Inr (), i') \<Longrightarrow>
        inv i' \<and> (\<exists>k. key p = Some k \<and> abs i k = Some x \<and> abs i' = (abs i)(k := None))"
    and car_err: "inv i \<Longrightarrow> li_CompareAndRemove I p x i = (Inl e, i') \<Longrightarrow>
        i' = i \<and> li_Get I p i \<noteq> Some x \<and> (\<forall>a. e = CasActual a \<longrightarrow> li_Get I p i = Some a)"
begin

lemma get_after_set:
  assumes "inv i" and "li_Set I p h i = (Inr (), i')"
  shows "li_Get I q i' = (if key q = key p then Some h else li_Get I q i)"
proof -
  from set_ok [OF assms] obtain k where "inv i'" "key p = Some k" "abs i' = (abs i)(k \<mapsto> h)"
    by blast
  then show ?thesis
    using get_abs [OF \<open>inv i\<close>, of q] get_abs [OF \<open>inv i'\<close>, of q] by (cases "key q") auto
qed

lemma get_after_remove:
  assumes "inv i" and "li_Remove I p i = (r, i')"
  shows "li_Get I q i' = (if key q = key p then None else li_Get I q i) \<and> r = li_Get I p i"
proof -
  from remove_abs [OF assms] have "inv i'" "r = li_Get I p i"
    and m: "case key p of None \<Rightarrow> i' = i | Some k \<Rightarrow> abs i' = (abs i)(k := None)"
    by auto
  then show ?thesis
    using get_abs [OF \<open>inv i\<close>] get_abs [OF \<open>inv i'\<close>]
    by (cases "key p"; cases "key q") (auto split: option.splits)
qed

text \<open>A conditional swap succeeds exactly where the current binding is the expected one.\<close>

lemma cas_iff:
  assumes "inv i"
  shows "fst (li_CompareAndSwap I p x n i) = Inr () \<longleftrightarrow> li_Get I p i = Some x"
proof (cases "li_CompareAndSwap I p x n i")
  case (Pair r i')
  show ?thesis
  proof (cases r)
    case (Inl e)
    then show ?thesis using cas_err [OF assms] Pair by simp
  next
    case (Inr u)
    then show ?thesis using cas_ok [OF assms, of p x n i'] Pair get_abs [OF assms, of p] by auto
  qed
qed

lemma cas_get:
  assumes "inv i" and "li_CompareAndSwap I p x n i = (Inr (), i')"
  shows "inv i' \<and> li_Get I q i' = (if key q = key p then Some n else li_Get I q i)"
proof -
  from cas_ok [OF assms] obtain k where "inv i'" "key p = Some k" "abs i' = (abs i)(k \<mapsto> n)"
    by blast
  then show ?thesis
    using get_abs [OF \<open>inv i\<close>, of q] get_abs [OF \<open>inv i'\<close>, of q] by (cases "key q") auto
qed

text \<open>Of two swaps that expect the same binding, the second one loses and learns who won.\<close>

lemma cas_race:
  assumes "inv i" and "li_CompareAndSwap I p x a i = (Inr (), i1)" and "a \<noteq> x"
    and "li_CompareAndSwap I p x b i1 = (r, i2)"
  shows "\<exists>e. r = Inl e \<and> i2 = i1 \<and> li_Get I p i2 = Some a"
proof -
  have i1: "inv i1" and get: "li_Get I p i1 = Some a"
    using cas_get [OF assms(1,2), of p] by simp_all
  then have "r \<noteq> Inr ()"
    using cas_iff [OF i1, of p x b] assms(3,4) by simp
  then obtain e where r: "r = Inl e"
    by (cases r) auto
  then have "i2 = i1"
    using cas_err [OF i1, of p x b e i2] assms(4) by simp
  with r get show ?thesis
    by simp
qed

text \<open>
  Every history of conditional swaps on one path is linear: the swaps that succeeded, in order,
  lead from the first binding to the last, each starting where the one before it ended.
\<close>

lemma run_swaps_linear:
  assumes "inv i" and "li_Get I p i = Some v" and "run_swaps I p ops i = (won, i')"
  shows "inv i' \<and> (\<exists>w. swap_chain v won w \<and> li_Get I p i' = Some w) \<and> subseq won ops"
  using assms
proof (induction ops arbitrary: i v won)
  case (Cons op ops)
  obtain x n where op: "op = (x, n)" by (cases op)
  obtain r i1 where cas: "li_CompareAndSwap I p x n i = (r, i1)" by (cases "li_CompareAndSwap I p x n i")
  obtain won' where rest: "run_swaps I p ops i1 = (won', i')"
    and won: "won = (if r = Inr () then (x, n) # won' else won')"
    using Cons.prems(3) op cas by (auto split: prod.splits)
  show ?case
  proof (cases "r = Inr ()")
    case True
    then have "x = v" "inv i1" "li_Get I p i1 = Some n"
      using cas_iff [OF Cons.prems(1), of p x n] cas_get [OF Cons.prems(1), of p x n i1 p] cas Cons.prems(2)
      by auto
    with Cons.IH [OF _ _ rest, of n] True won op show ?thesis by simp
  next
    case False
    then have "i1 = i"
      using cas_err [OF Cons.prems(1), of p x n _ i1] cas by (cases r) auto
    with Cons.IH [OF _ _ rest, of v] Cons.prems False won op show ?thesis by (auto intro: list_emb_Cons)
  qed
qed simp

end

text \<open>The contract \<^verbatim>\<open>store.go\<close> documents for \<^verbatim>\<open>Set\<close>: an error means that nothing was committed.\<close>

locale location_index = location_base +
  assumes set_err: "inv i \<Longrightarrow> li_Set I p h i = (Inl e, i') \<Longrightarrow> inv i' \<and> abs i' = abs i"
begin

lemma set_iff_committed:
  assumes "inv i" and "li_Set I p h i = (r, i')"
  shows "inv i' \<and> li_Get I q i' = (if r = Inr () \<and> key q = key p then Some h else li_Get I q i)"
proof (cases r)
  case (Inl e)
  then have "inv i'" "abs i' = abs i"
    using set_err [OF assms(1), of p h e i'] assms(2) by simp_all
  then show ?thesis
    using Inl get_abs [OF \<open>inv i\<close>] get_abs [OF \<open>inv i'\<close>] by simp
next
  case (Inr u)
  then show ?thesis
    using set_ok [OF assms(1), of p h i'] get_after_set [OF assms(1), of p h i'] assms(2) by simp
qed

end

subsection \<open>The in-memory index meets it\<close>

definition mli_inv :: "MemoryLocationIndex \<Rightarrow> bool" where
  "mli_inv i \<longleftrightarrow> gm_wf (paths i)"

definition mli_abs :: "MemoryLocationIndex \<Rightarrow> string \<rightharpoonup> hash" where
  "mli_abs i = gm_get (paths i)"

lemmas mli_ops = MemoryLocationIndex_iface_def mli_Set_def mli_Get_def mli_Has_def mli_Remove_def
  mli_CompareAndSwap_def mli_CompareAndRemove_def

lemma distinct_map_sort_key: "distinct (map f (sort_key g xs)) \<longleftrightarrow> distinct (map f xs)"
  by (simp add: distinct_map)

lemma mli_List_under:
  assumes "mli_inv i"
  shows "lists_under (mli_List pre i) pre (mli_abs i)"
  unfolding lists_under_def
proof (intro conjI allI)
  let ?es = "map (\<lambda>(p, h). \<lparr>le_Path = p, le_Hash = h\<rparr>) (filter (\<lambda>(p, h). HasPrefix p pre) (paths i))"
  have paths: "map le_Path ?es = map fst (filter (\<lambda>(p, h). HasPrefix p pre) (paths i))"
    by (induction "paths i") auto
  have "distinct (map le_Path ?es)"
    unfolding paths using assms by (simp add: mli_inv_def gm_wf_def distinct_map_filter)
  then have "distinct (map le_Path (mli_List pre i))"
    unfolding mli_List_def by (simp only: distinct_map_sort_key)
  moreover have "sorted (map le_Path (mli_List pre i))"
    by (simp add: mli_List_def)
  ultimately show "sorted_wrt (<) (map le_Path (mli_List pre i))"
    by (simp add: strict_sorted_iff)
  show "\<lparr>le_Path = p, le_Hash = h\<rparr> \<in> set (mli_List pre i) \<longleftrightarrow> mli_abs i p = Some h \<and> HasPrefix p pre"
    for p h
    using assms by (auto simp: mli_List_def mli_abs_def mli_inv_def gm_get_iff)
qed

lemma mli_LenPrefix_List: "mli_LenPrefix pre i = length (mli_List pre i)"
  by (auto simp: mli_LenPrefix_def mli_List_def case_prod_unfold)

interpretation mli: location_index MemoryLocationIndex_iface mli_inv mli_abs Some Some
  by unfold_locales
    (auto simp: mli_ops mli_inv_def mli_abs_def gm_get_set_fun mli_LenPrefix_List fun_eq_iff
      intro: mli_List_under [unfolded mli_inv_def mli_abs_def] split: option.splits if_splits)

section \<open>Contract of a content store\<close>

text \<open>
  A content store is self-certifying: what is found under a hash has that hash recomputed from
  its type and data. A put under a false claim is refused and changes nothing.
\<close>

locale content_store =
  fixes P :: "'p hash_prims_scheme"
    and C :: "'c ContentStore"
    and inv :: "'c \<Rightarrow> bool"
    and abs :: "'c \<Rightarrow> hash \<rightharpoonup> entity"
  assumes cget_abs: "inv s \<Longrightarrow> cs_Get C h s = abs s h"
    and chas_abs: "inv s \<Longrightarrow> cs_Has C h s \<longleftrightarrow> abs s h \<noteq> None"
    and clen_abs: "inv s \<Longrightarrow> finite (dom (abs s)) \<and> cs_Len C s = card (dom (abs s))"
    and certified: "inv s \<Longrightarrow> abs s h = Some e \<Longrightarrow>
        ContentHash e = h \<and> ComputeFormat P (Algorithm h) (Type e) (Data e) = Inr h"
    and put_ok: "inv s \<Longrightarrow> cs_Put C e s = (Inr h, s') \<Longrightarrow>
        inv s' \<and> ComputeFormat P (Algorithm (ContentHash e)) (Type e) (Data e) = Inr h \<and>
        (abs s' = (abs s)(h \<mapsto> e\<lparr>ContentHash := h\<rparr>) \<or> abs s h \<noteq> None \<and> abs s' = abs s)"
    and put_err: "inv s \<Longrightarrow> cs_Put C e s = (Inl err, s') \<Longrightarrow> s' = s"
    and put_accepts: "inv s \<Longrightarrow>
        is_ok (fst (cs_Put C e s)) \<longleftrightarrow>
        (\<exists>h. ComputeFormat P (Algorithm (ContentHash e)) (Type e) (Data e) = Inr h \<and>
             (ContentHash e = zero_hash \<or> ContentHash e = h))"
    and cremove_abs: "inv s \<Longrightarrow> cs_Remove C h s = (b, s') \<Longrightarrow>
        inv s' \<and> b = (abs s h \<noteq> None) \<and> abs s' = (abs s)(h := None)"
begin

lemma get_certified:
  assumes "inv s" and "cs_Get C h s = Some e"
  shows "ContentHash e = h \<and> hash_Validate P (Type e) (Data e) h = Inr ()"
  using certified [OF assms(1), of h e] assms by (simp add: cget_abs hash_Validate_iff)

lemma get_after_put:
  assumes "inv s" and "cs_Put C e s = (Inr h, s')"
  shows "inv s' \<and> (\<exists>e'. cs_Get C h s' = Some e') \<and>
    (\<forall>h'. h' \<noteq> h \<longrightarrow> cs_Get C h' s' = cs_Get C h' s) \<and>
    (cs_Get C h s = None \<longrightarrow> cs_Get C h s' = Some (e\<lparr>ContentHash := h\<rparr>))"
  using put_ok [OF assms] assms(1) by (auto simp: cget_abs)

lemma put_again:
  assumes "inv s" and "cs_Put C e s = (Inr h, s')"
  shows "fst (cs_Put C e s') = Inr h"
proof -
  have s': "inv s'" and c: "ComputeFormat P (Algorithm (ContentHash e)) (Type e) (Data e) = Inr h"
    using put_ok [OF assms] by auto
  have "is_ok (fst (cs_Put C e s'))"
    using put_accepts [OF s', of e] put_accepts [OF assms(1), of e] assms(2) by simp
  then obtain h2 where "fst (cs_Put C e s') = Inr h2"
    by (auto simp: is_ok_iff)
  moreover from this have "h2 = h"
    using put_ok [OF s', of e h2 "snd (cs_Put C e s')"] c by (simp add: prod_eq_iff)
  ultimately show ?thesis
    by simp
qed

end

definition mcs_inv :: "'p hash_prims_scheme \<Rightarrow> MemoryContentStore \<Rightarrow> bool" where
  "mcs_inv P s \<longleftrightarrow> gm_wf (entities s) \<and>
     (\<forall>h e. gm_get (entities s) h = Some e \<longrightarrow>
        ContentHash e = h \<and> ComputeFormat P (Algorithm h) (Type e) (Data e) = Inr h)"

definition mcs_abs :: "MemoryContentStore \<Rightarrow> hash \<rightharpoonup> entity" where
  "mcs_abs s = gm_get (entities s)"

lemmas mcs_ops = MemoryContentStore_iface_def mcs_Put_def mcs_Get_def mcs_Has_def mcs_Remove_def
  mcs_Len_def

lemma mcs_Put_Inr:
  "mcs_Put P e s = (Inr h, s') \<longleftrightarrow>
     ComputeFormat P (Algorithm (ContentHash e)) (Type e) (Data e) = Inr h \<and>
     (ContentHash e = zero_hash \<or> ContentHash e = h) \<and>
     s' = s\<lparr>entities := gm_set (entities s) h (e\<lparr>ContentHash := h\<rparr>)\<rparr>"
  by (auto simp: mcs_Put_def IsZero_def split: sum.splits if_splits)

lemma mcs_Put_inv:
  assumes "mcs_inv P s" and "mcs_Put P e s = (Inr h, s')"
  shows "mcs_inv P s' \<and> mcs_abs s' = (mcs_abs s)(h \<mapsto> e\<lparr>ContentHash := h\<rparr>)"
proof -
  have c: "ComputeFormat P (Algorithm (ContentHash e)) (Type e) (Data e) = Inr h"
    and s': "s' = s\<lparr>entities := gm_set (entities s) h (e\<lparr>ContentHash := h\<rparr>)\<rparr>"
    using assms(2) by (simp_all add: mcs_Put_Inr)
  then show ?thesis
    using assms(1) ComputeFormat_Algorithm [OF c]
    by (auto simp: mcs_inv_def mcs_abs_def gm_get_set_fun)
qed

lemma gm_dom: "gm_wf m \<Longrightarrow> finite (dom (gm_get m)) \<and> length m = card (dom (gm_get m))"
proof
  assume "gm_wf m"
  have "dom (gm_get m) = fst ` set m"
    by (auto simp: gm_get_def [abs_def] dom_map_of_conv_image_fst)
  moreover have "card (fst ` set m) = length m"
    using \<open>gm_wf m\<close> distinct_card [of "map fst m"] by (simp add: gm_wf_def)
  ultimately show "finite (dom (gm_get m))" "length m = card (dom (gm_get m))"
    by simp_all
qed

interpretation mcs: content_store P "MemoryContentStore_iface P" "mcs_inv P" mcs_abs for P
proof unfold_locales
  fix s h e s' err b
  assume inv: "mcs_inv P s"
  show "cs_Get (MemoryContentStore_iface P) h s = mcs_abs s h"
    and "cs_Has (MemoryContentStore_iface P) h s \<longleftrightarrow> mcs_abs s h \<noteq> None"
    by (simp_all add: mcs_ops mcs_abs_def)
  show "finite (dom (mcs_abs s)) \<and> cs_Len (MemoryContentStore_iface P) s = card (dom (mcs_abs s))"
    using inv gm_dom [of "entities s"] by (simp add: mcs_ops mcs_abs_def mcs_inv_def)
  show "mcs_abs s h = Some e \<Longrightarrow>
      ContentHash e = h \<and> ComputeFormat P (Algorithm h) (Type e) (Data e) = Inr h"
    using inv by (simp add: mcs_abs_def mcs_inv_def)
  show "cs_Put (MemoryContentStore_iface P) e s = (Inr h, s') \<Longrightarrow>
      mcs_inv P s' \<and> ComputeFormat P (Algorithm (ContentHash e)) (Type e) (Data e) = Inr h \<and>
      (mcs_abs s' = (mcs_abs s)(h \<mapsto> e\<lparr>ContentHash := h\<rparr>) \<or> mcs_abs s h \<noteq> None \<and> mcs_abs s' = mcs_abs s)"
    using mcs_Put_inv [OF inv, of e h s'] by (simp add: MemoryContentStore_iface_def mcs_Put_Inr)
  show "cs_Put (MemoryContentStore_iface P) e s = (Inl err, s') \<Longrightarrow> s' = s"
    by (auto simp: mcs_ops split: sum.splits if_splits)
  show "is_ok (fst (cs_Put (MemoryContentStore_iface P) e s)) \<longleftrightarrow>
      (\<exists>h. ComputeFormat P (Algorithm (ContentHash e)) (Type e) (Data e) = Inr h \<and>
           (ContentHash e = zero_hash \<or> ContentHash e = h))"
    by (auto simp: mcs_ops IsZero_def split: sum.splits)
  show "cs_Remove (MemoryContentStore_iface P) h s = (b, s') \<Longrightarrow>
      mcs_inv P s' \<and> b = (mcs_abs s h \<noteq> None) \<and> mcs_abs s' = (mcs_abs s)(h := None)"
    using inv by (auto simp: mcs_ops mcs_abs_def mcs_inv_def fun_eq_iff split: if_splits)
qed

section \<open>Properties\<close>

inductive mcs_reachable :: "'p hash_prims_scheme \<Rightarrow> MemoryContentStore \<Rightarrow> bool" for P where
  mcs_new: "mcs_reachable P NewMemoryContentStore"
| mcs_put: "mcs_reachable P s \<Longrightarrow> mcs_reachable P (snd (mcs_Put P e s))"
| mcs_rem: "mcs_reachable P s \<Longrightarrow> mcs_reachable P (snd (mcs_Remove h s))"

lemma mcs_reachable_inv: "mcs_reachable P s \<Longrightarrow> mcs_inv P s"
proof (induction rule: mcs_reachable.induct)
  case mcs_new
  show ?case by (simp add: mcs_inv_def NewMemoryContentStore_def)
next
  case (mcs_put s e)
  then show ?case
    using mcs.put_err [of P s e] mcs_Put_inv [of P s e]
    by (cases "mcs_Put P e s"; cases "fst (mcs_Put P e s)") (auto simp: MemoryContentStore_iface_def)
next
  case (mcs_rem s h)
  then show ?case
    using mcs.cremove_abs [of P s h] by (cases "mcs_Remove h s") (auto simp: MemoryContentStore_iface_def)
qed

text \<open>
  C11. The in-memory content store is content-addressed: from any state reached by puts and
  removes, what \<^verbatim>\<open>Get(h)\<close> returns carries \<open>h\<close> and hashes to \<open>h\<close>; a put is accepted exactly when
  the hash can be computed and the claimed one is zero or equal to it; a refused put changes
  nothing, an accepted one is found under the hash it returned and disturbs no other entry.
\<close>

theorem content_store_self_certifying:
  assumes "mcs_reachable P s"
  shows "(\<forall>h e. mcs_Get h s = Some e \<longrightarrow>
            ContentHash e = h \<and> hash_Validate P (Type e) (Data e) h = Inr ()) \<and>
    (\<forall>e. is_ok (fst (mcs_Put P e s)) \<longleftrightarrow>
       (\<exists>h. ComputeFormat P (Algorithm (ContentHash e)) (Type e) (Data e) = Inr h \<and>
            (ContentHash e = zero_hash \<or> ContentHash e = h))) \<and>
    (\<forall>e err s'. mcs_Put P e s = (Inl err, s') \<longrightarrow> s' = s) \<and>
    (\<forall>e h s'. mcs_Put P e s = (Inr h, s') \<longrightarrow>
       mcs_Get h s' = Some (e\<lparr>ContentHash := h\<rparr>) \<and>
       (\<forall>h'. h' \<noteq> h \<longrightarrow> mcs_Get h' s' = mcs_Get h' s))"
proof -
  have inv: "mcs_inv P s"
    by (rule mcs_reachable_inv [OF assms])
  then show ?thesis
    using mcs.get_certified [OF inv] mcs.put_accepts [OF inv] mcs.put_err [OF inv]
    by (auto simp: MemoryContentStore_iface_def mcs_Put_Inr mcs_Get_def)
qed

theorem content_store_self_certifying_witness:
  "mcs_Get demo_entity_hash (snd (mcs_Put demo_hash_prims demo_entity NewMemoryContentStore)) = Some demo_entity \<and>
   hash_Validate demo_hash_prims (Type demo_entity) (Data demo_entity) demo_entity_hash = Inr ()"
proof -
  let ?s = "snd (mcs_Put demo_hash_prims demo_entity NewMemoryContentStore)"
  have "mcs_Get demo_entity_hash ?s = Some demo_entity"
    by code_simp
  moreover have "mcs_reachable demo_hash_prims ?s"
    by (intro mcs_put mcs_new)
  ultimately show ?thesis
    using content_store_self_certifying [of demo_hash_prims ?s] by blast
qed

end
