(* ===== verification/Store_Namespaced.thy ===== *)
theory Store_Namespaced
  imports Store_Memory
begin

text \<open>
  \<^verbatim>\<open>core/store/namespaced.go\<close>: a location index that qualifies every path with the local peer's
  namespace and refuses the malformed ones. The wrapper has no state of its own; the inner index
  is any \<open>LocationIndex\<close>.
\<close>

record 'i NamespacedIndex =
  ns_inner :: "'i LocationIndex"
  localNS :: string

definition NewNamespacedIndex :: "'i LocationIndex \<Rightarrow> string \<Rightarrow> 'i NamespacedIndex" where
  "NewNamespacedIndex inner ns = \<lparr>ns_inner = inner, localNS = ns\<rparr>"

definition canonicalize :: "'i NamespacedIndex \<Rightarrow> string \<Rightarrow> string" where
  "canonicalize n path =
     (if HasPrefix path ''/'' then path else ''/'' @ localNS n @ ''/'' @ path)"

definition canonicalizeChecked :: "'i NamespacedIndex \<Rightarrow> string \<Rightarrow> string option" where
  "canonicalizeChecked n path =
     (let apath = canonicalize n path in
      if ValidateAbsolutePath apath \<noteq> Inr () then None else Some apath)"

definition errInvalidPath :: "string \<Rightarrow> error" where
  "errInvalidPath path = []"

section \<open>The LocationIndex methods\<close>

definition ns_Set :: "'i NamespacedIndex \<Rightarrow> string \<Rightarrow> hash \<Rightarrow> 'i \<Rightarrow> unit result \<times> 'i" where
  "ns_Set n path h i =
     (case canonicalizeChecked n path of
        None \<Rightarrow> (Inl (errInvalidPath path), i)
      | Some apath \<Rightarrow> li_Set (ns_inner n) apath h i)"

definition ns_SetWithContext ::
  "'i NamespacedIndex \<Rightarrow> string \<Rightarrow> hash \<Rightarrow> MutationContext option \<Rightarrow> 'i \<Rightarrow>
     (CascadeResult option \<times> unit result) \<times> 'i" where
  "ns_SetWithContext n path h ctx i =
     (case canonicalizeChecked n path of
        None \<Rightarrow> ((None, Inl (errInvalidPath path)), i)
      | Some apath \<Rightarrow>
          (case li_Contextual (ns_inner n) of
             Some cw \<Rightarrow> cw_SetWithContext cw apath h ctx i
           | None \<Rightarrow> (case li_Set (ns_inner n) apath h i of (r, i') \<Rightarrow> ((None, r), i'))))"

definition ns_Get :: "'i NamespacedIndex \<Rightarrow> string \<Rightarrow> 'i \<Rightarrow> hash option" where
  "ns_Get n path i =
     (case canonicalizeChecked n path of None \<Rightarrow> None | Some apath \<Rightarrow> li_Get (ns_inner n) apath i)"

definition ns_Has :: "'i NamespacedIndex \<Rightarrow> string \<Rightarrow> 'i \<Rightarrow> bool" where
  "ns_Has n path i =
     (case canonicalizeChecked n path of None \<Rightarrow> False | Some apath \<Rightarrow> li_Has (ns_inner n) apath i)"

definition ns_Remove :: "'i NamespacedIndex \<Rightarrow> string \<Rightarrow> 'i \<Rightarrow> hash option \<times> 'i" where
  "ns_Remove n path i =
     (case canonicalizeChecked n path of
        None \<Rightarrow> (None, i) | Some apath \<Rightarrow> li_Remove (ns_inner n) apath i)"

definition ns_RemoveWithContext ::
  "'i NamespacedIndex \<Rightarrow> string \<Rightarrow> MutationContext option \<Rightarrow> 'i \<Rightarrow>
     (hash option \<times> CascadeResult option) \<times> 'i" where
  "ns_RemoveWithContext n path ctx i =
     (case canonicalizeChecked n path of
        None \<Rightarrow> ((None, None), i)
      | Some apath \<Rightarrow>
          (case li_Contextual (ns_inner n) of
             Some cw \<Rightarrow> cw_RemoveWithContext cw apath ctx i
           | None \<Rightarrow> (case li_Remove (ns_inner n) apath i of (r, i') \<Rightarrow> ((r, None), i'))))"

definition ns_List :: "'i NamespacedIndex \<Rightarrow> string \<Rightarrow> 'i \<Rightarrow> LocationEntry list" where
  "ns_List n pre i =
     (if pre = '''' \<or> pre = ''/'' then li_List (ns_inner n) '''' i
      else (case canonicalizeChecked n pre of
              None \<Rightarrow> [] | Some apath \<Rightarrow> li_List (ns_inner n) apath i))"

definition ns_LenPrefix :: "'i NamespacedIndex \<Rightarrow> string \<Rightarrow> 'i \<Rightarrow> nat" where
  "ns_LenPrefix n pre i =
     (if pre = '''' \<or> pre = ''/'' then li_LenPrefix (ns_inner n) '''' i
      else (case canonicalizeChecked n pre of
              None \<Rightarrow> 0 | Some apath \<Rightarrow> li_LenPrefix (ns_inner n) apath i))"

definition ns_CompareAndSwap ::
  "'i NamespacedIndex \<Rightarrow> string \<Rightarrow> hash \<Rightarrow> hash \<Rightarrow> 'i \<Rightarrow> (index_error + unit) \<times> 'i" where
  "ns_CompareAndSwap n path expected new i =
     (case canonicalizeChecked n path of
        None \<Rightarrow> (Inl (Plain (errInvalidPath path)), i)
      | Some apath \<Rightarrow> li_CompareAndSwap (ns_inner n) apath expected new i)"

definition ns_CompareAndRemove ::
  "'i NamespacedIndex \<Rightarrow> string \<Rightarrow> hash \<Rightarrow> 'i \<Rightarrow> (index_error + unit) \<times> 'i" where
  "ns_CompareAndRemove n path expected i =
     (case canonicalizeChecked n path of
        None \<Rightarrow> (Inl (Plain (errInvalidPath path)), i)
      | Some apath \<Rightarrow> li_CompareAndRemove (ns_inner n) apath expected i)"

definition NamespacedIndex_iface :: "'i NamespacedIndex \<Rightarrow> 'i LocationIndex" where
  "NamespacedIndex_iface n =
     \<lparr>li_Set = ns_Set n, li_Get = ns_Get n, li_Has = ns_Has n, li_Remove = ns_Remove n,
      li_List = ns_List n, li_LenPrefix = ns_LenPrefix n,
      li_CompareAndSwap = ns_CompareAndSwap n, li_CompareAndRemove = ns_CompareAndRemove n,
      li_Contextual = Some \<lparr>cw_SetWithContext = ns_SetWithContext n,
                            cw_RemoveWithContext = ns_RemoveWithContext n\<rparr>\<rparr>"

section \<open>The namespace-aware methods\<close>

definition GetNS :: "'i NamespacedIndex \<Rightarrow> string \<Rightarrow> string \<Rightarrow> 'i \<Rightarrow> hash option" where
  "GetNS n ns path i = li_Get (ns_inner n) (''/'' @ ns @ ''/'' @ path) i"

definition SetNS :: "'i NamespacedIndex \<Rightarrow> string \<Rightarrow> string \<Rightarrow> hash \<Rightarrow> 'i \<Rightarrow> unit result \<times> 'i" where
  "SetNS n ns path h i = li_Set (ns_inner n) (''/'' @ ns @ ''/'' @ path) h i"

definition HasNS :: "'i NamespacedIndex \<Rightarrow> string \<Rightarrow> string \<Rightarrow> 'i \<Rightarrow> bool" where
  "HasNS n ns path i = li_Has (ns_inner n) (''/'' @ ns @ ''/'' @ path) i"

definition RemoveNS :: "'i NamespacedIndex \<Rightarrow> string \<Rightarrow> string \<Rightarrow> 'i \<Rightarrow> hash option \<times> 'i" where
  "RemoveNS n ns path i = li_Remove (ns_inner n) (''/'' @ ns @ ''/'' @ path) i"

definition ListNS :: "'i NamespacedIndex \<Rightarrow> string \<Rightarrow> string \<Rightarrow> 'i \<Rightarrow> LocationEntry list" where
  "ListNS n ns pre i = li_List (ns_inner n) (''/'' @ ns @ ''/'' @ pre) i"

definition Qualify :: "'i NamespacedIndex \<Rightarrow> string \<Rightarrow> string" where
  "Qualify n path = canonicalize n path"

definition QualifyTo :: "'i NamespacedIndex \<Rightarrow> string \<Rightarrow> string \<Rightarrow> string" where
  "QualifyTo n ns path = ''/'' @ ns @ ''/'' @ path"

section \<open>The wrapper keeps the contract of the index below it\<close>

lemmas ns_ops = NamespacedIndex_iface_def ns_Set_def ns_Get_def ns_Has_def ns_Remove_def ns_List_def
  ns_LenPrefix_def ns_CompareAndSwap_def ns_CompareAndRemove_def

definition ns_view :: "'i NamespacedIndex \<Rightarrow> string \<Rightarrow> string option" where
  "ns_view n q = (if q = '''' \<or> q = ''/'' then Some '''' else canonicalizeChecked n q)"

text \<open>The wrapper over an index whose keys are the paths themselves, for a local namespace.\<close>

locale ns_wrapper = location_base I inv abs Some Some
  for I :: "'i LocationIndex" and inv abs +
  fixes ns :: string

sublocale ns_wrapper \<subseteq> wrapped: location_base
  "NamespacedIndex_iface (NewNamespacedIndex I ns)" inv abs
  "canonicalizeChecked (NewNamespacedIndex I ns)" "ns_view (NewNamespacedIndex I ns)"
proof unfold_locales
  fix i p h i' r x n' e q v
  let ?n = "NewNamespacedIndex I ns"
  let ?N = "NamespacedIndex_iface ?n"
  have [simp]: "ns_inner ?n = I"
    by (simp add: NewNamespacedIndex_def)
  assume inv: "inv i"
  show "li_Get ?N p i = Option.bind (canonicalizeChecked ?n p) (abs i)"
    using get_abs [OF inv] by (simp add: ns_ops split: option.split)
  show "li_Has ?N p i \<longleftrightarrow> li_Get ?N p i \<noteq> None"
    using has_abs [OF inv] by (simp add: ns_ops split: option.split)
  show "ns_view ?n q = Some v \<Longrightarrow> lists_under (li_List ?N q i) v (abs i)"
    using list_abs [OF inv] by (auto simp: ns_ops ns_view_def split: if_splits)
  show "ns_view ?n q = None \<Longrightarrow> li_List ?N q i = []"
    by (auto simp: ns_ops ns_view_def split: if_splits)
  show "li_LenPrefix ?N q i = length (li_List ?N q i)"
    using len_abs [OF inv] by (auto simp: ns_ops split: option.split)
  show "li_Set ?N p h i = (Inr (), i') \<Longrightarrow>
      inv i' \<and> (\<exists>k. canonicalizeChecked ?n p = Some k \<and> abs i' = (abs i)(k \<mapsto> h))"
    using set_ok [OF inv, of _ h i'] by (auto simp: ns_ops split: option.splits)
  show "canonicalizeChecked ?n p = None \<Longrightarrow> \<exists>e. li_Set ?N p h i = (Inl e, i)"
    by (simp add: ns_ops)
  show "li_Remove ?N p i = (r, i') \<Longrightarrow>
      inv i' \<and> r = li_Get ?N p i \<and>
      (case canonicalizeChecked ?n p of None \<Rightarrow> i' = i | Some k \<Rightarrow> abs i' = (abs i)(k := None))"
    using remove_abs [OF inv, of _ r i'] inv by (auto simp: ns_ops split: option.splits)
  show "li_CompareAndSwap ?N p x n' i = (Inr (), i') \<Longrightarrow>
      inv i' \<and> (\<exists>k. canonicalizeChecked ?n p = Some k \<and> abs i k = Some x \<and> abs i' = (abs i)(k \<mapsto> n'))"
    using cas_ok [OF inv, of _ x n' i'] by (auto simp: ns_ops split: option.splits)
  show "li_CompareAndSwap ?N p x n' i = (Inl e, i') \<Longrightarrow>
      i' = i \<and> li_Get ?N p i \<noteq> Some x \<and> (\<forall>a. e = CasActual a \<longrightarrow> li_Get ?N p i = Some a)"
    using cas_err [OF inv, of _ x n' e i'] by (auto simp: ns_ops split: option.splits)
  show "li_CompareAndRemove ?N p x i = (Inr (), i') \<Longrightarrow>
      inv i' \<and> (\<exists>k. canonicalizeChecked ?n p = Some k \<and> abs i k = Some x \<and> abs i' = (abs i)(k := None))"
    using car_ok [OF inv, of _ x i'] by (auto simp: ns_ops split: option.splits)
  show "li_CompareAndRemove ?N p x i = (Inl e, i') \<Longrightarrow>
      i' = i \<and> li_Get ?N p i \<noteq> Some x \<and> (\<forall>a. e = CasActual a \<longrightarrow> li_Get ?N p i = Some a)"
    using car_err [OF inv, of _ x e i'] by (auto simp: ns_ops split: option.splits)
qed

locale ns_wrapper_index = ns_wrapper I inv abs ns + location_index I inv abs Some Some
  for I :: "'i LocationIndex" and inv abs ns

sublocale ns_wrapper_index \<subseteq> wrapped: location_index
  "NamespacedIndex_iface (NewNamespacedIndex I ns)" inv abs
  "canonicalizeChecked (NewNamespacedIndex I ns)" "ns_view (NewNamespacedIndex I ns)"
proof unfold_locales
  fix i p h e i'
  assume "inv i" and "li_Set (NamespacedIndex_iface (NewNamespacedIndex I ns)) p h i = (Inl e, i')"
  then show "inv i' \<and> abs i' = abs i"
    using set_err [of i _ h e i'] by (auto simp: ns_ops NewNamespacedIndex_def split: option.splits)
qed

text \<open>The namespaced in-memory index of the peer \<open>ns\<close>.\<close>

abbreviation mem_ns :: "string \<Rightarrow> MemoryLocationIndex NamespacedIndex" where
  "mem_ns ns \<equiv> NewNamespacedIndex MemoryLocationIndex_iface ns"

interpretation nsmem: ns_wrapper_index MemoryLocationIndex_iface mli_inv mli_abs ns for ns
  by unfold_locales

section \<open>Properties\<close>

lemma canonicalizeChecked_Some:
  "canonicalizeChecked n p = Some k \<longleftrightarrow> k = canonicalize n p \<and> ValidateAbsolutePath k = Inr ()"
  by (auto simp: canonicalizeChecked_def Let_def)

lemma valid_HasPrefix: "ValidateAbsolutePath k = Inr () \<Longrightarrow> HasPrefix k ''/''"
  by (simp add: ValidateAbsolutePath_def split: if_splits)

lemma canonicalizeChecked_absolute:
  "HasPrefix p ''/'' \<Longrightarrow> canonicalizeChecked n p = Some k \<longleftrightarrow> k = p \<and> ValidateAbsolutePath p = Inr ()"
  by (auto simp: canonicalizeChecked_Some canonicalize_def)

text \<open>The states that peers sharing one in-memory index reach through their namespaced views.\<close>

inductive ns_reachable :: "MemoryLocationIndex \<Rightarrow> bool" where
  nsr_new: "ns_reachable NewMemoryLocationIndex"
| nsr_set: "ns_reachable i \<Longrightarrow> ns_reachable (snd (ns_Set (mem_ns ns) p h i))"
| nsr_remove: "ns_reachable i \<Longrightarrow> ns_reachable (snd (ns_Remove (mem_ns ns) p i))"
| nsr_cas: "ns_reachable i \<Longrightarrow> ns_reachable (snd (ns_CompareAndSwap (mem_ns ns) p x h i))"
| nsr_car: "ns_reachable i \<Longrightarrow> ns_reachable (snd (ns_CompareAndRemove (mem_ns ns) p x i))"

definition keys_valid :: "MemoryLocationIndex \<Rightarrow> bool" where
  "keys_valid i \<longleftrightarrow> mli_inv i \<and> (\<forall>k. mli_abs i k \<noteq> None \<longrightarrow> ValidateAbsolutePath k = Inr ())"

lemma keys_valid_upd:
  "keys_valid i \<Longrightarrow> mli_inv i' \<Longrightarrow> canonicalizeChecked n p = Some k \<Longrightarrow> mli_abs i' = (mli_abs i)(k := v) \<Longrightarrow>
   keys_valid i'"
  by (auto simp: keys_valid_def canonicalizeChecked_Some)

lemma keys_valid_same: "keys_valid i \<Longrightarrow> mli_inv i' \<Longrightarrow> mli_abs i' = mli_abs i \<Longrightarrow> keys_valid i'"
  by (simp add: keys_valid_def)

lemma ns_reachable_keys_valid: "ns_reachable i \<Longrightarrow> keys_valid i"
proof (induction rule: ns_reachable.induct)
  case nsr_new
  show ?case by (simp add: keys_valid_def mli_inv_def mli_abs_def NewMemoryLocationIndex_def)
next
  case (nsr_set i ns p h)
  obtain r i' where r: "ns_Set (mem_ns ns) p h i = (r, i')" by (cases "ns_Set (mem_ns ns) p h i")
  have inv: "mli_inv i" using nsr_set by (simp add: keys_valid_def)
  show ?case
    using nsmem.wrapped.set_ok [OF inv, of ns p h i'] nsmem.wrapped.set_err [OF inv, of ns p h _ i'] nsr_set.IH r
    by (cases r) (auto simp: NamespacedIndex_iface_def intro: keys_valid_upd keys_valid_same)
next
  case (nsr_remove i ns p)
  obtain r i' where r: "ns_Remove (mem_ns ns) p i = (r, i')" by (cases "ns_Remove (mem_ns ns) p i")
  have inv: "mli_inv i" using nsr_remove by (simp add: keys_valid_def)
  show ?case
    using nsmem.wrapped.remove_abs [OF inv, of ns p r i'] nsr_remove.IH r
    by (auto simp: NamespacedIndex_iface_def split: option.splits intro: keys_valid_upd)
next
  case (nsr_cas i ns p x h)
  obtain r i' where r: "ns_CompareAndSwap (mem_ns ns) p x h i = (r, i')"
    by (cases "ns_CompareAndSwap (mem_ns ns) p x h i")
  have inv: "mli_inv i" using nsr_cas by (simp add: keys_valid_def)
  show ?case
    using nsmem.wrapped.cas_ok [OF inv, of ns p x h i'] nsmem.wrapped.cas_err [OF inv, of ns p x h _ i'] nsr_cas.IH r
    by (cases r) (auto simp: NamespacedIndex_iface_def intro: keys_valid_upd)
next
  case (nsr_car i ns p x)
  obtain r i' where r: "ns_CompareAndRemove (mem_ns ns) p x i = (r, i')"
    by (cases "ns_CompareAndRemove (mem_ns ns) p x i")
  have inv: "mli_inv i" using nsr_car by (simp add: keys_valid_def)
  show ?case
    using nsmem.wrapped.car_ok [OF inv, of ns p x i'] nsmem.wrapped.car_err [OF inv, of ns p x _ i'] nsr_car.IH r
    by (cases r) (auto simp: NamespacedIndex_iface_def intro: keys_valid_upd)
qed

definition demo_peer :: string where
  "demo_peer = replicate 46 CHR ''a''"

definition demo_peer2 :: string where
  "demo_peer2 = replicate 46 CHR ''b''"

text \<open>
  Whatever sequence of writes, removals and conditional mutations peers make through their
  namespaced views of one index, on whatever (untrusted) paths, every bound path is a well-formed
  absolute path, every view reads it back, and the universal listing of every view is sorted and
  is exactly the readable absolute paths.
\<close>

theorem namespaced_keys_valid:
  assumes "ns_reachable i"
  shows "(\<forall>k h. mli_Get k i = Some h \<longrightarrow>
            ValidateAbsolutePath k = Inr () \<and> ns_Get (mem_ns ns) k i = Some h) \<and>
    sorted_wrt (<) (map le_Path (ns_List (mem_ns ns) '''' i)) \<and>
    (\<forall>k h. \<lparr>le_Path = k, le_Hash = h\<rparr> \<in> set (ns_List (mem_ns ns) '''' i) \<longleftrightarrow>
       IsAbsolute k \<and> ns_Get (mem_ns ns) k i = Some h) \<and>
    ns_LenPrefix (mem_ns ns) '''' i = length (ns_List (mem_ns ns) '''' i)"
proof -
  have kv: "keys_valid i" and inv: "mli_inv i"
    using ns_reachable_keys_valid [OF assms] by (simp_all add: keys_valid_def)
  have get: "ns_Get (mem_ns ns) k i = Option.bind (canonicalizeChecked (mem_ns ns) k) (mli_abs i)" for k
    using nsmem.wrapped.get_abs [OF inv, of ns k] by (simp add: NamespacedIndex_iface_def)
  have rd: "IsAbsolute k \<and> ns_Get (mem_ns ns) k i = Some h \<longleftrightarrow> mli_abs i k = Some h" for k h
    using kv unfolding get IsAbsolute_def keys_valid_def
    by (cases "canonicalizeChecked (mem_ns ns) k")
      (auto simp: canonicalizeChecked_absolute valid_HasPrefix canonicalizeChecked_def Let_def canonicalize_def
        split: if_splits)
  have lst: "lists_under (ns_List (mem_ns ns) '''' i) '''' (mli_abs i)"
    using nsmem.wrapped.list_abs [OF inv, of ns "''''" "''''"]
    by (simp add: NamespacedIndex_iface_def ns_view_def)
  have len: "ns_LenPrefix (mem_ns ns) '''' i = length (ns_List (mem_ns ns) '''' i)"
    using nsmem.wrapped.len_abs [OF inv, of ns "''''"] by (simp add: NamespacedIndex_iface_def)
  have "mli_Get k i = mli_abs i k" for k
    by (simp add: mli_Get_def mli_abs_def)
  then show ?thesis
    using kv lst len rd by (auto simp: keys_valid_def lists_under_def)
qed

theorem namespaced_keys_valid_witness:
  "ns_Get (mem_ns demo_peer2) (''/'' @ demo_peer @ ''/x'')
     (snd (ns_Set (mem_ns demo_peer) ''x'' zero_hash NewMemoryLocationIndex)) = Some zero_hash"
proof -
  let ?i = "snd (ns_Set (mem_ns demo_peer) ''x'' zero_hash NewMemoryLocationIndex)"
  have "ns_reachable ?i" by (intro nsr_set nsr_new)
  moreover have "mli_Get (''/'' @ demo_peer @ ''/x'') ?i = Some zero_hash" by code_simp
  ultimately show ?thesis
    using namespaced_keys_valid [of ?i demo_peer2] by blast
qed

text \<open>
  Peers are isolated: a binding that one peer writes under a relative path is read back by
  every view of the index under the qualified path, and leaves every relative path of another
  peer as it was.
\<close>

theorem namespaced_isolation:
  assumes "mli_inv i" and "ns_Set (mem_ns a) p h i = (Inr (), i')"
    and "\<not> IsAbsolute p" and "slash \<notin> set a" and "slash \<notin> set b" and "a \<noteq> b"
  shows "ns_Get (mem_ns c) (QualifyTo (mem_ns c) a p) i' = Some h \<and>
    (\<forall>q. \<not> IsAbsolute q \<longrightarrow> ns_Get (mem_ns b) q i' = ns_Get (mem_ns b) q i)"
proof -
  obtain k where k: "canonicalizeChecked (mem_ns a) p = Some k" and inv': "mli_inv i'"
    and upd: "mli_abs i' = (mli_abs i)(k \<mapsto> h)"
    using nsmem.wrapped.set_ok [OF assms(1), of a p h i'] assms(2) by (auto simp: NamespacedIndex_iface_def)
  then have k': "k = ''/'' @ a @ ''/'' @ p" and val: "ValidateAbsolutePath k = Inr ()"
    using assms(3) by (auto simp: canonicalizeChecked_Some canonicalize_def IsAbsolute_def NewNamespacedIndex_def)
  have get: "mli_inv j \<Longrightarrow> ns_Get (mem_ns n) q j = Option.bind (canonicalizeChecked (mem_ns n) q) (mli_abs j)"
    for n q j
    using nsmem.wrapped.get_abs [of j n q] by (simp add: NamespacedIndex_iface_def)
  have "canonicalizeChecked (mem_ns c) (QualifyTo (mem_ns c) a p) = Some k"
    using val k' by (simp add: canonicalizeChecked_Some canonicalize_def QualifyTo_def)
  moreover have "canonicalizeChecked (mem_ns b) q \<noteq> Some k" if "\<not> IsAbsolute q" for q
    using that k' assms(4-6) split_slash_unique [of b q a p]
    by (auto simp: canonicalizeChecked_Some canonicalize_def IsAbsolute_def NewNamespacedIndex_def)
  ultimately show ?thesis
    unfolding get [OF inv'] get [OF assms(1)] upd
    by (auto split: bind_split)
qed

theorem namespaced_isolation_witness:
  "ns_Get (mem_ns demo_peer2) ''x'' (snd (ns_Set (mem_ns demo_peer) ''x'' zero_hash NewMemoryLocationIndex)) = None"
proof -
  let ?i = "snd (ns_Set (mem_ns demo_peer) ''x'' zero_hash NewMemoryLocationIndex)"
  have "mli_inv NewMemoryLocationIndex"
    by (simp add: mli_inv_def NewMemoryLocationIndex_def)
  moreover have "ns_Set (mem_ns demo_peer) ''x'' zero_hash NewMemoryLocationIndex = (Inr (), ?i)"
    by code_simp
  moreover have "\<not> IsAbsolute ''x''" "slash \<notin> set demo_peer" "slash \<notin> set demo_peer2" "demo_peer \<noteq> demo_peer2"
    by code_simp+
  moreover have "ns_Get (mem_ns demo_peer2) ''x'' NewMemoryLocationIndex = None"
    by code_simp
  ultimately show ?thesis
    using namespaced_isolation [of NewMemoryLocationIndex demo_peer "''x''" zero_hash ?i demo_peer2 demo_peer]
    by metis
qed

text \<open>
  Conditional swaps never lose an update: in any history of swaps on one path, made through a
  namespaced view, the successful ones form a chain from the first binding to the final one, each
  expecting exactly what the one before it wrote.
\<close>

theorem namespaced_swaps_linear:
  assumes "mli_inv i" and "ns_Get (mem_ns ns) p i = Some v"
    and "run_swaps (NamespacedIndex_iface (mem_ns ns)) p ops i = (won, i')"
  shows "\<exists>w. swap_chain v won w \<and> ns_Get (mem_ns ns) p i' = Some w \<and> subseq won ops \<and> mli_inv i'"
  using nsmem.wrapped.run_swaps_linear [OF assms(1) _ assms(3), of v] assms(2)
  by (auto simp: NamespacedIndex_iface_def)

theorem namespaced_swaps_linear_witness:
  "\<exists>w. swap_chain zero_hash [(zero_hash, demo_entity_hash)] w \<and> w = demo_entity_hash"
proof -
  let ?i = "snd (ns_Set (mem_ns demo_peer) ''x'' zero_hash NewMemoryLocationIndex)"
  let ?ops = "[(zero_hash, demo_entity_hash), (zero_hash, zero_hash)]"
  let ?N = "NamespacedIndex_iface (mem_ns demo_peer)"
  have "mli_inv ?i"
    using ns_reachable_keys_valid [OF nsr_set [OF nsr_new]] by (simp add: keys_valid_def)
  moreover have "ns_Get (mem_ns demo_peer) ''x'' ?i = Some zero_hash" by code_simp
  moreover have won: "run_swaps ?N ''x'' ?ops ?i = ([(zero_hash, demo_entity_hash)], snd (run_swaps ?N ''x'' ?ops ?i))"
    by code_simp
  ultimately obtain w where "swap_chain zero_hash [(zero_hash, demo_entity_hash)] w"
    using namespaced_swaps_linear [of ?i demo_peer "''x''" zero_hash ?ops] by blast
  then show ?thesis by simp
qed

text \<open>
  The explicit-namespace writer is not behind the same boundary: \<^verbatim>\<open>SetNS\<close> with a namespace
  that is no peer id commits a binding which the checked methods of the same index neither read,
  nor list by its own path, nor remove.
\<close>

theorem SetNS_bypasses_validation:
  assumes "ValidateAbsolutePath (QualifyTo (mem_ns me) ns p) \<noteq> Inr ()"
  shows "\<exists>i'. SetNS (mem_ns me) ns p h i = (Inr (), i') \<and>
    GetNS (mem_ns me) ns p i' = Some h \<and>
    ns_Get (mem_ns me) (QualifyTo (mem_ns me) ns p) i' = None \<and>
    ns_Remove (mem_ns me) (QualifyTo (mem_ns me) ns p) i' = (None, i') \<and>
    ns_Set (mem_ns me) (QualifyTo (mem_ns me) ns p) h i' = (Inl [], i')"
  using assms
  by (simp add: SetNS_def GetNS_def QualifyTo_def ns_ops mli_ops NewNamespacedIndex_def errInvalidPath_def
      canonicalizeChecked_def canonicalize_def Let_def)

theorem SetNS_bypasses_validation_witness:
  "ns_Get (mem_ns demo_peer) ''/local/x'' (snd (SetNS (mem_ns demo_peer) ''local'' ''x'' zero_hash NewMemoryLocationIndex)) = None"
proof -
  have q: "QualifyTo (mem_ns demo_peer) ''local'' ''x'' = ''/local/x''"
    by (simp add: QualifyTo_def)
  have "ValidateAbsolutePath ''/local/x'' \<noteq> Inr ()" by code_simp
  then show ?thesis
    using SetNS_bypasses_validation [of demo_peer "''local''" "''x''" zero_hash NewMemoryLocationIndex] q
    by auto
qed

end
