(* ===== verification/Store_Notifying.thy ===== *)
theory Store_Notifying
  imports Store_Namespaced
begin

text \<open>
  Change notification and the write cascade: \<^verbatim>\<open>core/store/cascade.go\<close>, \<^verbatim>\<open>notifying.go\<close> and
  \<^verbatim>\<open>cascade_tracker.go\<close>.

  The state of a \<^verbatim>\<open>NotifyingLocationIndex\<close> is a record: the state of the inner index, the buffered
  channel (its contents and its capacity), whether \<^verbatim>\<open>done\<close> is closed, the counters and switches,
  and \<open>world\<close>, everything else of the process that hooks may read or write. The hooks are a
  separate argument: they are registered before the peer serves. A hook is a callback that gets
  the event and the whole state and may change it, also by writing to the index again. Logging is
  not modelled. Time is an argument.
\<close>

section \<open>Patterns and cascade results (cascade.go)\<close>

record 'n NamedSyncHook =
  hook_Name :: string
  hook_Pattern :: string
  hook_Fn :: "TreeChangeEvent \<Rightarrow> 'n \<Rightarrow> ConsumerResult option \<times> 'n"

definition matchSuffix :: "string \<Rightarrow> string \<Rightarrow> bool" where
  "matchSuffix pattern suff =
     (if pattern = ''*'' then True
      else if length pattern \<ge> 2 \<and> drop (length pattern - 2) pattern = ''/*'' then
        let pre = take (length pattern - 1) pattern in
        if length suff \<ge> length pre \<and> take (length pre) suff = pre then True
        else suff = take (length pattern - 2) pattern
      else pattern = suff)"

definition splitNamespaceForMatch :: "string \<Rightarrow> string \<times> string" where
  "splitNamespaceForMatch path =
     (if length path = 0 \<or> path ! 0 \<noteq> slash then ('''', path)
      else (case cut_slash (drop 1 path) of
              Some (ns, bare) \<Rightarrow> (ns, bare)
            | None \<Rightarrow> (drop 1 path, '''')))"

definition stripLeadingSlash :: "string \<Rightarrow> string" where
  "stripLeadingSlash s = (if length s > 0 \<and> s ! 0 = slash then drop 1 s else s)"

definition pathMatchesPattern :: "string \<Rightarrow> string \<Rightarrow> bool" where
  "pathMatchesPattern pattern path =
     (if pattern = '''' \<or> pattern = ''*'' then True
      else if length pattern > 0 \<and> pattern ! 0 = slash then
        (if length pattern \<ge> 3 \<and> pattern ! 1 = CHR ''*'' \<and> pattern ! 2 = slash then
           matchSuffix (drop 3 pattern) (snd (splitNamespaceForMatch path))
         else matchSuffix (drop 1 pattern) (stripLeadingSlash path))
      else matchSuffix pattern (snd (splitNamespaceForMatch path)))"

text \<open>A nil \<^verbatim>\<open>*CascadeResult\<close> is \<open>None\<close>.\<close>

definition IsComplete :: "CascadeResult option \<Rightarrow> bool" where
  "IsComplete cr = (case cr of None \<Rightarrow> True | Some c \<Rightarrow> length (Halted c) = 0 \<and> length (Skipped c) = 0)"

definition HasHalt :: "CascadeResult option \<Rightarrow> bool" where
  "HasHalt cr = (case cr of None \<Rightarrow> False | Some c \<Rightarrow> length (Halted c) > 0)"

definition IsDepthRefused :: "CascadeResult option \<Rightarrow> bool" where
  "IsDepthRefused cr =
     (case cr of None \<Rightarrow> False | Some c \<Rightarrow> \<not> BindingCommitted c \<and> length (Skipped c) > 0)"

definition DefaultMaxCascadeDepth :: u64 where
  "DefaultMaxCascadeDepth = 32"

section \<open>The notifying index (notifying.go)\<close>

record ('i, 'w) NotifyingLocationIndex =
  nt_inner :: 'i
  events :: "TreeChangeEvent list"
  events_cap :: nat
  done_closed :: bool
  maxCascadeDepth :: u64
  droppedEvents :: u64
  suppressEmit :: bool
  world :: 'w

type_synonym ('i, 'w) sync_hook = "('i, 'w) NotifyingLocationIndex NamedSyncHook"

definition NewNotifyingLocationIndex :: "'i \<Rightarrow> nat \<Rightarrow> 'w \<Rightarrow> ('i, 'w) NotifyingLocationIndex" where
  "NewNotifyingLocationIndex inner cap w =
     \<lparr>nt_inner = inner, events = [], events_cap = cap, done_closed = False,
      maxCascadeDepth = DefaultMaxCascadeDepth, droppedEvents = 0, suppressEmit = False, world = w\<rparr>"

definition AddNamedSyncHook ::
  "'n NamedSyncHook list \<Rightarrow> string \<Rightarrow> (TreeChangeEvent \<Rightarrow> 'n \<Rightarrow> ConsumerResult option \<times> 'n) \<Rightarrow>
     'n NamedSyncHook list" where
  "AddNamedSyncHook hooks name fn =
     hooks @ [\<lparr>hook_Name = name, hook_Pattern = '''', hook_Fn = fn\<rparr>]"

definition AddNamedSyncHookWithPattern ::
  "'n NamedSyncHook list \<Rightarrow> string \<Rightarrow> string \<Rightarrow>
     (TreeChangeEvent \<Rightarrow> 'n \<Rightarrow> ConsumerResult option \<times> 'n) \<Rightarrow> 'n NamedSyncHook list" where
  "AddNamedSyncHookWithPattern hooks name pattern fn =
     hooks @ [\<lparr>hook_Name = name, hook_Pattern = pattern, hook_Fn = fn\<rparr>]"

definition SetMaxCascadeDepth ::
  "u64 \<Rightarrow> ('i, 'w) NotifyingLocationIndex \<Rightarrow> ('i, 'w) NotifyingLocationIndex" where
  "SetMaxCascadeDepth depth n = n\<lparr>maxCascadeDepth := depth\<rparr>"

definition SetEmitSuppressed ::
  "bool \<Rightarrow> ('i, 'w) NotifyingLocationIndex \<Rightarrow> ('i, 'w) NotifyingLocationIndex" where
  "SetEmitSuppressed b n = n\<lparr>suppressEmit := b\<rparr>"

text \<open>
  \<^verbatim>\<open>emit\<close>. The non-blocking send succeeds where the buffer has room. After the first \<^verbatim>\<open>select\<close> saw
  \<^verbatim>\<open>done\<close> open, the second one sees the same state.
\<close>

definition emit ::
  "TreeChangeEvent \<Rightarrow> ('i, 'w) NotifyingLocationIndex \<Rightarrow> unit result \<times> ('i, 'w) NotifyingLocationIndex" where
  "emit evt n =
     (if suppressEmit n then (Inr (), n)
      else if done_closed n then (Inl [ErrShuttingDown], n)
      else if length (events n) < events_cap n then (Inr (), n\<lparr>events := events n @ [evt]\<rparr>)
      else (Inl [ErrEventBufferFull], n\<lparr>droppedEvents := droppedEvents n + 1\<rparr>))"

text \<open>The loop of \<^verbatim>\<open>runCascade\<close>, with the flag \<^verbatim>\<open>halted\<close>.\<close>

fun run_hooks ::
  "'n NamedSyncHook list \<Rightarrow> TreeChangeEvent \<Rightarrow> bool \<Rightarrow> CascadeResult \<Rightarrow> 'n \<Rightarrow> CascadeResult \<times> 'n" where
  "run_hooks [] evt halted cr n = (cr, n)"
| "run_hooks (hook # hooks) evt halted cr n =
     (if halted then run_hooks hooks evt halted (cr\<lparr>Skipped := Skipped cr @ [hook_Name hook]\<rparr>) n
      else if \<not> pathMatchesPattern (hook_Pattern hook) (evt_Path evt) then
        run_hooks hooks evt halted cr n
      else (case hook_Fn hook evt n of
              (result, n') \<Rightarrow>
                (case result of
                   None \<Rightarrow>
                     run_hooks hooks evt halted (cr\<lparr>Completed := Completed cr @ [hook_Name hook]\<rparr>) n'
                 | Some r \<Rightarrow>
                     if Status r = 0 \<or> Status r = 200 then
                       run_hooks hooks evt halted (cr\<lparr>Completed := Completed cr @ [hook_Name hook]\<rparr>) n'
                     else
                       run_hooks hooks evt True
                         (cr\<lparr>Halted := Halted cr @ [\<lparr>halt_Name = hook_Name hook, halt_Error = r\<rparr>]\<rparr>) n')))"

definition ctx_depth :: "MutationContext option \<Rightarrow> u64 option" where
  "ctx_depth ctx = (case ctx of None \<Rightarrow> None | Some c \<Rightarrow> CascadeDepth c)"

definition runCascade ::
  "'n NamedSyncHook list \<Rightarrow> TreeChangeEvent \<Rightarrow> MutationContext option \<Rightarrow> 'n \<Rightarrow> CascadeResult option \<times> 'n" where
  "runCascade hooks evt ctx n =
     (if hooks = [] then (None, n)
      else
        let depth = (case ctx_depth ctx of None \<Rightarrow> 0 | Some d \<Rightarrow> d);
            cr = \<lparr>BindingCommitted = True, Completed = [], Halted = [], Skipped = [],
                  cr_CascadeDepth = depth\<rparr>
        in (case run_hooks hooks evt False cr n of (cr', n') \<Rightarrow> (Some cr', n')))"

definition setInternal ::
  "'i LocationIndex \<Rightarrow> ('i, 'w) sync_hook list \<Rightarrow> string \<Rightarrow> hash \<Rightarrow> MutationContext option \<Rightarrow>
     ('i, 'w) NotifyingLocationIndex \<Rightarrow>
     (CascadeResult option \<times> unit result) \<times> ('i, 'w) NotifyingLocationIndex" where
  "setInternal I hooks path h ctx n =
     (if (case ctx_depth ctx of None \<Rightarrow> False | Some d \<Rightarrow> maxCascadeDepth n \<le> d) then
        ((Some \<lparr>BindingCommitted = False, Completed = [], Halted = [],
                Skipped = map hook_Name hooks, cr_CascadeDepth = the (ctx_depth ctx)\<rparr>, Inr ()), n)
      else
        let prev = li_Get I path (nt_inner n) in
        if prev = Some h then ((None, Inr ()), n)
        else (case li_Set I path h (nt_inner n) of
                (Inl err, i') \<Rightarrow> ((None, Inl err), n\<lparr>nt_inner := i'\<rparr>)
              | (Inr _, i') \<Rightarrow>
                  let evt = (case prev of
                               Some ph \<Rightarrow>
                                 \<lparr>evt_Path = path, evt_PeerID = '''', evt_Hash = h, evt_PreviousHash = ph,
                                  evt_ChangeType = ChangeModified, evt_Context = ctx\<rparr>
                             | None \<Rightarrow>
                                 \<lparr>evt_Path = path, evt_PeerID = '''', evt_Hash = h, evt_PreviousHash = zero_hash,
                                  evt_ChangeType = ChangeCreated, evt_Context = ctx\<rparr>)
                  in (case runCascade hooks evt ctx (n\<lparr>nt_inner := i'\<rparr>) of
                        (cr, n1) \<Rightarrow>
                          (case emit evt n1 of
                             (Inl err, n2) \<Rightarrow> ((cr, Inl err), n2)
                           | (Inr _, n2) \<Rightarrow> ((cr, Inr ()), n2)))))"

definition nt_SetWithContext where
  "nt_SetWithContext I hooks path h ctx n = setInternal I hooks path h ctx n"

definition nt_Set ::
  "'i LocationIndex \<Rightarrow> ('i, 'w) sync_hook list \<Rightarrow> string \<Rightarrow> hash \<Rightarrow>
     ('i, 'w) NotifyingLocationIndex \<Rightarrow> unit result \<times> ('i, 'w) NotifyingLocationIndex" where
  "nt_Set I hooks path h n =
     (case setInternal I hooks path h None n of ((_, err), n') \<Rightarrow> (err, n'))"

definition removeInternal ::
  "'i LocationIndex \<Rightarrow> ('i, 'w) sync_hook list \<Rightarrow> string \<Rightarrow> MutationContext option \<Rightarrow>
     ('i, 'w) NotifyingLocationIndex \<Rightarrow>
     (hash option \<times> CascadeResult option) \<times> ('i, 'w) NotifyingLocationIndex" where
  "removeInternal I hooks path ctx n =
     (case li_Remove I path (nt_inner n) of
        (None, i') \<Rightarrow> ((None, None), n\<lparr>nt_inner := i'\<rparr>)
      | (Some h, i') \<Rightarrow>
          let evt = \<lparr>evt_Path = path, evt_PeerID = '''', evt_Hash = zero_hash, evt_PreviousHash = h,
                     evt_ChangeType = ChangeDeleted, evt_Context = ctx\<rparr>
          in (case runCascade hooks evt ctx (n\<lparr>nt_inner := i'\<rparr>) of
                (cr, n1) \<Rightarrow> ((Some h, cr), snd (emit evt n1))))"

definition nt_RemoveWithContext where
  "nt_RemoveWithContext I hooks path ctx n = removeInternal I hooks path ctx n"

definition nt_Remove ::
  "'i LocationIndex \<Rightarrow> ('i, 'w) sync_hook list \<Rightarrow> string \<Rightarrow>
     ('i, 'w) NotifyingLocationIndex \<Rightarrow> hash option \<times> ('i, 'w) NotifyingLocationIndex" where
  "nt_Remove I hooks path n =
     (case removeInternal I hooks path None n of ((h, _), n') \<Rightarrow> (h, n'))"

definition nt_CompareAndSwap ::
  "'i LocationIndex \<Rightarrow> ('i, 'w) sync_hook list \<Rightarrow> string \<Rightarrow> hash \<Rightarrow> hash \<Rightarrow>
     ('i, 'w) NotifyingLocationIndex \<Rightarrow> (index_error + unit) \<times> ('i, 'w) NotifyingLocationIndex" where
  "nt_CompareAndSwap I hooks path expected new n =
     (case li_CompareAndSwap I path expected new (nt_inner n) of
        (Inl err, i') \<Rightarrow> (Inl err, n\<lparr>nt_inner := i'\<rparr>)
      | (Inr _, i') \<Rightarrow>
          let evt = \<lparr>evt_Path = path, evt_PeerID = '''', evt_Hash = new, evt_PreviousHash = expected,
                     evt_ChangeType = ChangeModified, evt_Context = None\<rparr>
          in (Inr (), snd (emit evt (snd (runCascade hooks evt None (n\<lparr>nt_inner := i'\<rparr>))))))"

definition nt_CompareAndRemove ::
  "'i LocationIndex \<Rightarrow> ('i, 'w) sync_hook list \<Rightarrow> string \<Rightarrow> hash \<Rightarrow>
     ('i, 'w) NotifyingLocationIndex \<Rightarrow> (index_error + unit) \<times> ('i, 'w) NotifyingLocationIndex" where
  "nt_CompareAndRemove I hooks path expected n =
     (case li_CompareAndRemove I path expected (nt_inner n) of
        (Inl err, i') \<Rightarrow> (Inl err, n\<lparr>nt_inner := i'\<rparr>)
      | (Inr _, i') \<Rightarrow>
          let evt = \<lparr>evt_Path = path, evt_PeerID = '''', evt_Hash = zero_hash, evt_PreviousHash = expected,
                     evt_ChangeType = ChangeDeleted, evt_Context = None\<rparr>
          in (Inr (), snd (emit evt (snd (runCascade hooks evt None (n\<lparr>nt_inner := i'\<rparr>))))))"

definition NotifyingLocationIndex_iface ::
  "'i LocationIndex \<Rightarrow> ('i, 'w) sync_hook list \<Rightarrow> ('i, 'w) NotifyingLocationIndex LocationIndex" where
  "NotifyingLocationIndex_iface I hooks =
     \<lparr>li_Set = nt_Set I hooks,
      li_Get = (\<lambda>path n. li_Get I path (nt_inner n)),
      li_Has = (\<lambda>path n. li_Has I path (nt_inner n)),
      li_Remove = nt_Remove I hooks,
      li_List = (\<lambda>pre n. li_List I pre (nt_inner n)),
      li_LenPrefix = (\<lambda>pre n. li_LenPrefix I pre (nt_inner n)),
      li_CompareAndSwap = nt_CompareAndSwap I hooks,
      li_CompareAndRemove = nt_CompareAndRemove I hooks,
      li_Contextual = Some \<lparr>cw_SetWithContext = nt_SetWithContext I hooks,
                            cw_RemoveWithContext = nt_RemoveWithContext I hooks\<rparr>\<rparr>"

section \<open>The cascade tracker (cascade_tracker.go)\<close>

record cascadeEntry =
  MaxDepth :: u64
  LastSeen :: int

record CascadeTracker =
  ct_entries :: "(string, cascadeEntry) gomap"
  ttl :: int

definition NewCascadeTracker :: "int \<Rightarrow> CascadeTracker" where
  "NewCascadeTracker d = \<lparr>ct_entries = [], ttl = d\<rparr>"

definition ct_Update :: "int \<Rightarrow> string \<Rightarrow> u64 \<Rightarrow> CascadeTracker \<Rightarrow> u64 \<times> CascadeTracker" where
  "ct_Update now chainID depth ct =
     (case gm_get (ct_entries ct) chainID of
        Some entry \<Rightarrow>
          if MaxDepth entry > depth then
            (MaxDepth entry,
             ct\<lparr>ct_entries := gm_set (ct_entries ct) chainID \<lparr>MaxDepth = MaxDepth entry, LastSeen = now\<rparr>\<rparr>)
          else (depth, ct\<lparr>ct_entries := gm_set (ct_entries ct) chainID \<lparr>MaxDepth = depth, LastSeen = now\<rparr>\<rparr>)
      | None \<Rightarrow> (depth, ct\<lparr>ct_entries := gm_set (ct_entries ct) chainID \<lparr>MaxDepth = depth, LastSeen = now\<rparr>\<rparr>))"

definition ct_Depth :: "string \<Rightarrow> CascadeTracker \<Rightarrow> u64" where
  "ct_Depth chainID ct =
     (case gm_get (ct_entries ct) chainID of Some entry \<Rightarrow> MaxDepth entry | None \<Rightarrow> 0)"

text \<open>Deleting during the \<^verbatim>\<open>range\<close> removes exactly the entries that the test selects.\<close>

definition ct_Prune :: "int \<Rightarrow> CascadeTracker \<Rightarrow> CascadeTracker" where
  "ct_Prune now ct =
     (let cutoff = now - ttl ct in
      ct\<lparr>ct_entries := filter (\<lambda>(id, entry). \<not> LastSeen entry < cutoff) (ct_entries ct)\<rparr>)"

section \<open>What a cascade does\<close>

abbreviation fires :: "TreeChangeEvent \<Rightarrow> 'n NamedSyncHook \<Rightarrow> bool" where
  "fires evt hook \<equiv> pathMatchesPattern (hook_Pattern hook) (evt_Path evt)"

fun hooks_effect :: "'n NamedSyncHook list \<Rightarrow> TreeChangeEvent \<Rightarrow> 'n \<Rightarrow> 'n" where
  "hooks_effect [] evt n = n"
| "hooks_effect (hook # hooks) evt n = hooks_effect hooks evt (snd (hook_Fn hook evt n))"

definition halts :: "ConsumerResult option \<Rightarrow> bool" where
  "halts r \<longleftrightarrow> (case r of None \<Rightarrow> False | Some c \<Rightarrow> Status c \<noteq> 0 \<and> Status c \<noteq> 200)"

lemma halts_None [simp]: "\<not> halts None"
  by (simp add: halts_def)

lemma run_hooks_halted:
  "run_hooks hooks evt True cr n = (cr\<lparr>Skipped := Skipped cr @ map hook_Name hooks\<rparr>, n)"
  by (induction hooks arbitrary: cr) simp_all

text \<open>The two ways a cascade ends: every hook that fires ran, or one of them halted it.\<close>

definition cascade_done where
  "cascade_done hooks evt cr n cr' n' \<longleftrightarrow>
     cr' = cr\<lparr>Completed := Completed cr @ map hook_Name (filter (fires evt) hooks)\<rparr> \<and>
     n' = hooks_effect (filter (fires evt) hooks) evt n"

definition cascade_halted where
  "cascade_halted hooks evt cr n cr' n' \<longleftrightarrow>
     (\<exists>pre hook post r. hooks = pre @ hook # post \<and> fires evt hook \<and>
        fst (hook_Fn hook evt (hooks_effect (filter (fires evt) pre) evt n)) = Some r \<and> halts (Some r) \<and>
        cr' = cr\<lparr>Completed := Completed cr @ map hook_Name (filter (fires evt) pre),
                 Halted := Halted cr @ [\<lparr>halt_Name = hook_Name hook, halt_Error = r\<rparr>],
                 Skipped := Skipped cr @ map hook_Name post\<rparr> \<and>
        n' = hooks_effect (filter (fires evt) pre @ [hook]) evt n)"

lemma cascade_done_Cons:
  assumes "cascade_done hooks evt (cr\<lparr>Completed := Completed cr @ [hook_Name hook]\<rparr>) (snd (hook_Fn hook evt n)) cr' n'"
    and "fires evt hook"
  shows "cascade_done (hook # hooks) evt cr n cr' n'"
  using assms by (simp add: cascade_done_def)

lemma cascade_halted_Cons:
  assumes "cascade_halted hooks evt (cr\<lparr>Completed := Completed cr @ [hook_Name hook]\<rparr>) (snd (hook_Fn hook evt n)) cr' n'"
    and "fires evt hook"
  shows "cascade_halted (hook # hooks) evt cr n cr' n'"
proof -
  from assms(1) obtain pre hk post r where "hooks = pre @ hk # post" and "fires evt hk"
    and "fst (hook_Fn hk evt (hooks_effect (filter (fires evt) pre) evt (snd (hook_Fn hook evt n)))) = Some r"
    and "halts (Some r)"
    and "cr' = cr\<lparr>Completed := Completed cr @ [hook_Name hook] @ map hook_Name (filter (fires evt) pre),
                 Halted := Halted cr @ [\<lparr>halt_Name = hook_Name hk, halt_Error = r\<rparr>],
                 Skipped := Skipped cr @ map hook_Name post\<rparr>"
    and "n' = hooks_effect (filter (fires evt) pre @ [hk]) evt (snd (hook_Fn hook evt n))"
    unfolding cascade_halted_def by auto
  with assms(2) show ?thesis
    unfolding cascade_halted_def
    by (intro exI [of _ "hook # pre"] exI [of _ hk] exI [of _ post] exI [of _ r]) simp
qed

lemma cascade_Cons_silent:
  assumes "\<not> fires evt hook"
  shows "cascade_done hooks evt cr n cr' n' \<Longrightarrow> cascade_done (hook # hooks) evt cr n cr' n'"
    and "cascade_halted hooks evt cr n cr' n' \<Longrightarrow> cascade_halted (hook # hooks) evt cr n cr' n'"
proof -
  show "cascade_done hooks evt cr n cr' n' \<Longrightarrow> cascade_done (hook # hooks) evt cr n cr' n'"
    using assms by (simp add: cascade_done_def)
  assume "cascade_halted hooks evt cr n cr' n'"
  then obtain pre hk post r where "hooks = pre @ hk # post" and "fires evt hk"
    and "fst (hook_Fn hk evt (hooks_effect (filter (fires evt) pre) evt n)) = Some r" and "halts (Some r)"
    and "cr' = cr\<lparr>Completed := Completed cr @ map hook_Name (filter (fires evt) pre),
                 Halted := Halted cr @ [\<lparr>halt_Name = hook_Name hk, halt_Error = r\<rparr>],
                 Skipped := Skipped cr @ map hook_Name post\<rparr>"
    and "n' = hooks_effect (filter (fires evt) pre @ [hk]) evt n"
    unfolding cascade_halted_def by blast
  with assms show "cascade_halted (hook # hooks) evt cr n cr' n'"
    unfolding cascade_halted_def
    by (intro exI [of _ "hook # pre"] exI [of _ hk] exI [of _ post] exI [of _ r]) simp
qed

lemma run_hooks_cases:
  assumes "run_hooks hooks evt False cr n = (cr', n')"
  shows "cascade_done hooks evt cr n cr' n' \<or> cascade_halted hooks evt cr n cr' n'"
  using assms
proof (induction hooks arbitrary: cr n)
  case Nil
  then show ?case by (simp add: cascade_done_def)
next
  case (Cons hook hooks)
  obtain result n1 where fn: "hook_Fn hook evt n = (result, n1)"
    by (cases "hook_Fn hook evt n")
  let ?cr = "cr\<lparr>Completed := Completed cr @ [hook_Name hook]\<rparr>"
  consider "\<not> fires evt hook" | "fires evt hook" "\<not> halts result"
    | r where "fires evt hook" "result = Some r" "halts (Some r)"
    by (cases "fires evt hook"; cases result) auto
  then show ?case
  proof cases
    case 1
    then show ?thesis using Cons.IH [of cr n] Cons.prems cascade_Cons_silent by fastforce
  next
    case 2
    then have "run_hooks hooks evt False ?cr n1 = (cr', n')"
      using Cons.prems fn by (auto simp: halts_def split: option.splits)
    from Cons.IH [OF this] show ?thesis
      using cascade_done_Cons [of hooks evt cr hook n] cascade_halted_Cons [of hooks evt cr hook n] 2(1) fn by auto
  next
    case 3
    then have "cascade_halted (hook # hooks) evt cr n cr' n'"
      using Cons.prems fn unfolding cascade_halted_def
      by (intro exI [of _ "[]"] exI [of _ hook] exI [of _ hooks] exI [of _ r])
        (auto simp: halts_def run_hooks_halted)
    then show ?thesis ..
  qed
qed

section \<open>Events describe the changes\<close>

text \<open>
  What an observer of the channel makes of the events, and when a sequence of events is a
  coherent account of a map that starts as \<open>m\<close>: each event states the binding it replaces.
\<close>

definition apply_event :: "TreeChangeEvent \<Rightarrow> (string \<rightharpoonup> hash) \<Rightarrow> (string \<rightharpoonup> hash)" where
  "apply_event evt m =
     m(evt_Path evt := (if evt_ChangeType evt = ChangeDeleted then None else Some (evt_Hash evt)))"

definition event_ok :: "TreeChangeEvent \<Rightarrow> (string \<rightharpoonup> hash) \<Rightarrow> bool" where
  "event_ok evt m \<longleftrightarrow>
     (if evt_ChangeType evt = ChangeCreated then m (evt_Path evt) = None \<and> evt_PreviousHash evt = zero_hash
      else m (evt_Path evt) = Some (evt_PreviousHash evt))"

fun replay :: "TreeChangeEvent list \<Rightarrow> (string \<rightharpoonup> hash) \<Rightarrow> (string \<rightharpoonup> hash)" where
  "replay [] m = m"
| "replay (e # es) m = replay es (apply_event e m)"

fun coherent :: "TreeChangeEvent list \<Rightarrow> (string \<rightharpoonup> hash) \<Rightarrow> bool" where
  "coherent [] m = True"
| "coherent (e # es) m = (event_ok e m \<and> coherent es (apply_event e m))"

lemma replay_append [simp]: "replay (es @ fs) m = replay fs (replay es m)"
  by (induction es arbitrary: m) simp_all

lemma coherent_append [simp]: "coherent (es @ fs) m \<longleftrightarrow> coherent es m \<and> coherent fs (replay es m)"
  by (induction es arbitrary: m) auto

text \<open>A hook that only observes: it may keep its own state but not touch the index.\<close>

definition quiet :: "('i, 'w) sync_hook list \<Rightarrow> bool" where
  "quiet hooks \<longleftrightarrow> (\<forall>hook \<in> set hooks. \<forall>evt n. \<exists>w. snd (hook_Fn hook evt n) = n\<lparr>world := w\<rparr>)"

definition observer ::
  "string \<times> string \<times> (TreeChangeEvent \<Rightarrow> 'w \<Rightarrow> ConsumerResult option \<times> 'w) \<Rightarrow> ('i, 'w) sync_hook" where
  "observer = (\<lambda>(name, pattern, f).
     \<lparr>hook_Name = name, hook_Pattern = pattern,
      hook_Fn = (\<lambda>evt n. case f evt (world n) of (r, w) \<Rightarrow> (r, n\<lparr>world := w\<rparr>))\<rparr>)"

lemma quiet_observers: "quiet (map observer obs)"
  by (auto simp: quiet_def observer_def split: prod.splits)

lemma hooks_effect_quiet: "quiet hooks \<Longrightarrow> \<exists>w. hooks_effect hooks evt n = n\<lparr>world := w\<rparr>"
proof (induction hooks arbitrary: n)
  case Nil
  then show ?case by (intro exI [of _ "world n"]) simp
next
  case (Cons hook hooks)
  from Cons.prems obtain w where w: "snd (hook_Fn hook evt n) = n\<lparr>world := w\<rparr>"
    unfolding quiet_def by (metis list.set_intros(1))
  from Cons.prems Cons.IH [of "n\<lparr>world := w\<rparr>"] w show ?case
    by (auto simp: quiet_def)
qed

lemma quiet_subset: "quiet hooks \<Longrightarrow> set hooks' \<subseteq> set hooks \<Longrightarrow> quiet hooks'"
  by (auto simp: quiet_def)

abbreviation fresh_result :: "MutationContext option \<Rightarrow> CascadeResult" where
  "fresh_result ctx \<equiv>
     \<lparr>BindingCommitted = True, Completed = [], Halted = [], Skipped = [],
      cr_CascadeDepth = (case ctx_depth ctx of None \<Rightarrow> 0 | Some d \<Rightarrow> d)\<rparr>"

lemma runCascade_cases:
  assumes "hooks \<noteq> []"
  obtains cr n' where "runCascade hooks evt ctx n = (Some cr, n')"
    "cascade_done hooks evt (fresh_result ctx) n cr n' \<or> cascade_halted hooks evt (fresh_result ctx) n cr n'"
proof (cases "run_hooks hooks evt False (fresh_result ctx) n")
  case (Pair cr n')
  then show ?thesis
    using assms run_hooks_cases [OF Pair] that [of cr n'] by (simp add: runCascade_def)
qed

lemma runCascade_quiet:
  assumes "quiet hooks"
  shows "\<exists>w. snd (runCascade hooks evt ctx n) = n\<lparr>world := w\<rparr>"
proof (cases "hooks = []")
  case True
  then show ?thesis by (intro exI [of _ "world n"]) (simp add: runCascade_def)
next
  case False
  then obtain cr n' where n': "runCascade hooks evt ctx n = (Some cr, n')"
    and cs: "cascade_done hooks evt (fresh_result ctx) n cr n' \<or> cascade_halted hooks evt (fresh_result ctx) n cr n'"
    by (rule runCascade_cases)
  have "\<exists>hs. set hs \<subseteq> set hooks \<and> n' = hooks_effect hs evt n"
  proof (rule disjE [OF cs])
    assume "cascade_done hooks evt (fresh_result ctx) n cr n'"
    then show ?thesis
      by (intro exI [of _ "filter (fires evt) hooks"]) (auto simp: cascade_done_def)
  next
    assume "cascade_halted hooks evt (fresh_result ctx) n cr n'"
    then obtain pre hk post where "hooks = pre @ hk # post" "n' = hooks_effect (filter (fires evt) pre @ [hk]) evt n"
      unfolding cascade_halted_def by blast
    then show ?thesis
      by (intro exI [of _ "filter (fires evt) pre @ [hk]"]) auto
  qed
  with n' show ?thesis
    using hooks_effect_quiet quiet_subset [OF assms] by (metis snd_conv)
qed

text \<open>What one mutation leaves in the channel when it changed the map by \<open>evt\<close>.\<close>

definition delivered :: "('i, 'w) NotifyingLocationIndex \<Rightarrow> TreeChangeEvent list \<Rightarrow> TreeChangeEvent list" where
  "delivered n es =
     (if suppressEmit n \<or> done_closed n \<or> events_cap n \<le> length (events n) then [] else es)"

definition same_channel where
  "same_channel n n' \<longleftrightarrow> events_cap n' = events_cap n \<and> done_closed n' = done_closed n \<and>
     suppressEmit n' = suppressEmit n \<and> maxCascadeDepth n' = maxCascadeDepth n"

lemma emit_effect:
  "events (snd (emit evt n)) = events n @ delivered n [evt] \<and> same_channel n (snd (emit evt n)) \<and>
   nt_inner (snd (emit evt n)) = nt_inner n"
  by (simp add: emit_def delivered_def same_channel_def)

lemma notify_effect:
  assumes "quiet hooks" and "n' = snd (emit evt (snd (runCascade hooks evt ctx (n\<lparr>nt_inner := i'\<rparr>))))"
  shows "nt_inner n' = i' \<and> events n' = events n @ delivered n [evt] \<and> same_channel n n'"
proof -
  obtain w where w: "snd (runCascade hooks evt ctx (n\<lparr>nt_inner := i'\<rparr>)) = n\<lparr>nt_inner := i', world := w\<rparr>"
    using runCascade_quiet [OF assms(1), of evt ctx "n\<lparr>nt_inner := i'\<rparr>"] by auto
  show ?thesis
    using emit_effect [of evt "n\<lparr>nt_inner := i', world := w\<rparr>"]
    unfolding assms(2) w by (auto simp: delivered_def same_channel_def)
qed

text \<open>The mutations a client can make through the index, and their runs.\<close>

datatype index_op =
    OpSet string hash "MutationContext option"
  | OpRemove string "MutationContext option"
  | OpCas string hash hash
  | OpCar string hash

fun nt_step ::
  "'i LocationIndex \<Rightarrow> ('i, 'w) sync_hook list \<Rightarrow> index_op \<Rightarrow>
     ('i, 'w) NotifyingLocationIndex \<Rightarrow> ('i, 'w) NotifyingLocationIndex" where
  "nt_step I hooks (OpSet p h ctx) n = snd (nt_SetWithContext I hooks p h ctx n)"
| "nt_step I hooks (OpRemove p ctx) n = snd (nt_RemoveWithContext I hooks p ctx n)"
| "nt_step I hooks (OpCas p x h) n = snd (nt_CompareAndSwap I hooks p x h n)"
| "nt_step I hooks (OpCar p x) n = snd (nt_CompareAndRemove I hooks p x n)"

fun nt_run where
  "nt_run I hooks [] n = n"
| "nt_run I hooks (op # ops) n = nt_run I hooks ops (nt_step I hooks op n)"

lemma same_channel_refl [simp]: "same_channel n n" "same_channel n (n\<lparr>nt_inner := i'\<rparr>)"
  by (simp_all add: same_channel_def)

lemma same_channel_trans: "same_channel a b \<Longrightarrow> same_channel b c \<Longrightarrow> same_channel a c"
  by (simp add: same_channel_def)

lemma delivered_Nil [simp]: "delivered n [] = []"
  by (simp add: delivered_def)

locale notifying_quiet = location_index I inv abs Some Some
  for I :: "'i LocationIndex" and inv abs +
  fixes hooks :: "('i, 'w) sync_hook list"
  assumes hooks_quiet: "quiet hooks"
begin

text \<open>\<open>n'\<close> follows from \<open>n\<close> by changes that \<open>es\<close> accounts for.\<close>

definition accounts :: "('i, 'w) NotifyingLocationIndex \<Rightarrow> TreeChangeEvent list \<Rightarrow>
    ('i, 'w) NotifyingLocationIndex \<Rightarrow> bool" where
  "accounts n es n' \<longleftrightarrow>
     inv (nt_inner n') \<and> same_channel n n' \<and> coherent es (abs (nt_inner n)) \<and>
     replay es (abs (nt_inner n)) = abs (nt_inner n') \<and> events n' = events n @ delivered n es"

lemma accounts_notify:
  assumes "n' = snd (emit evt (snd (runCascade hooks evt ctx (n\<lparr>nt_inner := i'\<rparr>))))"
    and "inv i'" and "event_ok evt (abs (nt_inner n))" and "abs i' = apply_event evt (abs (nt_inner n))"
  shows "accounts n [evt] n'"
  using notify_effect [OF hooks_quiet assms(1)] assms(2-) by (simp add: accounts_def)

lemma accounts_idle: "inv i' \<Longrightarrow> abs i' = abs (nt_inner n) \<Longrightarrow> accounts n [] (n\<lparr>nt_inner := i'\<rparr>)"
  by (simp add: accounts_def)

lemma accounts_refl: "inv (nt_inner n) \<Longrightarrow> accounts n [] n"
  by (simp add: accounts_def)

lemma get_key: "inv i \<Longrightarrow> li_Get I p i = abs i p"
  by (simp add: get_abs)

lemma snd_emit_case:
  "snd (case emit e n of (Inl err, n2) \<Rightarrow> ((cr, Inl err), n2) | (Inr x, n2) \<Rightarrow> ((cr, Inr ()), n2)) = snd (emit e n)"
  by (simp split: prod.split sum.split)

lemma set_accounts:
  assumes inv: "inv (nt_inner n)"
  shows "\<exists>es. length es \<le> 1 \<and> accounts n es (snd (setInternal I hooks p h ctx n))"
proof -
  let ?i = "nt_inner n"
  obtain r i' where set: "li_Set I p h ?i = (r, i')" by (cases "li_Set I p h ?i")
  have prev: "li_Get I p ?i = abs ?i p" by (rule get_key [OF inv])
  show ?thesis
  proof (cases "(case ctx_depth ctx of None \<Rightarrow> False | Some d \<Rightarrow> maxCascadeDepth n \<le> d) \<or> abs ?i p = Some h")
    case True
    then have "snd (setInternal I hooks p h ctx n) = n"
      by (auto simp: setInternal_def Let_def prev)
    then show ?thesis using accounts_refl [OF inv] by (intro exI [of _ "[]"]) simp
  next
    case go: False
    show ?thesis
    proof (cases r)
      case (Inl e)
      then have "snd (setInternal I hooks p h ctx n) = n\<lparr>nt_inner := i'\<rparr>"
        using go set by (simp add: setInternal_def Let_def prev)
      then show ?thesis
        using accounts_idle [of i' n] set_err [OF inv, of p h e i'] set Inl by (intro exI [of _ "[]"]) simp
    next
      case (Inr u)
      let ?evt = "case abs ?i p of
          Some ph \<Rightarrow> \<lparr>evt_Path = p, evt_PeerID = '''', evt_Hash = h, evt_PreviousHash = ph,
                     evt_ChangeType = ChangeModified, evt_Context = ctx\<rparr>
        | None \<Rightarrow> \<lparr>evt_Path = p, evt_PeerID = '''', evt_Hash = h, evt_PreviousHash = zero_hash,
                   evt_ChangeType = ChangeCreated, evt_Context = ctx\<rparr>"
      have eq: "snd (setInternal I hooks p h ctx n)
          = snd (emit ?evt (snd (runCascade hooks ?evt ctx (n\<lparr>nt_inner := i'\<rparr>))))"
        using go set Inr by (simp add: setInternal_def Let_def prev snd_emit_case split: prod.split)
      have "inv i'" "abs i' = (abs ?i)(p \<mapsto> h)"
        using set_ok [OF inv, of p h i'] set Inr by auto
      then have "accounts n [?evt] (snd (setInternal I hooks p h ctx n))"
        by (intro accounts_notify [OF eq])
          (auto simp: event_ok_def apply_event_def split: option.split)
      then show ?thesis by (intro exI [of _ "[?evt]"]) simp
    qed
  qed
qed

lemma remove_accounts:
  assumes inv: "inv (nt_inner n)"
  shows "\<exists>es. length es \<le> 1 \<and> accounts n es (snd (removeInternal I hooks p ctx n))"
proof -
  let ?i = "nt_inner n"
  obtain r i' where rem: "li_Remove I p ?i = (r, i')" by (cases "li_Remove I p ?i")
  have i': "inv i'" "r = abs ?i p" "abs i' = (abs ?i)(p := None)"
    using remove_abs [OF inv rem] get_key [OF inv] by auto
  show ?thesis
  proof (cases r)
    case None
    then have "snd (removeInternal I hooks p ctx n) = n\<lparr>nt_inner := i'\<rparr>" and "abs i' = abs ?i"
      using rem i' by (auto simp: removeInternal_def fun_eq_iff)
    then show ?thesis
      using accounts_idle [of i' n] i'(1) by (intro exI [of _ "[]"]) simp
  next
    case (Some h)
    let ?evt = "\<lparr>evt_Path = p, evt_PeerID = '''', evt_Hash = zero_hash, evt_PreviousHash = h,
                 evt_ChangeType = ChangeDeleted, evt_Context = ctx\<rparr>"
    have eq: "snd (removeInternal I hooks p ctx n)
        = snd (emit ?evt (snd (runCascade hooks ?evt ctx (n\<lparr>nt_inner := i'\<rparr>))))"
      using rem Some by (simp add: removeInternal_def Let_def split: prod.split)
    have "accounts n [?evt] (snd (removeInternal I hooks p ctx n))"
      using i' Some by (intro accounts_notify [OF eq]) (auto simp: event_ok_def apply_event_def)
    then show ?thesis by (intro exI [of _ "[?evt]"]) simp
  qed
qed

lemma cas_accounts:
  assumes inv: "inv (nt_inner n)"
  shows "\<exists>es. length es \<le> 1 \<and> accounts n es (snd (nt_CompareAndSwap I hooks p x h n))"
proof -
  let ?i = "nt_inner n"
  obtain r i' where cas: "li_CompareAndSwap I p x h ?i = (r, i')" by (cases "li_CompareAndSwap I p x h ?i")
  show ?thesis
  proof (cases r)
    case (Inl e)
    then have "snd (nt_CompareAndSwap I hooks p x h n) = n\<lparr>nt_inner := i'\<rparr>" and "i' = ?i"
      using cas cas_err [OF inv, of p x h e i'] by (simp_all add: nt_CompareAndSwap_def)
    then show ?thesis
      using accounts_idle [of i' n] inv by (intro exI [of _ "[]"]) simp
  next
    case (Inr u)
    let ?evt = "\<lparr>evt_Path = p, evt_PeerID = '''', evt_Hash = h, evt_PreviousHash = x,
                 evt_ChangeType = ChangeModified, evt_Context = None\<rparr>"
    have eq: "snd (nt_CompareAndSwap I hooks p x h n)
        = snd (emit ?evt (snd (runCascade hooks ?evt None (n\<lparr>nt_inner := i'\<rparr>))))"
      using cas Inr by (simp add: nt_CompareAndSwap_def Let_def)
    have "accounts n [?evt] (snd (nt_CompareAndSwap I hooks p x h n))"
      using cas_ok [OF inv, of p x h i'] cas Inr
      by (intro accounts_notify [OF eq]) (auto simp: event_ok_def apply_event_def)
    then show ?thesis by (intro exI [of _ "[?evt]"]) simp
  qed
qed

lemma car_accounts:
  assumes inv: "inv (nt_inner n)"
  shows "\<exists>es. length es \<le> 1 \<and> accounts n es (snd (nt_CompareAndRemove I hooks p x n))"
proof -
  let ?i = "nt_inner n"
  obtain r i' where cas: "li_CompareAndRemove I p x ?i = (r, i')" by (cases "li_CompareAndRemove I p x ?i")
  show ?thesis
  proof (cases r)
    case (Inl e)
    then have "snd (nt_CompareAndRemove I hooks p x n) = n\<lparr>nt_inner := i'\<rparr>" and "i' = ?i"
      using cas car_err [OF inv, of p x e i'] by (simp_all add: nt_CompareAndRemove_def)
    then show ?thesis
      using accounts_idle [of i' n] inv by (intro exI [of _ "[]"]) simp
  next
    case (Inr u)
    let ?evt = "\<lparr>evt_Path = p, evt_PeerID = '''', evt_Hash = zero_hash, evt_PreviousHash = x,
                 evt_ChangeType = ChangeDeleted, evt_Context = None\<rparr>"
    have eq: "snd (nt_CompareAndRemove I hooks p x n)
        = snd (emit ?evt (snd (runCascade hooks ?evt None (n\<lparr>nt_inner := i'\<rparr>))))"
      using cas Inr by (simp add: nt_CompareAndRemove_def Let_def)
    have "accounts n [?evt] (snd (nt_CompareAndRemove I hooks p x n))"
      using car_ok [OF inv, of p x i'] cas Inr
      by (intro accounts_notify [OF eq]) (auto simp: event_ok_def apply_event_def)
    then show ?thesis by (intro exI [of _ "[?evt]"]) simp
  qed
qed

lemma step_accounts:
  "inv (nt_inner n) \<Longrightarrow> \<exists>es. length es \<le> 1 \<and> accounts n es (nt_step I hooks op n)"
  by (cases op)
    (simp_all del: One_nat_def add: nt_SetWithContext_def nt_RemoveWithContext_def set_accounts remove_accounts
      cas_accounts car_accounts)

text \<open>A run with room in the channel: its events replay to exactly the bindings it left.\<close>

lemma run_replays:
  assumes "inv (nt_inner n)" and "\<not> suppressEmit n" and "\<not> done_closed n"
    and "length (events n) + length ops \<le> events_cap n"
  shows "\<exists>es. events (nt_run I hooks ops n) = events n @ es \<and> coherent es (abs (nt_inner n)) \<and>
    replay es (abs (nt_inner n)) = abs (nt_inner (nt_run I hooks ops n)) \<and> inv (nt_inner (nt_run I hooks ops n))"
  using assms
proof (induction ops arbitrary: n)
  case Nil
  then show ?case by simp
next
  case (Cons op ops)
  let ?n1 = "nt_step I hooks op n"
  obtain es where es: "length es \<le> 1" and acc: "accounts n es ?n1"
    using step_accounts [OF Cons.prems(1)] by blast
  have ev: "events ?n1 = events n @ es"
    using acc Cons.prems(2-4) by (simp add: accounts_def delivered_def)
  have ch: "inv (nt_inner ?n1)" "\<not> suppressEmit ?n1" "\<not> done_closed ?n1" "events_cap ?n1 = events_cap n"
    using acc Cons.prems by (simp_all add: accounts_def same_channel_def)
  from Cons.IH [OF ch(1-3)] obtain fs where
    "events (nt_run I hooks ops ?n1) = events ?n1 @ fs" "coherent fs (abs (nt_inner ?n1))"
    "replay fs (abs (nt_inner ?n1)) = abs (nt_inner (nt_run I hooks ops ?n1))"
    "inv (nt_inner (nt_run I hooks ops ?n1))"
    using Cons.prems(4) es ev ch(4) by auto
  then show ?case
    using acc ev by (intro exI [of _ "es @ fs"]) (simp add: accounts_def)
qed

end

subsection \<open>The notifying index meets the contract of the index below it\<close>

text \<open>Without the clause on errors: an error of \<^verbatim>\<open>emit\<close> comes after the commit.\<close>

context notifying_quiet
begin

lemma notify_inner:
  "nt_inner (snd (emit evt (snd (runCascade hooks evt ctx (n\<lparr>nt_inner := i'\<rparr>))))) = i'"
  using notify_effect [OF hooks_quiet refl] by blast

lemma runCascade_inner: "runCascade hooks evt ctx (n\<lparr>nt_inner := i'\<rparr>) = (cr, n1) \<Longrightarrow> nt_inner n1 = i'"
  using notify_inner [of evt ctx i' n] emit_effect [of evt n1] by simp

lemma emit_inner: "emit evt n = (r, n') \<Longrightarrow> nt_inner n' = nt_inner n"
  using emit_effect [of evt n] by simp

lemma nt_Set_ok:
  assumes inv: "inv (nt_inner n)" and ok: "nt_Set I hooks p h n = (Inr (), n')"
  shows "inv (nt_inner n') \<and> abs (nt_inner n') = (abs (nt_inner n))(p \<mapsto> h)"
proof (cases "abs (nt_inner n) p = Some h")
  case True
  then show ?thesis
    using ok inv get_key [OF inv] by (auto simp: nt_Set_def setInternal_def ctx_depth_def Let_def)
next
  case False
  obtain r i' where set: "li_Set I p h (nt_inner n) = (r, i')"
    by (cases "li_Set I p h (nt_inner n)")
  then have "r = Inr ()"
    using ok False get_key [OF inv]
    by (cases r) (auto simp: nt_Set_def setInternal_def ctx_depth_def Let_def)
  moreover from this have "nt_inner n' = i'"
    using ok set False get_key [OF inv]
    by (auto simp: nt_Set_def setInternal_def ctx_depth_def Let_def split: prod.splits sum.splits
        dest!: runCascade_inner emit_inner)
  ultimately show ?thesis
    using set_ok [OF inv, of p h i'] set by simp
qed

lemma nt_Remove_inner:
  "nt_Remove I hooks p n = (r, n') \<Longrightarrow> li_Remove I p (nt_inner n) = (r, nt_inner n')"
  by (cases "li_Remove I p (nt_inner n)"; cases "fst (li_Remove I p (nt_inner n))")
    (auto simp: nt_Remove_def removeInternal_def Let_def emit_effect split: prod.splits
      dest!: runCascade_inner)

lemma nt_CompareAndSwap_inner:
  "nt_CompareAndSwap I hooks p x h n = (r, n') \<Longrightarrow> li_CompareAndSwap I p x h (nt_inner n) = (r, nt_inner n')"
  by (cases "li_CompareAndSwap I p x h (nt_inner n)"; cases "fst (li_CompareAndSwap I p x h (nt_inner n))")
    (auto simp: nt_CompareAndSwap_def Let_def notify_inner)

lemma nt_CompareAndRemove_inner:
  "nt_CompareAndRemove I hooks p x n = (r, n') \<Longrightarrow> li_CompareAndRemove I p x (nt_inner n) = (r, nt_inner n')"
  by (cases "li_CompareAndRemove I p x (nt_inner n)"; cases "fst (li_CompareAndRemove I p x (nt_inner n))")
    (auto simp: nt_CompareAndRemove_def Let_def notify_inner)

lemma cond_err_unchanged:
  "nt_CompareAndSwap I hooks p x h n = (Inl e, n') \<Longrightarrow> nt_inner n' = nt_inner n \<Longrightarrow> n' = n"
  "nt_CompareAndRemove I hooks p x n = (Inl e, n') \<Longrightarrow> nt_inner n' = nt_inner n \<Longrightarrow> n' = n"
  by (auto simp: nt_CompareAndSwap_def nt_CompareAndRemove_def Let_def split: prod.splits sum.splits)

end

sublocale notifying_quiet \<subseteq> notified: location_base
  "NotifyingLocationIndex_iface I hooks" "\<lambda>n. inv (nt_inner n)" "\<lambda>n. abs (nt_inner n)" Some Some
proof unfold_locales
  fix n n' :: "('i, 'w) NotifyingLocationIndex" and p h r x h' e q v
  let ?N = "NotifyingLocationIndex_iface I hooks"
  assume inv: "inv (nt_inner n)"
  show "li_Get ?N p n = Option.bind (Some p) (abs (nt_inner n))"
    and "li_Has ?N p n \<longleftrightarrow> li_Get ?N p n \<noteq> None"
    and "li_LenPrefix ?N q n = length (li_List ?N q n)"
    using get_abs [OF inv] has_abs [OF inv] len_abs [OF inv] by (simp_all add: NotifyingLocationIndex_iface_def)
  show "Some q = Some v \<Longrightarrow> lists_under (li_List ?N q n) v (abs (nt_inner n))"
    and "Some q = None \<Longrightarrow> li_List ?N q n = []"
    and "Some p = None \<Longrightarrow> \<exists>e. li_Set ?N p h n = (Inl e, n)"
    using list_abs [OF inv] by (simp_all add: NotifyingLocationIndex_iface_def)
  show "li_Set ?N p h n = (Inr (), n') \<Longrightarrow>
      inv (nt_inner n') \<and> (\<exists>k. Some p = Some k \<and> abs (nt_inner n') = (abs (nt_inner n))(k \<mapsto> h))"
    using nt_Set_ok [OF inv, of p h n'] by (simp add: NotifyingLocationIndex_iface_def)
  show "li_Remove ?N p n = (r, n') \<Longrightarrow>
      inv (nt_inner n') \<and> r = li_Get ?N p n \<and>
      (case Some p of None \<Rightarrow> n' = n | Some k \<Rightarrow> abs (nt_inner n') = (abs (nt_inner n))(k := None))"
    using remove_abs [OF inv nt_Remove_inner, of p r n'] by (simp add: NotifyingLocationIndex_iface_def)
  show "li_CompareAndSwap ?N p x h n = (Inr (), n') \<Longrightarrow>
      inv (nt_inner n') \<and> (\<exists>k. Some p = Some k \<and> abs (nt_inner n) k = Some x \<and>
        abs (nt_inner n') = (abs (nt_inner n))(k \<mapsto> h))"
    using cas_ok [OF inv nt_CompareAndSwap_inner, of p x h n'] by (simp add: NotifyingLocationIndex_iface_def)
  show "li_CompareAndSwap ?N p x h n = (Inl e, n') \<Longrightarrow>
      n' = n \<and> li_Get ?N p n \<noteq> Some x \<and> (\<forall>a. e = CasActual a \<longrightarrow> li_Get ?N p n = Some a)"
    using cas_err [OF inv nt_CompareAndSwap_inner, of p x h e n'] cond_err_unchanged(1) [of p x h n e n']
    by (simp add: NotifyingLocationIndex_iface_def)
  show "li_CompareAndRemove ?N p x n = (Inr (), n') \<Longrightarrow>
      inv (nt_inner n') \<and> (\<exists>k. Some p = Some k \<and> abs (nt_inner n) k = Some x \<and>
        abs (nt_inner n') = (abs (nt_inner n))(k := None))"
    using car_ok [OF inv nt_CompareAndRemove_inner, of p x n'] by (simp add: NotifyingLocationIndex_iface_def)
  show "li_CompareAndRemove ?N p x n = (Inl e, n') \<Longrightarrow>
      n' = n \<and> li_Get ?N p n \<noteq> Some x \<and> (\<forall>a. e = CasActual a \<longrightarrow> li_Get ?N p n = Some a)"
    using car_err [OF inv nt_CompareAndRemove_inner, of p x e n'] cond_err_unchanged(2) [of p x n e n']
    by (simp add: NotifyingLocationIndex_iface_def)
qed

interpretation ntmem: notifying_quiet MemoryLocationIndex_iface mli_inv mli_abs "map observer obs" for obs
  by unfold_locales (rule quiet_observers)

text \<open>The index a peer is built with: the namespaced view of the notifying in-memory index.\<close>

abbreviation peer_index where
  "peer_index obs ns \<equiv>
     NamespacedIndex_iface (NewNamespacedIndex (NotifyingLocationIndex_iface MemoryLocationIndex_iface (map observer obs)) ns)"

interpretation peer: ns_wrapper
  "NotifyingLocationIndex_iface MemoryLocationIndex_iface (map observer obs)"
  "\<lambda>n. mli_inv (nt_inner n)" "\<lambda>n. mli_abs (nt_inner n)" ns for obs ns
  by unfold_locales

section \<open>Properties\<close>

definition depth_refused :: "MutationContext option \<Rightarrow> ('i, 'w) NotifyingLocationIndex \<Rightarrow> bool" where
  "depth_refused ctx n \<longleftrightarrow> (case ctx_depth ctx of None \<Rightarrow> False | Some d \<Rightarrow> maxCascadeDepth n \<le> d)"

definition change_event :: "string \<Rightarrow> hash \<Rightarrow> hash option \<Rightarrow> MutationContext option \<Rightarrow> TreeChangeEvent" where
  "change_event p h prev ctx =
     \<lparr>evt_Path = p, evt_PeerID = '''', evt_Hash = h,
      evt_PreviousHash = (case prev of None \<Rightarrow> zero_hash | Some q \<Rightarrow> q),
      evt_ChangeType = (case prev of None \<Rightarrow> ChangeCreated | Some _ \<Rightarrow> ChangeModified), evt_Context = ctx\<rparr>"

lemma setInternal_commit:
  assumes "\<not> depth_refused ctx n" and "mli_Get p (nt_inner n) \<noteq> Some h"
  shows "setInternal MemoryLocationIndex_iface hooks p h ctx n =
    (let evt = change_event p h (mli_Get p (nt_inner n)) ctx;
         n1 = n\<lparr>nt_inner := snd (mli_Set p h (nt_inner n))\<rparr>
     in case runCascade hooks evt ctx n1 of
          (cr, n2) \<Rightarrow> ((cr, fst (emit evt n2)), snd (emit evt n2)))"
  using assms
  by (auto simp: setInternal_def depth_refused_def change_event_def Let_def MemoryLocationIndex_iface_def
      mli_Set_def split: option.splits prod.splits sum.splits)

text \<open>
  A write through the notifying index has exactly three outcomes, whatever the hooks do: at or
  beyond the depth limit nothing at all happens (no binding, no hook, no event) and every hook is
  reported skipped; a write of the hash already bound is a no-op without cascade and event;
  otherwise the binding is committed first, every hook runs on a state in which it is visible, and
  the event, which states the previous binding, is emitted last.
\<close>

theorem write_commits_before_cascade:
  "(depth_refused ctx n \<longrightarrow>
      (\<exists>cr. setInternal MemoryLocationIndex_iface hooks p h ctx n = ((Some cr, Inr ()), n) \<and>
         \<not> BindingCommitted cr \<and> Skipped cr = map hook_Name hooks \<and> Completed cr = [] \<and> Halted cr = [])) \<and>
   (\<not> depth_refused ctx n \<and> mli_Get p (nt_inner n) = Some h \<longrightarrow>
      setInternal MemoryLocationIndex_iface hooks p h ctx n = ((None, Inr ()), n)) \<and>
   (\<not> depth_refused ctx n \<and> mli_Get p (nt_inner n) \<noteq> Some h \<longrightarrow>
      (\<exists>n1 n2 cr. n1 = n\<lparr>nt_inner := nt_inner n1\<rparr> \<and>
        (\<forall>q. mli_Get q (nt_inner n1) = (if q = p then Some h else mli_Get q (nt_inner n))) \<and>
        runCascade hooks (change_event p h (mli_Get p (nt_inner n)) ctx) ctx n1 = (cr, n2) \<and>
        setInternal MemoryLocationIndex_iface hooks p h ctx n =
          ((cr, fst (emit (change_event p h (mli_Get p (nt_inner n)) ctx) n2)),
           snd (emit (change_event p h (mli_Get p (nt_inner n)) ctx) n2))))"
    (is "?refused \<and> ?noop \<and> (?go \<longrightarrow> ?commit)")
proof (intro conjI)
  show ?refused
    by (auto simp: setInternal_def depth_refused_def)
  show ?noop
    by (simp add: setInternal_def depth_refused_def MemoryLocationIndex_iface_def)
  let ?n1 = "n\<lparr>nt_inner := snd (mli_Set p h (nt_inner n))\<rparr>"
  let ?evt = "change_event p h (mli_Get p (nt_inner n)) ctx"
  obtain cr n2 where run: "runCascade hooks ?evt ctx ?n1 = (cr, n2)"
    by (cases "runCascade hooks ?evt ctx ?n1")
  show "?go \<longrightarrow> ?commit"
  proof
    assume ?go
    with run show ?commit
      using setInternal_commit [of ctx n p h hooks]
      by (intro exI [of _ ?n1] exI [of _ n2] exI [of _ cr]) (simp add: Let_def mli_Set_def mli_Get_def)
  qed
qed

definition demo_ctx :: MutationContext where
  "demo_ctx = \<lparr>AuthorHash = zero_hash, CapabilityHash = zero_hash, CallerCapabilityHash = zero_hash,
     HandlerPattern = ''system/tree'', Operation = ''put'', ChainID = '''', ParentChainID = '''',
     CascadeDepth = Some 32, Clock = [], ClockType = ''''\<rparr>"

definition demo_notifying :: "(MemoryLocationIndex, unit) NotifyingLocationIndex" where
  "demo_notifying = NewNotifyingLocationIndex NewMemoryLocationIndex 4 ()"

theorem write_commits_before_cascade_witness:
  "(\<exists>cr. setInternal MemoryLocationIndex_iface [] ''/p/x'' zero_hash (Some demo_ctx) demo_notifying
           = ((Some cr, Inr ()), demo_notifying) \<and> \<not> BindingCommitted cr) \<and>
   setInternal MemoryLocationIndex_iface [] ''/p/x'' zero_hash None
       (demo_notifying\<lparr>nt_inner := \<lparr>paths = [(''/p/x'', zero_hash)]\<rparr>\<rparr>)
     = ((None, Inr ()), demo_notifying\<lparr>nt_inner := \<lparr>paths = [(''/p/x'', zero_hash)]\<rparr>\<rparr>) \<and>
   (\<exists>n1. mli_Get ''/p/x'' (nt_inner (n1 :: (MemoryLocationIndex, unit) NotifyingLocationIndex)) = Some zero_hash)"
proof (intro conjI)
  let ?n = "demo_notifying\<lparr>nt_inner := \<lparr>paths = [(''/p/x'', zero_hash)]\<rparr>\<rparr>"
  have "depth_refused (Some demo_ctx) demo_notifying" by code_simp
  with write_commits_before_cascade [of "Some demo_ctx" demo_notifying "[]" "''/p/x''" zero_hash]
  show "\<exists>cr. setInternal MemoryLocationIndex_iface [] ''/p/x'' zero_hash (Some demo_ctx) demo_notifying
           = ((Some cr, Inr ()), demo_notifying) \<and> \<not> BindingCommitted cr"
    by blast
  have "\<not> depth_refused None ?n" "mli_Get ''/p/x'' (nt_inner ?n) = Some zero_hash" by code_simp+
  with write_commits_before_cascade [of None ?n "[]" "''/p/x''" zero_hash]
  show "setInternal MemoryLocationIndex_iface [] ''/p/x'' zero_hash None ?n = ((None, Inr ()), ?n)"
    by blast
  have "\<not> depth_refused None demo_notifying" "mli_Get ''/p/x'' (nt_inner demo_notifying) \<noteq> Some zero_hash"
    by code_simp+
  with write_commits_before_cascade [of None demo_notifying "[]" "''/p/x''" zero_hash]
  show "\<exists>n1. mli_Get ''/p/x'' (nt_inner (n1 :: (MemoryLocationIndex, unit) NotifyingLocationIndex)) = Some zero_hash"
    by metis
qed


definition demo_hooks :: "unit NamedSyncHook list" where
  "demo_hooks =
     [\<lparr>hook_Name = ''h0'', hook_Pattern = ''system/*'', hook_Fn = (\<lambda>evt n. (None, n))\<rparr>,
      \<lparr>hook_Name = ''h1'', hook_Pattern = '''',
       hook_Fn = (\<lambda>evt n. (Some \<lparr>Status = 500, Code = ''c'', Message = ''m''\<rparr>, n))\<rparr>,
      \<lparr>hook_Name = ''h2'', hook_Pattern = ''other/*'', hook_Fn = (\<lambda>evt n. (None, n))\<rparr>]"




text \<open>
  C10. The index a peer serves (the namespaced view of the notifying in-memory index, with
  observing hooks) keeps the contract of an index: a \<^verbatim>\<open>Set\<close> that reports success is read back
  under every spelling of its path and changes no other; of two conditional swaps that expect the
  same binding only the first succeeds.
\<close>

theorem peer_index_contract:
  assumes "mli_inv (nt_inner n)"
  shows "(li_Set (peer_index obs ns) p h n = (Inr (), n') \<longrightarrow>
      (\<forall>q. li_Get (peer_index obs ns) q n' =
        (if canonicalizeChecked (mem_ns ns) q = canonicalizeChecked (mem_ns ns) p then Some h
         else li_Get (peer_index obs ns) q n))) \<and>
    (li_CompareAndSwap (peer_index obs ns) p x a n = (Inr (), n1) \<and> a \<noteq> x \<and>
      li_CompareAndSwap (peer_index obs ns) p x b n1 = (r, n2) \<longrightarrow>
      (\<exists>e. r = Inl e \<and> n2 = n1 \<and> li_Get (peer_index obs ns) p n2 = Some a))"
proof (intro conjI impI allI)
  have key: "canonicalizeChecked (mem_ns ns) q =
      canonicalizeChecked (NewNamespacedIndex (NotifyingLocationIndex_iface MemoryLocationIndex_iface (map observer obs)) ns) q" for q
    by (simp add: canonicalizeChecked_def canonicalize_def NewNamespacedIndex_def)
  show "li_Get (peer_index obs ns) q n' =
        (if canonicalizeChecked (mem_ns ns) q = canonicalizeChecked (mem_ns ns) p then Some h
         else li_Get (peer_index obs ns) q n)"
    if "li_Set (peer_index obs ns) p h n = (Inr (), n')" for q
    unfolding key [where q = p] key [where q = q] by (rule peer.wrapped.get_after_set [OF assms that])
  show "\<exists>e. r = Inl e \<and> n2 = n1 \<and> li_Get (peer_index obs ns) p n2 = Some a"
    if "li_CompareAndSwap (peer_index obs ns) p x a n = (Inr (), n1) \<and> a \<noteq> x \<and>
      li_CompareAndSwap (peer_index obs ns) p x b n1 = (r, n2)"
    using that peer.wrapped.cas_race [OF assms, of obs ns p x a n1 b r n2] by blast
qed

theorem peer_index_contract_witness:
  "li_Get (peer_index [] demo_peer) (''/'' @ demo_peer @ ''/x'')
     (snd (li_Set (peer_index [] demo_peer) ''x'' zero_hash demo_notifying)) = Some zero_hash \<and>
   (\<exists>e. fst (li_CompareAndSwap (peer_index [] demo_peer) ''x'' zero_hash zero_hash
        (snd (li_CompareAndSwap (peer_index [] demo_peer) ''x'' zero_hash demo_entity_hash
          (snd (li_Set (peer_index [] demo_peer) ''x'' zero_hash demo_notifying))))) = Inl e)"
proof -
  let ?I = "peer_index [] demo_peer"
  let ?n = "snd (li_Set ?I ''x'' zero_hash demo_notifying)"
  let ?n1 = "snd (li_CompareAndSwap ?I ''x'' zero_hash demo_entity_hash ?n)"
  have inv: "mli_inv (nt_inner demo_notifying)"
    by (simp add: demo_notifying_def NewNotifyingLocationIndex_def mli_inv_def NewMemoryLocationIndex_def)
  have set: "li_Set ?I ''x'' zero_hash demo_notifying = (Inr (), ?n)"
    and key: "canonicalizeChecked (mem_ns demo_peer) (''/'' @ demo_peer @ ''/x'') = canonicalizeChecked (mem_ns demo_peer) ''x''"
    and swap: "li_CompareAndSwap ?I ''x'' zero_hash demo_entity_hash ?n = (Inr (), ?n1)"
    and ne: "demo_entity_hash \<noteq> zero_hash"
    by code_simp+
  have inv2: "mli_inv (nt_inner ?n)"
    using peer.wrapped.set_ok [OF inv set] by blast
  show ?thesis
    using peer_index_contract [OF inv, of "[]" demo_peer "''x''" zero_hash ?n] set key swap ne
      peer_index_contract [OF inv2, of "[]" demo_peer "''x''" _ _ zero_hash demo_entity_hash ?n1 zero_hash
        "fst (li_CompareAndSwap ?I ''x'' zero_hash zero_hash ?n1)" "snd (li_CompareAndSwap ?I ''x'' zero_hash zero_hash ?n1)"]
    by auto
qed

text \<open>
  The result of a write refused for its depth is distinguishable from success only when a
  hook is registered: the binding is not committed and no error is returned, yet without hooks
  \<^verbatim>\<open>IsDepthRefused\<close> is false and \<^verbatim>\<open>IsComplete\<close>, on which the tree handler bases its 200, is true.
\<close>

theorem refused_write_without_hooks_looks_complete:
  assumes "depth_refused ctx n" and "nt_SetWithContext I hooks p h ctx n = ((cr, err), n')"
  shows "n' = n \<and> err = Inr () \<and> (IsDepthRefused cr \<longleftrightarrow> hooks \<noteq> []) \<and> (IsComplete cr \<longleftrightarrow> hooks = [])"
  using assms
  by (auto simp: nt_SetWithContext_def setInternal_def depth_refused_def IsDepthRefused_def IsComplete_def)

theorem refused_write_without_hooks_looks_complete_witness:
  "\<exists>cr. nt_SetWithContext MemoryLocationIndex_iface [] ''/p/x'' zero_hash (Some demo_ctx) demo_notifying
     = ((Some cr, Inr ()), demo_notifying) \<and> \<not> BindingCommitted cr \<and> IsComplete (Some cr)"
proof -
  have ref: "depth_refused (Some demo_ctx) demo_notifying" by code_simp
  obtain cr err n' where r: "nt_SetWithContext MemoryLocationIndex_iface [] ''/p/x'' zero_hash (Some demo_ctx) demo_notifying
      = ((cr, err), n')"
    by (metis surj_pair)
  have "cr = Some \<lparr>BindingCommitted = False, Completed = [], Halted = [], Skipped = [], cr_CascadeDepth = 32\<rparr>"
    using r ref by (simp add: nt_SetWithContext_def setInternal_def depth_refused_def ctx_depth_def demo_ctx_def)
  with refused_write_without_hooks_looks_complete [OF ref r] r show ?thesis
    by auto
qed

text \<open>
  A write that finds the event channel full returns an error although its binding is
  committed (and its hooks have run): the event is lost, the drop counter advances. So for this
  implementation a non-nil error of \<^verbatim>\<open>SetWithContext\<close> does not mean that nothing was written.
\<close>

theorem saturated_write_commits:
  assumes "\<not> depth_refused ctx n" and "mli_Get p (nt_inner n) \<noteq> Some h"
    and "\<not> suppressEmit n" and "\<not> done_closed n" and "events_cap n \<le> length (events n)"
  shows "\<exists>cr n'. nt_SetWithContext MemoryLocationIndex_iface (map observer obs) p h ctx n
      = ((cr, Inl [ErrEventBufferFull]), n') \<and>
    mli_Get p (nt_inner n') = Some h \<and> events n' = events n \<and> droppedEvents n' = droppedEvents n + 1"
proof -
  let ?evt = "change_event p h (mli_Get p (nt_inner n)) ctx"
  let ?n1 = "n\<lparr>nt_inner := snd (mli_Set p h (nt_inner n))\<rparr>"
  obtain cr n2 where run: "runCascade (map observer obs) ?evt ctx ?n1 = (cr, n2)"
    by (cases "runCascade (map observer obs) ?evt ctx ?n1")
  obtain w where n2: "n2 = ?n1\<lparr>world := w\<rparr>"
    using runCascade_quiet [OF quiet_observers, of obs ?evt ctx ?n1] run by auto
  have "emit ?evt n2 = (Inl [ErrEventBufferFull], n2\<lparr>droppedEvents := droppedEvents n + 1\<rparr>)"
    unfolding n2 using assms(3-5) by (simp add: emit_def)
  then show ?thesis
    using setInternal_commit [OF assms(1,2), of "map observer obs"] run n2
    by (intro exI [of _ cr] exI [of _ "n2\<lparr>droppedEvents := droppedEvents n + 1\<rparr>"])
      (simp add: nt_SetWithContext_def Let_def mli_Set_def mli_Get_def)
qed

theorem saturated_write_commits_witness:
  "\<exists>cr n'. nt_SetWithContext MemoryLocationIndex_iface (map observer []) ''/p/x'' zero_hash None
      (demo_notifying\<lparr>events_cap := 0\<rparr>) = ((cr, Inl [ErrEventBufferFull]), n') \<and>
    mli_Get ''/p/x'' (nt_inner n') = Some zero_hash"
proof -
  let ?n = "demo_notifying\<lparr>events_cap := 0\<rparr>"
  have "\<not> depth_refused None ?n" "mli_Get ''/p/x'' (nt_inner ?n) \<noteq> Some zero_hash"
    "\<not> suppressEmit ?n" "\<not> done_closed ?n" "events_cap ?n \<le> length (events ?n)"
    by code_simp+
  from saturated_write_commits [OF this, of "[]"] show ?thesis by blast
qed

subsection \<open>The tracker\<close>

definition ct_run :: "(int \<times> string \<times> u64) list \<Rightarrow> CascadeTracker \<Rightarrow> CascadeTracker" where
  "ct_run us ct = fold (\<lambda>(now, c, d) ct. snd (ct_Update now c d ct)) us ct"

lemma ct_Update_max:
  "fst (ct_Update now c d ct) = max d (ct_Depth c ct) \<and>
   ct_Depth q (snd (ct_Update now c d ct)) = (if q = c then max d (ct_Depth c ct) else ct_Depth q ct) \<and>
   (gm_wf (ct_entries ct) \<longrightarrow> gm_wf (ct_entries (snd (ct_Update now c d ct)))) \<and>
   ttl (snd (ct_Update now c d ct)) = ttl ct"
  by (auto simp: ct_Update_def ct_Depth_def max_def not_less split: option.splits)

lemma ct_run_Depth:
  "ct_Depth q (ct_run us ct) = fold max (map (snd \<circ> snd) (filter (\<lambda>(now, c, d). c = q) us)) (ct_Depth q ct)"
  by (induction us arbitrary: ct) (auto simp: ct_run_def ct_Update_max)

lemma gm_get_filter: "gm_wf m \<Longrightarrow> gm_get (filter (\<lambda>(k, v). Q v) m) k = (case gm_get m k of None \<Rightarrow> None | Some v \<Rightarrow> if Q v then Some v else None)"
  unfolding gm_get_def gm_wf_def
  by (induction m) (auto simp: map_of_eq_None_iff image_iff split: option.splits)

lemma ct_Update_entry:
  "gm_get (ct_entries (snd (ct_Update now c d ct))) c = Some \<lparr>MaxDepth = max d (ct_Depth c ct), LastSeen = now\<rparr>"
  by (auto simp: ct_Update_def ct_Depth_def max_def not_less split: option.splits)

lemma ct_Depth_get: "gm_get (ct_entries ct) c = Some e \<Longrightarrow> ct_Depth c ct = MaxDepth e"
  by (simp add: ct_Depth_def)

text \<open>
  The tracker enforces one depth per chain across peers: after any sequence of updates the
  tracked depth of a chain is the largest depth ever reported for it, an update returns that
  maximum, so the effective depth never falls; pruning no later than the ttl after an update keeps
  the depth it returned.
\<close>

theorem tracker_depth_is_max:
  assumes "gm_wf (ct_entries ct)" and "now' \<le> now + ttl ct"
  shows "ct_Depth q (ct_run us ct) =
      fold max (map (snd \<circ> snd) (filter (\<lambda>(t, c, d'). c = q) us)) (ct_Depth q ct) \<and>
    fst (ct_Update now c d ct) = max d (ct_Depth c ct) \<and>
    ct_Depth c (ct_Prune now' (snd (ct_Update now c d ct))) = fst (ct_Update now c d ct)"
proof -
  have "gm_wf (ct_entries (snd (ct_Update now c d ct)))" and ttl: "ttl (snd (ct_Update now c d ct)) = ttl ct"
    using ct_Update_max [of now c d ct] assms(1) by auto
  from gm_get_filter [OF this(1), of "\<lambda>e. \<not> LastSeen e < now' - ttl ct" c]
  have "gm_get (ct_entries (ct_Prune now' (snd (ct_Update now c d ct)))) c
      = Some \<lparr>MaxDepth = max d (ct_Depth c ct), LastSeen = now\<rparr>"
    using assms(2) ttl by (simp add: ct_Prune_def Let_def ct_Update_entry)
  then have "ct_Depth c (ct_Prune now' (snd (ct_Update now c d ct))) = max d (ct_Depth c ct)"
    by (simp add: ct_Depth_get)
  then show ?thesis
    using ct_run_Depth [of q us ct] ct_Update_max [of now c d ct] by simp
qed

theorem tracker_depth_is_max_witness:
  "ct_Depth ''c'' (ct_Prune 15 (snd (ct_Update 10 ''c'' 3 (snd (ct_Update 9 ''c'' 7 (NewCascadeTracker 5)))))) = 7"
proof -
  let ?ct = "snd (ct_Update 9 ''c'' 7 (NewCascadeTracker 5))"
  have "gm_wf (ct_entries ?ct)" "15 \<le> 10 + ttl ?ct" and d: "ct_Depth ''c'' ?ct = 7"
    by code_simp+
  from tracker_depth_is_max [OF this(1,2), of "''c''" "[]" "''c''" 3] d show ?thesis
    by (simp add: max_def)
qed

end
