(* ===== verification/Store_Content.thy ===== *)
theory Store_Content
  imports Store_Notifying
begin

text \<open>
  The notifying content store (\<^verbatim>\<open>core/store/notifying_content.go\<close>, \<^verbatim>\<open>content_event.go\<close>) and the
  registry of context fields (\<^verbatim>\<open>context_fields.go\<close>). As in \<open>Store_Notifying\<close>, a hook is a callback
  on the whole state, and the registered hooks are an argument.
\<close>

record ContentStoreEvent =
  ce_Hash :: hash
  ce_Entity :: entity
  ce_IsNew :: bool

record ContentConsumerResult =
  cc_Status :: nat
  cc_ErrorCode :: string
  cc_Message :: string

record 'n NamedContentHook =
  ch_Name :: string
  ch_Fn :: "ContentStoreEvent \<Rightarrow> 'n \<Rightarrow> ContentConsumerResult option \<times> 'n"

record ('c, 'w) NotifyingContentStore =
  ncs_inner :: 'c
  ncs_world :: 'w

type_synonym ('c, 'w) content_hook = "('c, 'w) NotifyingContentStore NamedContentHook"

definition NewNotifyingContentStore :: "'c \<Rightarrow> 'w \<Rightarrow> ('c, 'w) NotifyingContentStore" where
  "NewNotifyingContentStore inner w = \<lparr>ncs_inner = inner, ncs_world = w\<rparr>"

definition AddNamedContentHook ::
  "'n NamedContentHook list \<Rightarrow> string \<Rightarrow> (ContentStoreEvent \<Rightarrow> 'n \<Rightarrow> ContentConsumerResult option \<times> 'n) \<Rightarrow>
     'n NamedContentHook list" where
  "AddNamedContentHook hooks name fn = hooks @ [\<lparr>ch_Name = name, ch_Fn = fn\<rparr>]"

fun fireContentEvent :: "'n NamedContentHook list \<Rightarrow> ContentStoreEvent \<Rightarrow> 'n \<Rightarrow> 'n" where
  "fireContentEvent [] evt n = n"
| "fireContentEvent (hook # hooks) evt n =
     (case ch_Fn hook evt n of
        (result, n') \<Rightarrow>
          if (case result of None \<Rightarrow> False | Some r \<Rightarrow> cc_Status r \<noteq> 0 \<and> cc_Status r \<noteq> 200) then n'
          else fireContentEvent hooks evt n')"

definition ncs_inner_Put ::
  "'c ContentStore \<Rightarrow> entity \<Rightarrow> ('c, 'w) NotifyingContentStore \<Rightarrow> hash result \<times> ('c, 'w) NotifyingContentStore" where
  "ncs_inner_Put C e n = (case cs_Put C e (ncs_inner n) of (r, c) \<Rightarrow> (r, n\<lparr>ncs_inner := c\<rparr>))"

definition ncs_Put ::
  "'p hash_prims_scheme \<Rightarrow> 'c ContentStore \<Rightarrow> ('c, 'w) content_hook list \<Rightarrow> entity \<Rightarrow>
     ('c, 'w) NotifyingContentStore \<Rightarrow> hash result \<times> ('c, 'w) NotifyingContentStore" where
  "ncs_Put P C hooks e n =
     (case ComputeFormat P (Algorithm (ContentHash e)) (Type e) (Data e) of
        Inl err \<Rightarrow> ncs_inner_Put C e n
      | Inr computed \<Rightarrow>
          if \<not> IsZero (ContentHash e) \<and> ContentHash e \<noteq> computed then ncs_inner_Put C e n
          else if cs_Has C computed (ncs_inner n) then (Inr computed, n)
          else (case ncs_inner_Put C e n of
                  (Inl err, n') \<Rightarrow> (Inl err, n')
                | (Inr h, n') \<Rightarrow>
                    (Inr h, fireContentEvent hooks \<lparr>ce_Hash = h, ce_Entity = e, ce_IsNew = True\<rparr> n')))"

definition ncs_Remove ::
  "'c ContentStore \<Rightarrow> hash \<Rightarrow> ('c, 'w) NotifyingContentStore \<Rightarrow> bool \<times> ('c, 'w) NotifyingContentStore" where
  "ncs_Remove C h n = (case cs_Remove C h (ncs_inner n) of (b, c) \<Rightarrow> (b, n\<lparr>ncs_inner := c\<rparr>))"

definition NotifyingContentStore_iface ::
  "'p hash_prims_scheme \<Rightarrow> 'c ContentStore \<Rightarrow> ('c, 'w) content_hook list \<Rightarrow>
     ('c, 'w) NotifyingContentStore ContentStore" where
  "NotifyingContentStore_iface P C hooks =
     \<lparr>cs_Put = ncs_Put P C hooks,
      cs_Get = (\<lambda>h n. cs_Get C h (ncs_inner n)),
      cs_Has = (\<lambda>h n. cs_Has C h (ncs_inner n)),
      cs_Remove = ncs_Remove C,
      cs_Len = (\<lambda>n. cs_Len C (ncs_inner n))\<rparr>"

section \<open>The registry of context fields\<close>

record ContextFieldRegistration =
  cf_Name :: string
  cf_TypeName :: string
  cf_Owner :: string

type_synonym ContextFieldRegistry = "(string, ContextFieldRegistration) gomap"

definition coreFields :: "string list" where
  "coreFields = [''chain_id'', ''parent_chain_id'', ''author'', ''caller_capability'', ''request_id'',
     ''bounds'', ''cascade_depth'', ''capability'', ''handler_grant'', ''handler_pattern'', ''operation'']"

definition NewContextFieldRegistry :: ContextFieldRegistry where
  "NewContextFieldRegistry = []"

definition cf_Register ::
  "ContextFieldRegistration \<Rightarrow> ContextFieldRegistry \<Rightarrow> unit result \<times> ContextFieldRegistry" where
  "cf_Register reg r =
     (if cf_Name reg \<in> set coreFields then (Inl [], r)
      else (case gm_get r (cf_Name reg) of
              Some _ \<Rightarrow> (Inl [], r)
            | None \<Rightarrow> (Inr (), gm_set r (cf_Name reg) reg)))"

definition cf_Get :: "string \<Rightarrow> ContextFieldRegistry \<Rightarrow> ContextFieldRegistration option" where
  "cf_Get name r = gm_get r name"

definition cf_All :: "ContextFieldRegistry \<Rightarrow> ContextFieldRegistration list" where
  "cf_All r = map snd r"

text \<open>Every field stays with its first owner, and no core field is ever claimed.\<close>

definition cf_inv :: "ContextFieldRegistry \<Rightarrow> bool" where
  "cf_inv r \<longleftrightarrow> gm_wf r \<and> (\<forall>name reg. cf_Get name r = Some reg \<longrightarrow> cf_Name reg = name \<and> name \<notin> set coreFields)"

lemma cf_Register_inv:
  assumes "cf_inv r" and "cf_Register reg r = (res, r')"
  shows "cf_inv r' \<and> (\<forall>name x. cf_Get name r = Some x \<longrightarrow> cf_Get name r' = Some x) \<and>
    (res = Inr () \<longleftrightarrow> cf_Name reg \<notin> set coreFields \<and> cf_Get (cf_Name reg) r = None) \<and>
    (res = Inr () \<longrightarrow> cf_Get (cf_Name reg) r' = Some reg \<and> reg \<in> set (cf_All r'))"
proof (cases "cf_Name reg \<notin> set coreFields \<and> gm_get r (cf_Name reg) = None")
  case True
  then have r': "res = Inr ()" "r' = gm_set r (cf_Name reg) reg"
    using assms(2) by (auto simp: cf_Register_def)
  have "gm_get r' (cf_Name reg) = Some reg"
    using r' by simp
  from gm_get_mem [OF this] have "reg \<in> set (cf_All r')"
    by (force simp: cf_All_def)
  then show ?thesis
    using True assms(1) r' by (auto simp: cf_inv_def cf_Get_def)
next
  case False
  then have "r' = r" "res \<noteq> Inr ()"
    using assms(2) by (auto simp: cf_Register_def split: if_splits)
  then show ?thesis
    using False assms(1) by (auto simp: cf_Get_def)
qed

section \<open>The notifying store keeps the contract\<close>

definition content_observer ::
  "string \<times> (ContentStoreEvent \<Rightarrow> 'w \<Rightarrow> ContentConsumerResult option \<times> 'w) \<Rightarrow> ('c, 'w) content_hook" where
  "content_observer = (\<lambda>(name, f).
     \<lparr>ch_Name = name, ch_Fn = (\<lambda>evt n. case f evt (ncs_world n) of (r, w) \<Rightarrow> (r, n\<lparr>ncs_world := w\<rparr>))\<rparr>)"

lemma fire_observers: "ncs_inner (fireContentEvent (map content_observer obs) evt n) = ncs_inner n"
proof (induction obs arbitrary: n)
  case (Cons ob obs)
  have IH: "ncs_inner (fireContentEvent (map content_observer obs) evt (n\<lparr>ncs_world := w\<rparr>)) = ncs_inner n" for w
    using Cons.IH [of "n\<lparr>ncs_world := w\<rparr>"] by simp
  show ?case
    by (auto simp: content_observer_def split: prod.split option.split)
      (use IH in \<open>simp_all add: content_observer_def\<close>)
qed simp

locale notifying_content = content_store P C inv abs
  for P :: "'p hash_prims_scheme" and C :: "'c ContentStore" and inv abs +
  fixes obs :: "(string \<times> (ContentStoreEvent \<Rightarrow> 'w \<Rightarrow> ContentConsumerResult option \<times> 'w)) list"
begin

lemma put_cases:
  assumes inv: "inv (ncs_inner n)" and put: "ncs_Put P C hooks e n = (r, n')"
  obtains (err) x where "r = Inl x" "n' = n" "\<not> is_ok (fst (cs_Put C e (ncs_inner n)))"
  | (old) h where "r = Inr h" "n' = n" "abs (ncs_inner n) h \<noteq> None"
      "ComputeFormat P (Algorithm (ContentHash e)) (Type e) (Data e) = Inr h"
      "ContentHash e = zero_hash \<or> ContentHash e = h"
  | (new) h c where "r = Inr h" "abs (ncs_inner n) h = None" "cs_Put C e (ncs_inner n) = (Inr h, c)"
      "n' = fireContentEvent hooks \<lparr>ce_Hash = h, ce_Entity = e, ce_IsNew = True\<rparr> (n\<lparr>ncs_inner := c\<rparr>)"
proof -
  obtain q c where c: "cs_Put C e (ncs_inner n) = (q, c)"
    by (cases "cs_Put C e (ncs_inner n)")
  show ?thesis
  proof (cases q)
    case (Inl x)
    then have "c = ncs_inner n"
      using put_err [OF inv] c by blast
    moreover have "\<nexists>h. ComputeFormat P (Algorithm (ContentHash e)) (Type e) (Data e) = Inr h \<and>
        (ContentHash e = zero_hash \<or> ContentHash e = h)"
      using put_accepts [OF inv, of e] c Inl by simp
    ultimately have "ncs_Put P C hooks e n = (Inl x, n)"
      using c Inl by (auto simp: ncs_Put_def ncs_inner_Put_def IsZero_def split: sum.split)
    then show ?thesis
      using put err [of x] c Inl by simp
  next
    case (Inr h)
    then have ok: "ComputeFormat P (Algorithm (ContentHash e)) (Type e) (Data e) = Inr h"
      and claim: "ContentHash e = zero_hash \<or> ContentHash e = h"
      using put_accepts [OF inv, of e] put_ok [OF inv, of e h c] c by auto
    show ?thesis
    proof (cases "abs (ncs_inner n) h = None")
      case True
      then show ?thesis
        using put ok claim Inr c chas_abs [OF inv] new [of h c]
        by (auto simp: ncs_Put_def ncs_inner_Put_def IsZero_def)
    next
      case False
      then show ?thesis
        using put ok claim chas_abs [OF inv] old [of h] by (auto simp: ncs_Put_def IsZero_def)
    qed
  qed
qed

end

sublocale notifying_content \<subseteq> notified: content_store P
  "NotifyingContentStore_iface P C (map content_observer obs)"
  "\<lambda>n. inv (ncs_inner n)" "\<lambda>n. abs (ncs_inner n)"
proof unfold_locales
  fix n n' :: "('c, 'w) NotifyingContentStore" and h e b x
  let ?N = "NotifyingContentStore_iface P C (map content_observer obs)"
  let ?hooks = "map content_observer obs"
  assume inv: "inv (ncs_inner n)"
  show "cs_Get ?N h n = abs (ncs_inner n) h" and "cs_Has ?N h n \<longleftrightarrow> abs (ncs_inner n) h \<noteq> None"
    and "finite (dom (abs (ncs_inner n))) \<and> cs_Len ?N n = card (dom (abs (ncs_inner n)))"
    using cget_abs [OF inv] chas_abs [OF inv] clen_abs [OF inv] by (simp_all add: NotifyingContentStore_iface_def)
  show "abs (ncs_inner n) h = Some e \<Longrightarrow>
      ContentHash e = h \<and> ComputeFormat P (Algorithm h) (Type e) (Data e) = Inr h"
    by (rule certified [OF inv])
  have put: "cs_Put ?N e n = ncs_Put P C ?hooks e n" for e
    by (simp add: NotifyingContentStore_iface_def)
  show "inv (ncs_inner n') \<and> ComputeFormat P (Algorithm (ContentHash e)) (Type e) (Data e) = Inr h \<and>
      (abs (ncs_inner n') = (abs (ncs_inner n))(h \<mapsto> e\<lparr>ContentHash := h\<rparr>) \<or>
       abs (ncs_inner n) h \<noteq> None \<and> abs (ncs_inner n') = abs (ncs_inner n))"
    if "cs_Put ?N e n = (Inr h, n')"
    using inv that [unfolded put]
  proof (cases rule: put_cases)
    case (new h' c)
    then have "h' = h" and "ncs_inner n' = c"
      by (simp_all add: fire_observers)
    with new put_ok [OF inv, of e h c] show ?thesis by simp
  qed (use inv in simp_all)
  show "n' = n" if "cs_Put ?N e n = (Inl x, n')"
    using inv that [unfolded put] by (cases rule: put_cases) simp_all
  show "is_ok (fst (cs_Put ?N e n)) \<longleftrightarrow>
      (\<exists>h. ComputeFormat P (Algorithm (ContentHash e)) (Type e) (Data e) = Inr h \<and>
           (ContentHash e = zero_hash \<or> ContentHash e = h))"
  proof -
    obtain r m where pm: "ncs_Put P C ?hooks e n = (r, m)" by (cases "ncs_Put P C ?hooks e n")
    have "is_ok r \<longleftrightarrow> is_ok (fst (cs_Put C e (ncs_inner n)))"
      using inv pm
    proof (cases rule: put_cases)
      case (old h)
      then show ?thesis using put_accepts [OF inv, of e] by simp
    qed simp_all
    with pm put put_accepts [OF inv, of e] show ?thesis by simp
  qed
  show "cs_Remove ?N h n = (b, n') \<Longrightarrow>
      inv (ncs_inner n') \<and> b = (abs (ncs_inner n) h \<noteq> None) \<and> abs (ncs_inner n') = (abs (ncs_inner n))(h := None)"
    using cremove_abs [OF inv, of h b]
    by (auto simp: NotifyingContentStore_iface_def ncs_Remove_def split: prod.splits)
qed

interpretation ncmem: notifying_content P "MemoryContentStore_iface P" "mcs_inv P" mcs_abs obs for P obs
  by unfold_locales

section \<open>Properties\<close>

text \<open>An observer that writes down the hashes it is told, and a run of puts it watches.\<close>

definition log_hook :: "string \<times> (ContentStoreEvent \<Rightarrow> hash list \<Rightarrow> ContentConsumerResult option \<times> hash list)" where
  "log_hook = (''log'', \<lambda>evt w. (None, w @ [ce_Hash evt]))"

definition ncs_puts ::
  "'p hash_prims_scheme \<Rightarrow> entity list \<Rightarrow> (MemoryContentStore, hash list) NotifyingContentStore \<Rightarrow>
     (MemoryContentStore, hash list) NotifyingContentStore" where
  "ncs_puts P es n =
     fold (\<lambda>e n. snd (ncs_Put P (MemoryContentStore_iface P) [content_observer log_hook] e n)) es n"

lemma fire_log:
  "fireContentEvent [content_observer log_hook] evt n = n\<lparr>ncs_world := ncs_world n @ [ce_Hash evt]\<rparr>"
  by (simp add: content_observer_def log_hook_def)

lemma ncs_Put_logged:
  assumes inv: "mcs_inv P (ncs_inner n)"
    and put: "ncs_Put P (MemoryContentStore_iface P) [content_observer log_hook] e n = (r, n')"
  shows "mcs_inv P (ncs_inner n') \<and>
    (n' = n \<or> (\<exists>h. mcs_abs (ncs_inner n) h = None \<and> ncs_world n' = ncs_world n @ [h] \<and>
       dom (mcs_abs (ncs_inner n')) = insert h (dom (mcs_abs (ncs_inner n)))))"
  using inv put
proof (cases rule: ncmem.put_cases)
  case (new h c)
  then have "mcs_Put P e (ncs_inner n) = (Inr h, c)"
    by (simp add: MemoryContentStore_iface_def)
  from mcs_Put_inv [OF inv this] have "mcs_inv P c" "dom (mcs_abs c) = insert h (dom (mcs_abs (ncs_inner n)))"
    by auto
  moreover have "ncs_inner n' = c" "ncs_world n' = ncs_world n @ [h]"
    using new(4) unfolding fire_log by simp_all
  ultimately show ?thesis using new(2) by auto
qed (use inv in simp_all)

text \<open>
  The notifying content store announces each entity once: over any sequence of puts, accepted
  or refused, repeated or not, the hashes announced to a hook are distinct and are exactly those
  that entered the store.
\<close>

theorem content_events_once:
  assumes "mcs_inv P (ncs_inner n)"
  shows "\<exists>new. ncs_world (ncs_puts P es n) = ncs_world n @ new \<and> distinct new \<and>
    (\<forall>h. h \<in> set new \<longleftrightarrow> mcs_Has h (ncs_inner (ncs_puts P es n)) \<and> \<not> mcs_Has h (ncs_inner n)) \<and>
    (\<forall>h. mcs_Has h (ncs_inner n) \<longrightarrow> mcs_Has h (ncs_inner (ncs_puts P es n)))"
  using assms
proof (induction es arbitrary: n)
  case Nil
  then show ?case by (simp add: ncs_puts_def)
next
  case (Cons e es)
  obtain r n1 where put: "ncs_Put P (MemoryContentStore_iface P) [content_observer log_hook] e n = (r, n1)"
    by (cases "ncs_Put P (MemoryContentStore_iface P) [content_observer log_hook] e n")
  have run: "ncs_puts P (e # es) n = ncs_puts P es n1"
    using put by (simp add: ncs_puts_def)
  have has: "mcs_Has h s \<longleftrightarrow> h \<in> dom (mcs_abs s)" for h s
    by (simp add: mcs_Has_def mcs_abs_def dom_def)
  from ncs_Put_logged [OF Cons.prems put] have inv1: "mcs_inv P (ncs_inner n1)"
    and step: "n1 = n \<or> (\<exists>h. mcs_abs (ncs_inner n) h = None \<and> ncs_world n1 = ncs_world n @ [h] \<and>
       dom (mcs_abs (ncs_inner n1)) = insert h (dom (mcs_abs (ncs_inner n))))"
    by auto
  from Cons.IH [OF inv1] obtain new where new: "ncs_world (ncs_puts P es n1) = ncs_world n1 @ new" "distinct new"
    "\<And>h. h \<in> set new \<longleftrightarrow> mcs_Has h (ncs_inner (ncs_puts P es n1)) \<and> \<not> mcs_Has h (ncs_inner n1)"
    "\<And>h. mcs_Has h (ncs_inner n1) \<Longrightarrow> mcs_Has h (ncs_inner (ncs_puts P es n1))"
    by blast
  show ?case
  proof (cases "n1 = n")
    case True
    with new run show ?thesis by auto
  next
    case False
    with step obtain h where h: "mcs_abs (ncs_inner n) h = None" "ncs_world n1 = ncs_world n @ [h]"
      "dom (mcs_abs (ncs_inner n1)) = insert h (dom (mcs_abs (ncs_inner n)))"
      by blast
    have "mcs_Has h (ncs_inner (ncs_puts P es n1))" and "h \<notin> set new"
      using new(3,4) h(3) has by auto
    then show ?thesis
      using new h unfolding run by (intro exI [of _ "h # new"]) (auto simp: has)
  qed
qed

theorem content_events_once_witness:
  "ncs_world (ncs_puts demo_hash_prims [demo_entity, demo_entity]
     (NewNotifyingContentStore NewMemoryContentStore [])) = [demo_entity_hash]"
proof -
  let ?n = "NewNotifyingContentStore NewMemoryContentStore [] :: (MemoryContentStore, hash list) NotifyingContentStore"
  let ?r = "ncs_puts demo_hash_prims [demo_entity, demo_entity] ?n"
  have "mcs_inv demo_hash_prims (ncs_inner ?n)"
    by (simp add: NewNotifyingContentStore_def mcs_inv_def NewMemoryContentStore_def)
  from content_events_once [OF this, of "[demo_entity, demo_entity]"]
  obtain new where new: "ncs_world ?r = ncs_world ?n @ new"
    "\<forall>h. h \<in> set new \<longleftrightarrow> mcs_Has h (ncs_inner ?r) \<and> \<not> mcs_Has h (ncs_inner ?n)"
    by blast
  have "mcs_Has demo_entity_hash (ncs_inner ?r)" "\<not> mcs_Has demo_entity_hash (ncs_inner ?n)"
    and len: "length (ncs_world ?r) = 1" "ncs_world ?n = []"
    by code_simp+
  with new(2) have "demo_entity_hash \<in> set new" by blast
  with new(1) len show ?thesis by (auto simp: length_Suc_conv)
qed

end
