(* ===== verification/Handler_Context.thy ===== *)
theory Handler_Context
  imports Cap_Lifecycle Store_Content
begin

text \<open>
  The package \<^verbatim>\<open>core/handler\<close>: the registry of handlers (\<^verbatim>\<open>registry.go\<close>), and the execution
  environment a handler runs in with its checked access to the tree (\<^verbatim>\<open>handler.go\<close>).

  A \<open>HandlerContext\<close> holds the fixed part of the environment; \<open>hstate\<close> is the state of the stores
  behind it, threaded through. The handlers of a registry are values of any type \<open>'h\<close>. \<open>hc_Clock\<close>
  gives the time at which an operation on a path is checked. Error messages are left out of the
  error responses, which carry their code. \<open>encErr\<close> is the ECF encoding of \<^verbatim>\<open>ErrorData\<close>.
\<close>

section \<open>The registry\<close>

record 'h Registry =
  reg_handlers :: "(string, 'h) gomap"

definition NewRegistry :: "'h Registry" where
  "NewRegistry = \<lparr>reg_handlers = []\<rparr>"

definition Register :: "string \<Rightarrow> 'h \<Rightarrow> 'h Registry \<Rightarrow> 'h Registry" where
  "Register pattern h r = r\<lparr>reg_handlers := gm_set (reg_handlers r) pattern h\<rparr>"

definition Unregister :: "string \<Rightarrow> 'h Registry \<Rightarrow> bool \<times> 'h Registry" where
  "Unregister pattern r =
     (gm_get (reg_handlers r) pattern \<noteq> None, r\<lparr>reg_handlers := gm_delete (reg_handlers r) pattern\<rparr>)"

text \<open>The body of the loop of \<^verbatim>\<open>Resolve\<close>; \<open>None\<close> is the initial \<^verbatim>\<open>bestLen = -1\<close>.\<close>

definition resolve_step :: "string \<Rightarrow> string \<times> 'h \<Rightarrow> ('h \<times> string) option \<Rightarrow> ('h \<times> string) option" where
  "resolve_step path entry best =
     (case entry of
        (pattern, h) \<Rightarrow>
          if path = pattern \<or> HasPrefix path (pattern @ ''/'') then
            (case best of
               None \<Rightarrow> Some (h, pattern)
             | Some (_, bestPattern) \<Rightarrow>
                 if length pattern > length bestPattern then Some (h, pattern) else best)
          else best)"

definition Resolve :: "string \<Rightarrow> 'h Registry \<Rightarrow> ('h \<times> string) option" where
  "Resolve path r = fold (resolve_step path) (reg_handlers r) None"

definition Lookup :: "string \<Rightarrow> 'h Registry \<Rightarrow> 'h option" where
  "Lookup pattern r = gm_get (reg_handlers r) pattern"

definition Handlers :: "'h Registry \<Rightarrow> (string, 'h) gomap" where
  "Handlers r = fold (\<lambda>(k, v) cp. gm_set cp k v) (reg_handlers r) []"

section \<open>Requests and responses\<close>

record Response =
  resp_Status :: nat
  resp_Result :: entity
  resp_Included :: included_map

definition StatusMultiStatus :: nat where
  "StatusMultiStatus = 207"

definition TypeError :: string where
  "TypeError = ''system/protocol/error''"

text \<open>\<open>raw\<close> is the encoding of the result data.\<close>

definition NewResponse ::
  "'p hash_prims_scheme \<Rightarrow> byte \<Rightarrow> nat \<Rightarrow> string \<Rightarrow> bytes result \<Rightarrow> Response result" where
  "NewResponse P dflt status resultType raw =
     (case raw of
        Inl err \<Rightarrow> Inl err
      | Inr data \<Rightarrow>
          (case NewEntity P dflt resultType data of
             Inl err \<Rightarrow> Inl err
           | Inr ent \<Rightarrow> Inr \<lparr>resp_Status = status, resp_Result = ent, resp_Included = []\<rparr>))"

definition NewErrorResponse ::
  "'p hash_prims_scheme \<Rightarrow> byte \<Rightarrow> (string \<Rightarrow> bytes result) \<Rightarrow> nat \<Rightarrow> string \<Rightarrow> Response result" where
  "NewErrorResponse P dflt encErr status code = NewResponse P dflt status TypeError (encErr code)"

section \<open>The context\<close>

record ('c, 'i) HandlerContext =
  hc_AuthorHash :: hash
  hc_LocalPeerID :: string
  hc_CallerCapability :: entity
  hc_HandlerGrant :: entity
  hc_Resource :: "ResourceTarget option"
  hc_Store :: "'c ContentStore option"
  hc_LocationIndex :: "'i LocationIndex option"
  hc_HandlerPattern :: string
  hc_Bounds :: "BoundsData option"
  hc_Included :: included_map
  hc_Clock :: "string \<Rightarrow> string \<Rightarrow> u64"

record ('c, 'i) hstate =
  hs_store :: 'c
  hs_index :: 'i
  hs_capidx :: "MemoryCapabilityIndex option"

definition hctx_EffectiveTargets :: "('c, 'i) HandlerContext \<Rightarrow> string list" where
  "hctx_EffectiveTargets hctx = EffectiveTargets (hc_Resource hctx) (hc_LocalPeerID hctx)"

definition ExtractResourcePath :: "('c, 'i) HandlerContext \<Rightarrow> string" where
  "ExtractResourcePath hctx =
     (case hctx_EffectiveTargets hctx of [] \<Rightarrow> '''' | t # _ \<Rightarrow> t)"

text \<open>The refusals fall back to a bare status when the error cannot be encoded.\<close>

definition or_bare :: "nat \<Rightarrow> Response result \<Rightarrow> Response" where
  "or_bare status r =
     (case r of
        Inr resp \<Rightarrow> resp
      | Inl _ \<Rightarrow> \<lparr>resp_Status = status,
                   resp_Result = \<lparr>Type = '''', Data = [], ContentHash = zero_hash\<rparr>, resp_Included = []\<rparr>)"

definition ResourceSubject ::
  "'p hash_prims_scheme \<Rightarrow> byte \<Rightarrow> (string \<Rightarrow> bytes result) \<Rightarrow> ('c, 'i) HandlerContext \<Rightarrow> Response + string" where
  "ResourceSubject P dflt encErr hctx =
     (let eff = hctx_EffectiveTargets hctx in
      if length eff = 0 then Inl (or_bare 400 (NewErrorResponse P dflt encErr 400 ''path_required''))
      else if length eff > 1 then Inl (or_bare 400 (NewErrorResponse P dflt encErr 400 ''ambiguous_resource''))
      else if IsPattern (eff ! 0) then Inl (or_bare 400 (NewErrorResponse P dflt encErr 400 ''malformed_resource''))
      else Inr (eff ! 0))"

definition CheckPathCapability ::
  "'p cap_prims_scheme \<Rightarrow> byte \<Rightarrow> (string \<Rightarrow> bytes result) \<Rightarrow> ('c, 'i) HandlerContext \<Rightarrow> string \<Rightarrow> string \<Rightarrow>
     Response option" where
  "CheckPathCapability P dflt encErr hctx operation path =
     (if IsZero (ContentHash (hc_CallerCapability hctx)) then None
      else (case CapabilityTokenDataFromEntity P (hc_CallerCapability hctx) of
              Inl _ \<Rightarrow> None
            | Inr capData \<Rightarrow>
                if \<not> CheckPathPermission (hc_Clock hctx operation path) operation path capData
                       (hc_HandlerPattern hctx) (hc_LocalPeerID hctx) (hc_LocalPeerID hctx)
                then Some (or_bare 403 (NewErrorResponse P dflt encErr 403 ''capability_denied''))
                else None))"

section \<open>Writing to the tree\<close>

definition selectCapability ::
  "'p cap_prims_scheme \<Rightarrow> ('c, 'i) HandlerContext \<Rightarrow> string \<Rightarrow> string \<Rightarrow> hash" where
  "selectCapability P hctx writePath operation =
     (if \<not> IsZero (ContentHash (hc_CallerCapability hctx)) \<and>
         (case CapabilityTokenDataFromEntity P (hc_CallerCapability hctx) of
            Inl _ \<Rightarrow> False
          | Inr capData \<Rightarrow>
              CheckPathPermission (hc_Clock hctx operation writePath) operation writePath capData
                (hc_HandlerPattern hctx) (hc_LocalPeerID hctx) (hc_LocalPeerID hctx))
      then ContentHash (hc_CallerCapability hctx)
      else ContentHash (hc_HandlerGrant hctx))"

definition mutationContext ::
  "'p cap_prims_scheme \<Rightarrow> ('c, 'i) HandlerContext \<Rightarrow> string \<Rightarrow> string \<Rightarrow> MutationContext" where
  "mutationContext P hctx writePath operation =
     (let cap = selectCapability P hctx writePath operation;
          caller = ContentHash (hc_CallerCapability hctx)
      in
      \<lparr>AuthorHash = hc_AuthorHash hctx,
       CapabilityHash = cap,
       CallerCapabilityHash = (if \<not> IsZero caller \<and> caller \<noteq> cap then caller else zero_hash),
       HandlerPattern = hc_HandlerPattern hctx,
       Operation = operation,
       ChainID = (case hc_Bounds hctx of None \<Rightarrow> '''' | Some b \<Rightarrow> bd_ChainID b),
       ParentChainID = (case hc_Bounds hctx of None \<Rightarrow> '''' | Some b \<Rightarrow> bd_ParentChainID b),
       CascadeDepth = (case hc_Bounds hctx of None \<Rightarrow> None | Some b \<Rightarrow> bd_CascadeDepth b),
       Clock = [], ClockType = ''''\<rparr>)"

definition recordCapBinding ::
  "'c ContentStore option \<Rightarrow> string \<Rightarrow> hash \<Rightarrow> ('c, 'i) hstate \<Rightarrow> ('c, 'i) hstate" where
  "recordCapBinding C path h s =
     (case (hs_capidx s, C) of
        (Some ci, Some cs) \<Rightarrow>
          (case cs_Get cs h (hs_store s) of
             None \<Rightarrow> s
           | Some ent \<Rightarrow>
               if Type ent \<noteq> TypeCapToken then s else s\<lparr>hs_capidx := Some (Record ci h path)\<rparr>)
      | _ \<Rightarrow> s)"

definition forgetCapBinding ::
  "'c ContentStore option \<Rightarrow> hash \<Rightarrow> ('c, 'i) hstate \<Rightarrow> ('c, 'i) hstate" where
  "forgetCapBinding C h s =
     (case (hs_capidx s, C) of
        (Some ci, Some cs) \<Rightarrow>
          (case cs_Get cs h (hs_store s) of
             None \<Rightarrow> s
           | Some ent \<Rightarrow>
               if Type ent \<noteq> TypeCapToken then s else s\<lparr>hs_capidx := Some (Forget ci h)\<rparr>)
      | _ \<Rightarrow> s)"

text \<open>\<open>I\<close> is the index of the context, which the callers have tested for nil.\<close>

definition TreeSet ::
  "'p cap_prims_scheme \<Rightarrow> 'i LocationIndex \<Rightarrow> ('c, 'i) HandlerContext \<Rightarrow> string \<Rightarrow> hash \<Rightarrow> string \<Rightarrow>
     ('c, 'i) hstate \<Rightarrow> (CascadeResult option \<times> unit result) \<times> ('c, 'i) hstate" where
  "TreeSet P I hctx path h operation s =
     (let ctx = mutationContext P hctx path operation in
      case (case li_Contextual I of
              Some cw \<Rightarrow> cw_SetWithContext cw path h (Some ctx) (hs_index s)
            | None \<Rightarrow> (case li_Set I path h (hs_index s) of (err, i') \<Rightarrow> ((None, err), i'))) of
        ((cr, Inr _), i') \<Rightarrow> ((cr, Inr ()), recordCapBinding (hc_Store hctx) path h (s\<lparr>hs_index := i'\<rparr>))
      | ((cr, Inl err), i') \<Rightarrow> ((cr, Inl err), s\<lparr>hs_index := i'\<rparr>))"

definition TreeRemove ::
  "'p cap_prims_scheme \<Rightarrow> 'i LocationIndex \<Rightarrow> ('c, 'i) HandlerContext \<Rightarrow> string \<Rightarrow> string \<Rightarrow>
     ('c, 'i) hstate \<Rightarrow> (hash option \<times> CascadeResult option) \<times> ('c, 'i) hstate" where
  "TreeRemove P I hctx path operation s =
     (let ctx = mutationContext P hctx path operation in
      case (case li_Contextual I of
              Some cw \<Rightarrow> cw_RemoveWithContext cw path (Some ctx) (hs_index s)
            | None \<Rightarrow> (case li_Remove I path (hs_index s) of (h, i') \<Rightarrow> ((h, None), i'))) of
        ((Some h, cr), i') \<Rightarrow> ((Some h, cr), forgetCapBinding (hc_Store hctx) h (s\<lparr>hs_index := i'\<rparr>))
      | ((None, cr), i') \<Rightarrow> ((None, cr), s\<lparr>hs_index := i'\<rparr>))"

section \<open>Resolution is by the longest pattern\<close>

definition covers :: "string \<Rightarrow> string \<Rightarrow> bool" where
  "covers path pattern \<longleftrightarrow> path = pattern \<or> HasPrefix path (pattern @ ''/'')"

lemma covers_take: "covers path p \<Longrightarrow> take (length p) path = p"
  by (auto simp: covers_def HasPrefix_def dest: arg_cong [where f = "take (length p)"])

lemma covers_same_length: "covers path p \<Longrightarrow> covers path q \<Longrightarrow> length p = length q \<Longrightarrow> p = q"
  by (metis covers_take)

lemma resolve_fold:
  assumes "\<And>h p. best = Some (h, p) \<Longrightarrow> covers path p"
  shows "case fold (resolve_step path) es best of
      None \<Rightarrow> best = None \<and> (\<forall>(p, h) \<in> set es. \<not> covers path p)
    | Some (h, p) \<Rightarrow> covers path p \<and> (best = Some (h, p) \<or> (p, h) \<in> set es) \<and>
        (\<forall>(q, g) \<in> set es. covers path q \<longrightarrow> length q \<le> length p) \<and>
        (\<forall>g q. best = Some (g, q) \<longrightarrow> length q \<le> length p)"
  using assms
proof (induction es arbitrary: best)
  case (Cons e es)
  obtain p h where e: "e = (p, h)" by (cases e)
  let ?next = "resolve_step path e best"
  have "covers path q" if "?next = Some (g, q)" for g q
    using that Cons.prems by (auto simp: e resolve_step_def covers_def split: if_splits option.splits)
  then have IH: "case fold (resolve_step path) es ?next of
      None \<Rightarrow> ?next = None \<and> (\<forall>(p, h) \<in> set es. \<not> covers path p)
    | Some (h, p) \<Rightarrow> covers path p \<and> (?next = Some (h, p) \<or> (p, h) \<in> set es) \<and>
        (\<forall>(q, g) \<in> set es. covers path q \<longrightarrow> length q \<le> length p) \<and>
        (\<forall>g q. ?next = Some (g, q) \<longrightarrow> length q \<le> length p)"
    by (rule Cons.IH)
  show ?case
  proof (cases "covers path p")
    case False
    then have "?next = best" by (simp add: e resolve_step_def covers_def)
    then show ?thesis using IH False by (auto simp: e split: option.splits)
  next
    case True
    then consider "?next = Some (h, p)" "\<And>g q. best = Some (g, q) \<Longrightarrow> length q \<le> length p"
      | g q where "best = Some (g, q)" "?next = best" "length p \<le> length q"
      by (cases best; cases "length (snd (the best)) < length p") (auto simp: e resolve_step_def covers_def not_less)
    then show ?thesis
    proof cases
      case 1
      then obtain g q where "fold (resolve_step path) es ?next = Some (g, q)" using IH by (auto split: option.splits)
      then show ?thesis using IH 1 by (fastforce simp: e intro: order_trans)
    next
      case 2
      then obtain g' q' where "fold (resolve_step path) es ?next = Some (g', q')" using IH by (auto split: option.splits)
      then show ?thesis using IH 2 by (auto simp: e)
    qed
  qed
qed (auto split: option.split)

lemma Resolve_iff:
  assumes "gm_wf (reg_handlers r)"
  shows "Resolve path r = Some (h, p) \<longleftrightarrow>
    Lookup p r = Some h \<and> covers path p \<and> (\<forall>q. Lookup q r \<noteq> None \<longrightarrow> covers path q \<longrightarrow> length q \<le> length p)"
proof
  let ?res = "fold (resolve_step path) (reg_handlers r) None"
  have fold: "case ?res of
      None \<Rightarrow> (\<forall>(p, h) \<in> set (reg_handlers r). \<not> covers path p)
    | Some (h, p) \<Rightarrow> covers path p \<and> (p, h) \<in> set (reg_handlers r) \<and>
        (\<forall>(q, g) \<in> set (reg_handlers r). covers path q \<longrightarrow> length q \<le> length p)"
    using resolve_fold [of None path "reg_handlers r"] by (simp split: option.splits prod.splits)
  show "Lookup p r = Some h \<and> covers path p \<and> (\<forall>q. Lookup q r \<noteq> None \<longrightarrow> covers path q \<longrightarrow> length q \<le> length p)"
    if "Resolve path r = Some (h, p)"
    using that fold assms unfolding Resolve_def Lookup_def by (auto simp: gm_get_iff dest: gm_get_mem)
  assume best: "Lookup p r = Some h \<and> covers path p \<and> (\<forall>q. Lookup q r \<noteq> None \<longrightarrow> covers path q \<longrightarrow> length q \<le> length p)"
  then have mem: "(p, h) \<in> set (reg_handlers r)" by (simp add: Lookup_def gm_get_mem)
  with fold best obtain g q where res: "?res = Some (g, q)" by (fastforce split: option.splits)
  then have q: "covers path q" "(q, g) \<in> set (reg_handlers r)" "length p \<le> length q"
    using fold mem best by auto
  then have "Lookup q r = Some g" using assms by (simp add: Lookup_def gm_get_iff)
  then have "length q \<le> length p" using best q(1) by auto
  with q(1,3) best have "q = p" by (intro covers_same_length) auto
  then show "Resolve path r = Some (h, p)"
    using res \<open>Lookup q r = Some g\<close> best by (simp add: Resolve_def)
qed

text \<open>The registries that registration and removal can build.\<close>

inductive registered :: "'h Registry \<Rightarrow> bool" where
  registered_new: "registered NewRegistry"
| registered_add: "registered r \<Longrightarrow> registered (Register pattern h r)"
| registered_del: "registered r \<Longrightarrow> registered (snd (Unregister pattern r))"

lemma registered_wf: "registered r \<Longrightarrow> gm_wf (reg_handlers r)"
  by (induction rule: registered.induct) (simp_all add: NewRegistry_def Register_def Unregister_def)

text \<open>
  A path is handled by the longest registered pattern that covers it, whatever the iteration
  order of the map; a path that no registered pattern covers has no handler.
\<close>

theorem Resolve_longest:
  assumes "registered r"
  shows "(\<forall>h p. Resolve path r = Some (h, p) \<longleftrightarrow>
      Lookup p r = Some h \<and> covers path p \<and> (\<forall>q. Lookup q r \<noteq> None \<longrightarrow> covers path q \<longrightarrow> length q \<le> length p)) \<and>
    (Resolve path r = None \<longleftrightarrow> (\<forall>q. Lookup q r \<noteq> None \<longrightarrow> \<not> covers path q))"
proof -
  note wf = registered_wf [OF assms]
  have "Resolve path r = None \<longleftrightarrow> (\<forall>q. Lookup q r \<noteq> None \<longrightarrow> \<not> covers path q)"
    using resolve_fold [of None path "reg_handlers r"] wf
    unfolding Resolve_def Lookup_def by (fastforce simp: gm_get_iff split: option.splits)
  with Resolve_iff [OF wf] show ?thesis by blast
qed

theorem Resolve_longest_witness:
  "Resolve ''system/tree/a'' (Register ''system/tree'' (2::nat) (Register ''system'' 1 NewRegistry)) = Some (2, ''system/tree'')"
proof -
  let ?r = "Register ''system/tree'' (2::nat) (Register ''system'' 1 NewRegistry)"
  have "registered ?r" by (intro registered.intros)
  moreover have "Lookup ''system/tree'' ?r = Some 2" "covers ''system/tree/a'' ''system/tree''"
    by (simp_all add: Lookup_def Register_def NewRegistry_def covers_def HasPrefix_def)
  moreover have "length q \<le> length ''system/tree''" if "Lookup q ?r \<noteq> None" for q
    using that by (auto simp: Lookup_def Register_def NewRegistry_def split: if_splits)
  ultimately show ?thesis using Resolve_longest by blast
qed

section \<open>Unbinding a capability\<close>

text \<open>What \<^verbatim>\<open>is_revoked\<close> sees of a state.\<close>

definition revocation_view ::
  "'c ContentStore \<Rightarrow> 'i LocationIndex \<Rightarrow> ('c, 'i) hstate \<Rightarrow> RevocationContext" where
  "revocation_view C I s =
     \<lparr>rc_ContentStore = Some (\<lambda>h. cs_Get C h (hs_store s)),
      rc_LocationIndex = Some (\<lambda>p. li_Get I p (hs_index s)),
      rc_Included = None,
      rc_CapabilityIndex = map_option index_PathFor (hs_capidx s)\<rparr>"

lemma IsRevoked_root:
  assumes "CapabilityTokenDataFromEntity P cap = Inr d" "ct_Parent d = None"
  shows "IsRevoked P cap rctx = Some (root_revoked rctx cap)"
  using assms by (simp add: IsRevoked_def walk_to_root.simps)

text \<open>
  C39. Overwriting the binding of a root capability revokes it, deleting the binding does not.
  \<^verbatim>\<open>TreeSet\<close> of another hash leaves the recorded path of the capability in the capability index, so
  that \<^verbatim>\<open>IsRevoked\<close> finds the mismatch. \<^verbatim>\<open>TreeRemove\<close> forgets the record together with the binding, and
  \<^verbatim>\<open>IsRevoked\<close> then takes the deleted capability for one that was never bound: without a revocation
  marker it is not revoked.
\<close>

theorem TreeRemove_does_not_revoke:
  assumes root: "CapabilityTokenDataFromEntity P cap = Inr d" "ct_Parent d = None" "Type cap = TypeCapToken"
    and ctx: "hc_Store hctx = Some C" and stored: "cs_Get C (ContentHash cap) (hs_store s) = Some cap"
    and bound: "li_Get MemoryLocationIndex_iface path (hs_index s) = Some (ContentHash cap)"
    and recorded: "hs_capidx s = Some ci" "index_PathFor ci (ContentHash cap) = Some path"
    and other: "h \<noteq> ContentHash cap"
    and clean: "li_Get MemoryLocationIndex_iface (RevocationPathFor (ContentHash cap)) (hs_index s) = None"
  shows "IsRevoked P cap (revocation_view C MemoryLocationIndex_iface
        (snd (TreeSet P MemoryLocationIndex_iface hctx path h op s))) = Some True \<and>
    IsRevoked P cap (revocation_view C MemoryLocationIndex_iface
        (snd (TreeRemove P MemoryLocationIndex_iface hctx path op s))) = Some False"
proof -
  let ?set = "snd (TreeSet P MemoryLocationIndex_iface hctx path h op s)"
  let ?rem = "snd (TreeRemove P MemoryLocationIndex_iface hctx path op s)"
  have set: "li_Get MemoryLocationIndex_iface path (hs_index ?set) = Some h"
    "\<exists>ci'. hs_capidx ?set = Some ci' \<and> index_PathFor ci' (ContentHash cap) = Some path"
    using recorded other
    by (auto simp: TreeSet_def MemoryLocationIndex_iface_def mli_Set_def mli_Get_def recordCapBinding_def
        ctx Record_def index_PathFor_def split: option.splits)
  have rem: "hs_capidx ?rem = Some (Forget ci (ContentHash cap))"
    "li_Get MemoryLocationIndex_iface (RevocationPathFor (ContentHash cap)) (hs_index ?rem) = None"
    using bound clean root(3) stored recorded(1)
    by (auto simp: TreeRemove_def MemoryLocationIndex_iface_def mli_Remove_def mli_Get_def forgetCapBinding_def ctx
        split: option.splits)
  have "root_revoked (revocation_view C MemoryLocationIndex_iface ?set) cap"
    using set other by (auto simp: root_revoked_def revocation_view_def)
  moreover have "\<not> root_revoked (revocation_view C MemoryLocationIndex_iface ?rem) cap"
    using rem by (simp add: root_revoked_def revocation_view_def index_PathFor_def Forget_def RevocationPathFor_def)
  ultimately show ?thesis by (simp add: IsRevoked_root [OF root(1,2)])
qed

definition demo_hctx :: "(MemoryContentStore, MemoryLocationIndex) HandlerContext" where
  "demo_hctx =
     \<lparr>hc_AuthorHash = zero_hash, hc_LocalPeerID = demo_pid 7,
      hc_CallerCapability = \<lparr>Type = '''', Data = [], ContentHash = zero_hash\<rparr>,
      hc_HandlerGrant = \<lparr>Type = '''', Data = [], ContentHash = zero_hash\<rparr>,
      hc_Resource = None, hc_Store = Some (MemoryContentStore_iface demo_cap_prims),
      hc_LocationIndex = Some MemoryLocationIndex_iface, hc_HandlerPattern = ''system/tree'',
      hc_Bounds = None, hc_Included = [], hc_Clock = (\<lambda>_ _. 50)\<rparr>"

definition demo_hstate :: "(MemoryContentStore, MemoryLocationIndex) hstate" where
  "demo_hstate =
     \<lparr>hs_store = \<lparr>entities = [(ContentHash demo_root, demo_root)]\<rparr>,
      hs_index = \<lparr>paths = [(''/p/cap'', ContentHash demo_root)]\<rparr>,
      hs_capidx = Some \<lparr>mi_paths = [(ContentHash demo_root, ''/p/cap'')]\<rparr>\<rparr>"

theorem TreeRemove_does_not_revoke_witness:
  "IsRevoked demo_cap_prims demo_root (revocation_view (MemoryContentStore_iface demo_cap_prims) MemoryLocationIndex_iface
      (snd (TreeRemove demo_cap_prims MemoryLocationIndex_iface demo_hctx ''/p/cap'' ''delete'' demo_hstate))) = Some False"
proof -
  have "CapabilityTokenDataFromEntity demo_cap_prims demo_root = Inr demo_root_token" "ct_Parent demo_root_token = None"
    "Type demo_root = TypeCapToken" "zero_hash \<noteq> ContentHash demo_root"
    by code_simp+
  moreover have "RevocationPathFor (ContentHash demo_root) \<noteq> ''/p/cap''"
    by (simp add: RevocationPathFor_def RevocationsRoot_def)
  ultimately show ?thesis
    using TreeRemove_does_not_revoke [of demo_cap_prims demo_root demo_root_token demo_hctx
        "MemoryContentStore_iface demo_cap_prims" demo_hstate "''/p/cap''" "\<lparr>mi_paths = [(ContentHash demo_root, ''/p/cap'')]\<rparr>"
        zero_hash "''delete''"]
    by (simp add: demo_hctx_def demo_hstate_def MemoryContentStore_iface_def mcs_Get_def MemoryLocationIndex_iface_def
        mli_Get_def gm_get_def index_PathFor_def)
qed

end
