(* ===== verification/Trie_Bits.thy ===== *)
theory Trie_Bits
  imports Store_Content Cap_Types
begin

text \<open>
  The bit level of the snapshot trie (\<^verbatim>\<open>core/tree/trie_node.go\<close>): the five-bit slices of a key's
  hash and the 32-bit bitmaps of the nodes, with the arithmetic of the code at its width. A
  bitmap is a slice of four bytes, most significant first. The lemmas read the operations as set
  operations on positions and the popcount as the index of a position in a dense array.
\<close>

section \<open>Constants\<close>

definition BitWidth :: nat where "BitWidth = 5"
definition K :: nat where "K = 32"
definition BucketSize :: nat where "BucketSize = 3"
definition BitmapBytes :: nat where "BitmapBytes = 4"
definition MaxLevel :: nat where "MaxLevel = 51"

lemmas trie_consts = BitWidth_def K_def BucketSize_def BitmapBytes_def MaxLevel_def

section \<open>Hash slices\<close>

definition HashSlice :: "bytes \<Rightarrow> nat \<Rightarrow> nat" where
  "HashSlice hashBytes level =
     (if level \<ge> MaxLevel then 0
      else
        let bitOffset = level * BitWidth;
            byteOffset = bitOffset div 8;
            bitInByte = bitOffset mod 8;
            v0 = push_bit 8 (ucast (hashBytes ! byteOffset) :: 16 word);
            v = (if byteOffset + 1 < length hashBytes
                 then v0 OR ucast (hashBytes ! (byteOffset + 1)) else v0);
            shift = 16 - bitInByte - BitWidth
        in unat (drop_bit shift v AND (push_bit BitWidth 1 - 1)))"

section \<open>Bitmaps\<close>

definition BitmapSet :: "bytes \<Rightarrow> nat \<Rightarrow> bytes" where
  "BitmapSet bm p =
     (let byteIdx = BitmapBytes - 1 - p div 8; bitIdx = p mod 8
      in bm[byteIdx := bm ! byteIdx OR push_bit bitIdx 1])"

definition BitmapClear :: "bytes \<Rightarrow> nat \<Rightarrow> bytes" where
  "BitmapClear bm p =
     (let byteIdx = BitmapBytes - 1 - p div 8; bitIdx = p mod 8
      in bm[byteIdx := bm ! byteIdx AND NOT (push_bit bitIdx 1)])"

definition BitmapGet :: "bytes \<Rightarrow> nat \<Rightarrow> bool" where
  "BitmapGet bm p =
     (let byteIdx = BitmapBytes - 1 - p div 8; bitIdx = p mod 8
      in (bm ! byteIdx AND push_bit bitIdx 1) \<noteq> 0)"

definition BitmapU32 :: "bytes \<Rightarrow> u32" where
  "BitmapU32 bm =
     push_bit 24 (ucast (bm ! 0)) OR push_bit 16 (ucast (bm ! 1)) OR push_bit 8 (ucast (bm ! 2)) OR
     ucast (bm ! 3)"

text \<open>\<^verbatim>\<open>bits.OnesCount32\<close> and \<^verbatim>\<open>bits.TrailingZeros32\<close>.\<close>

definition OnesCount32 :: "u32 \<Rightarrow> nat" where
  "OnesCount32 u = length (filter (bit u) [0..<32])"

definition TrailingZeros32 :: "u32 \<Rightarrow> nat" where
  "TrailingZeros32 u = length (takeWhile (\<lambda>i. \<not> bit u i) [0..<32])"

definition PopcountBelow :: "bytes \<Rightarrow> nat \<Rightarrow> nat" where
  "PopcountBelow bm p = (let u = BitmapU32 bm; m = push_bit p 1 - 1 in OnesCount32 (u AND m))"

definition Popcount :: "bytes \<Rightarrow> nat" where
  "Popcount bm = OnesCount32 (BitmapU32 bm)"

section \<open>Their meaning\<close>

lemma HashSlice_less: "HashSlice b l < 32"
proof -
  have "unat (x AND (push_bit 5 1 - 1) :: 16 word) < 2 ^ 5" for x
  proof -
    have "x AND (push_bit 5 1 - 1) = take_bit 5 x"
      by (simp add: take_bit_eq_mask mask_eq_exp_minus_1)
    then show ?thesis
      by (simp only: unsigned_take_bit_eq take_bit_nat_less_exp)
  qed
  then show ?thesis
    by (simp add: HashSlice_def Let_def BitWidth_def)
qed

lemma BitmapGet_iff: "BitmapGet bm p \<longleftrightarrow> bit (bm ! (3 - p div 8)) (p mod 8)"
  by (simp add: BitmapGet_def Let_def BitmapBytes_def and_exp_eq_0_iff_not_bit)

lemma position_eq:
  assumes "p < (32 :: nat)" "q < 32"
  shows "q = p \<longleftrightarrow> 3 - q div 8 = 3 - p div 8 \<and> q mod 8 = p mod 8"
proof
  assume *: "3 - q div 8 = 3 - p div 8 \<and> q mod 8 = p mod 8"
  have "p div 8 < 4" "q div 8 < 4" using assms by auto
  with * have "q div 8 = p div 8" by linarith
  with * show "q = p" by (metis div_mult_mod_eq)
qed simp

lemma BitmapGet_bit:
  assumes "p < 32"
  shows "BitmapGet bm p \<longleftrightarrow> bit (BitmapU32 bm) p"
proof -
  consider "p < 8" | "8 \<le> p" "p < 16" | "16 \<le> p" "p < 24" | "24 \<le> p"
    by linarith
  then show ?thesis
  proof cases
    case 1
    then have "p div 8 = 0" "p mod 8 = p" by simp_all
    with 1 show ?thesis
      by (simp add: BitmapGet_iff BitmapU32_def bit_simps)
  next
    case 2
    then have "p div 8 = 1" "p mod 8 = p - 8" by (simp_all add: div_nat_eqI mod_nat_eqI)
    with 2 show ?thesis
      by (simp add: BitmapGet_iff BitmapU32_def bit_simps)
         (auto dest: bit_imp_le_length)
  next
    case 3
    then have "p div 8 = 2" "p mod 8 = p - 16" by (simp_all add: div_nat_eqI mod_nat_eqI)
    with 3 show ?thesis
      by (simp add: BitmapGet_iff BitmapU32_def bit_simps)
         (auto dest: bit_imp_le_length)
  next
    case 4
    then have "p div 8 = 3" "p mod 8 = p - 24" using assms by (simp_all add: div_nat_eqI mod_nat_eqI)
    with 4 assms show ?thesis
      by (simp add: BitmapGet_iff BitmapU32_def bit_simps)
         (auto dest: bit_imp_le_length)
  qed
qed

lemma BitmapGet_Set:
  assumes "length bm = 4" "p < 32" "q < 32"
  shows "BitmapGet (BitmapSet bm p) q \<longleftrightarrow> q = p \<or> BitmapGet bm q"
  unfolding position_eq [OF assms(2,3)]
  using assms(1)
  by (auto simp: BitmapGet_iff BitmapSet_def Let_def BitmapBytes_def nth_list_update bit_simps)

lemma BitmapGet_Clear:
  assumes "length bm = 4" "p < 32" "q < 32"
  shows "BitmapGet (BitmapClear bm p) q \<longleftrightarrow> q \<noteq> p \<and> BitmapGet bm q"
  unfolding position_eq [OF assms(2,3)]
  using assms(1)
  by (auto simp: BitmapGet_iff BitmapClear_def Let_def BitmapBytes_def nth_list_update bit_simps)

lemma length_BitmapSet [simp]: "length (BitmapSet bm p) = length bm"
  by (simp add: BitmapSet_def Let_def)

lemma length_BitmapClear [simp]: "length (BitmapClear bm p) = length bm"
  by (simp add: BitmapClear_def Let_def)

text \<open>A bitmap of four bytes is determined by its positions.\<close>

lemma bitmap_eqI:
  assumes "length a = 4" "length b = 4" and "\<And>p. p < 32 \<Longrightarrow> BitmapGet a p = BitmapGet b p"
  shows "a = b"
proof (rule nth_equalityI)
  fix i assume "i < length a"
  then have i: "i < 4" using assms(1) by simp
  show "a ! i = b ! i"
  proof (rule bit_word_eqI)
    fix n assume "n < LENGTH(8)"
    then have n: "n < 8" by simp
    let ?p = "8 * (3 - i) + n"
    have "?p div 8 = 3 - i" "?p mod 8 = n" "?p < 32"
      using i n by auto
    with assms(3) [of ?p] i show "bit (a ! i) n = bit (b ! i) n"
      by (simp add: BitmapGet_iff)
  qed
qed (simp add: assms)

text \<open>The occupied positions in order; the dense index of a position.\<close>

definition positions :: "bytes \<Rightarrow> nat list" where
  "positions bm = filter (BitmapGet bm) [0..<32]"

lemma Popcount_positions: "Popcount bm = length (positions bm)"
proof -
  have "filter (bit (BitmapU32 bm)) [0..<32] = positions bm"
    unfolding positions_def by (rule filter_cong) (auto simp: BitmapGet_bit)
  then show ?thesis by (simp add: Popcount_def OnesCount32_def)
qed

lemma bit_low_mask: "bit (2 ^ p - 1 :: u32) q \<longleftrightarrow> q < p \<and> q < 32"
proof -
  have "(2 ^ p - 1 :: u32) = mask p" by (simp add: mask_eq_exp_minus_1)
  then show ?thesis by (auto simp: bit_simps)
qed

lemma PopcountBelow_positions:
  assumes "p \<le> 32"
  shows "PopcountBelow bm p = length (filter (BitmapGet bm) [0..<p])"
proof -
  have "filter (bit (BitmapU32 bm AND (push_bit p 1 - 1))) [0..<32]
      = filter (\<lambda>q. BitmapGet bm q \<and> q < p) [0..<32]"
    by (rule filter_cong) (simp_all add: bit_and_iff bit_low_mask BitmapGet_bit)
  moreover have "filter (\<lambda>q. BitmapGet bm q \<and> q < p) [0..<32] = filter (BitmapGet bm) [0..<p]"
  proof -
    have split: "[0..<32] = [0..<p] @ [p..<32]"
      using assms by (metis le_add_diff_inverse upt_add_eq_append zero_le)
    show ?thesis
      unfolding split by (auto simp: filter_empty_conv intro: filter_cong)
  qed
  ultimately show ?thesis
    by (simp add: PopcountBelow_def OnesCount32_def Let_def)
qed

end
