(* ===== verification/Trie_Node.thy ===== *)
theory Trie_Node
  imports Trie_Bits
begin

text \<open>
  Nodes of the snapshot trie, the content-addressed HAMT of \<^verbatim>\<open>core/tree\<close>: the data of
  \<^verbatim>\<open>core/types/tree.go\<close>, the buckets, the node store and the walks of \<^verbatim>\<open>trie_node.go\<close> and
  \<^verbatim>\<open>trie.go\<close>, the mutations of \<^verbatim>\<open>trie_incremental.go\<close>.

  The ECF codec of a node is a parameter (\<open>trie_prims\<close>), the SHA-256 of a key comes from
  \<open>hash_prims\<close>, the content store is any \<open>ContentStore\<close> and is threaded through. An index out of
  range is the error \<open>Panic\<close>. The recursions that follow links have no bound in the code (a cycle
  of links would need a hash collision); they get fuel, and \<open>None\<close> is a run that needs more.
  \<open>putAtNode\<close> is bounded by its level and needs none.
\<close>

section \<open>Data (core/types/tree.go)\<close>

record BucketTuple =
  Key :: string
  ValueHash :: hash

datatype NodeEntry = Bucket "BucketTuple list" | Link hash

record SnapshotNodeData =
  node_Map :: bytes
  node_Data :: "NodeEntry list"

fun IsBucket :: "NodeEntry \<Rightarrow> bool" where
  "IsBucket (Bucket _) = True"
| "IsBucket (Link _) = False"

fun IsLink :: "NodeEntry \<Rightarrow> bool" where
  "IsLink (Bucket _) = False"
| "IsLink (Link _) = True"

definition TypeTreeSnapshotNode :: string where
  "TypeTreeSnapshotNode = ''system/tree/snapshot/node''"

record trie_prims = cap_prims +
  ecf_EncodeNode :: "SnapshotNodeData \<Rightarrow> bytes result"
  ecf_DecodeNode :: "bytes \<Rightarrow> SnapshotNodeData result"

section \<open>Nodes and buckets (trie_node.go)\<close>

definition EmptyNode :: SnapshotNodeData where
  "EmptyNode = \<lparr>node_Map = replicate BitmapBytes 0, node_Data = []\<rparr>"

text \<open>\<open>dflt\<close> is the process-global default format, as in \<open>NewEntity\<close>.\<close>

definition StoreTrieNode ::
  "'p trie_prims_scheme \<Rightarrow> byte \<Rightarrow> 'c ContentStore \<Rightarrow> SnapshotNodeData \<Rightarrow> 'c \<Rightarrow> hash result \<times> 'c" where
  "StoreTrieNode P dflt C node cs =
     (case ecf_EncodeNode P node of
        Inl err \<Rightarrow> (Inl err, cs)
      | Inr raw \<Rightarrow>
          (case NewEntity P dflt TypeTreeSnapshotNode raw of
             Inl err \<Rightarrow> (Inl err, cs)
           | Inr ent \<Rightarrow> cs_Put C ent cs))"

definition LoadTrieNode ::
  "'p trie_prims_scheme \<Rightarrow> 'c ContentStore \<Rightarrow> hash \<Rightarrow> 'c \<Rightarrow> SnapshotNodeData option" where
  "LoadTrieNode P C h cs =
     (case cs_Get C h cs of
        None \<Rightarrow> None
      | Some ent \<Rightarrow> (case ecf_DecodeNode P (Data ent) of Inl _ \<Rightarrow> None | Inr node \<Rightarrow> Some node))"

definition HashKey :: "'p hash_prims_scheme \<Rightarrow> string \<Rightarrow> bytes" where
  "HashKey P relativeKey = sha256_Sum256 P (map of_char relativeKey)"

text \<open>\<^verbatim>\<open>sort.Search\<close>: the binary search of the package \<^verbatim>\<open>sort\<close>.\<close>

function search_loop :: "(nat \<Rightarrow> bool) \<Rightarrow> nat \<Rightarrow> nat \<Rightarrow> nat" where
  "search_loop f i j =
     (if i < j then
        let h = (i + j) div 2 in if \<not> f h then search_loop f (h + 1) j else search_loop f i h
      else i)"
  by pat_completeness auto
termination by (relation "measure (\<lambda>(f, i, j). j - i)") auto

declare search_loop.simps [simp del]

definition sort_Search :: "nat \<Rightarrow> (nat \<Rightarrow> bool) \<Rightarrow> nat" where
  "sort_Search n f = search_loop f 0 n"

definition BucketInsert :: "BucketTuple list \<Rightarrow> string \<Rightarrow> hash \<Rightarrow> BucketTuple list" where
  "BucketInsert bucket key valueHash =
     (let idx = sort_Search (length bucket) (\<lambda>i. Key (bucket ! i) \<ge> key) in
      if idx < length bucket \<and> Key (bucket ! idx) = key
      then bucket[idx := (bucket ! idx)\<lparr>ValueHash := valueHash\<rparr>]
      else take idx bucket @ [\<lparr>Key = key, ValueHash = valueHash\<rparr>] @ drop idx bucket)"

definition BucketRemove :: "BucketTuple list \<Rightarrow> string \<Rightarrow> BucketTuple list \<times> bool" where
  "BucketRemove bucket key =
     (let idx = sort_Search (length bucket) (\<lambda>i. Key (bucket ! i) \<ge> key) in
      if idx \<ge> length bucket \<or> Key (bucket ! idx) \<noteq> key then (bucket, False)
      else (take idx bucket @ drop (idx + 1) bucket, True))"

definition BucketFind :: "BucketTuple list \<Rightarrow> string \<Rightarrow> hash option" where
  "BucketFind bucket key =
     (let idx = sort_Search (length bucket) (\<lambda>i. Key (bucket ! i) \<ge> key) in
      if idx \<ge> length bucket \<or> Key (bucket ! idx) \<noteq> key then None
      else Some (ValueHash (bucket ! idx)))"

text \<open>The recursive walks, with fuel for the depth.\<close>

fun BranchSize :: "nat \<Rightarrow> 'p trie_prims_scheme \<Rightarrow> 'c ContentStore \<Rightarrow> 'c \<Rightarrow> NodeEntry list \<Rightarrow> nat option" where
  "BranchSize fuel P C cs [] = Some 0"
| "BranchSize fuel P C cs (Bucket b # es) =
     (case BranchSize fuel P C cs es of None \<Rightarrow> None | Some n \<Rightarrow> Some (length b + n))"
| "BranchSize 0 P C cs (Link h # es) = None"
| "BranchSize (Suc fuel) P C cs (Link h # es) =
     (case LoadTrieNode P C h cs of
        None \<Rightarrow> BranchSize (Suc fuel) P C cs es
      | Some child \<Rightarrow>
          (case BranchSize fuel P C cs (node_Data child) of
             None \<Rightarrow> None
           | Some m \<Rightarrow>
               (case BranchSize (Suc fuel) P C cs es of None \<Rightarrow> None | Some n \<Rightarrow> Some (m + n))))"

fun collectSubtreeTuples ::
  "nat \<Rightarrow> 'p trie_prims_scheme \<Rightarrow> 'c ContentStore \<Rightarrow> 'c \<Rightarrow> NodeEntry list \<Rightarrow> BucketTuple list option" where
  "collectSubtreeTuples fuel P C cs [] = Some []"
| "collectSubtreeTuples fuel P C cs (Bucket b # es) =
     (case collectSubtreeTuples fuel P C cs es of None \<Rightarrow> None | Some ts \<Rightarrow> Some (b @ ts))"
| "collectSubtreeTuples 0 P C cs (Link h # es) = None"
| "collectSubtreeTuples (Suc fuel) P C cs (Link h # es) =
     (case LoadTrieNode P C h cs of
        None \<Rightarrow> collectSubtreeTuples (Suc fuel) P C cs es
      | Some child \<Rightarrow>
          (case collectSubtreeTuples fuel P C cs (node_Data child) of
             None \<Rightarrow> None
           | Some us \<Rightarrow>
               (case collectSubtreeTuples (Suc fuel) P C cs es of None \<Rightarrow> None | Some ts \<Rightarrow> Some (us @ ts))))"

definition CollectSubtreeTuples ::
  "nat \<Rightarrow> 'p trie_prims_scheme \<Rightarrow> 'c ContentStore \<Rightarrow> 'c \<Rightarrow> SnapshotNodeData \<Rightarrow> BucketTuple list option" where
  "CollectSubtreeTuples fuel P C cs node =
     map_option (sort_key Key) (collectSubtreeTuples fuel P C cs (node_Data node))"

text \<open>\<^verbatim>\<open>EnsureValid\<close>.\<close>

fun bucket_sorted :: "BucketTuple list \<Rightarrow> bool" where
  "bucket_sorted (s # t # b) = (Key s < Key t \<and> bucket_sorted (t # b))"
| "bucket_sorted _ = True"

definition EnsureValid :: "SnapshotNodeData \<Rightarrow> unit result" where
  "EnsureValid node =
     (if length (node_Map node) \<noteq> BitmapBytes then Inl []
      else if Popcount (node_Map node) \<noteq> length (node_Data node) then Inl []
      else if list_all (\<lambda>e. case e of
                 Bucket b \<Rightarrow> \<not> (length b = 0 \<or> length b > BucketSize) \<and> bucket_sorted b
               | Link _ \<Rightarrow> True) (node_Data node) then Inr ()
      else Inl [])"

section \<open>Collecting the bindings (trie.go)\<close>

definition joinKey :: "string \<Rightarrow> string \<Rightarrow> string" where
  "joinKey pre key = (if pre = '''' then key else if key = '''' then pre else pre @ ''/'' @ key)"

fun collectBindings ::
  "nat \<Rightarrow> 'p trie_prims_scheme \<Rightarrow> 'c ContentStore \<Rightarrow> 'c \<Rightarrow> NodeEntry list \<Rightarrow> string \<Rightarrow>
     (string, hash) gomap \<Rightarrow> (string, hash) gomap option" where
  "collectBindings fuel P C cs [] pre out = Some out"
| "collectBindings fuel P C cs (Bucket b # es) pre out =
     collectBindings fuel P C cs es pre (fold (\<lambda>t out. gm_set out (joinKey pre (Key t)) (ValueHash t)) b out)"
| "collectBindings 0 P C cs (Link h # es) pre out = None"
| "collectBindings (Suc fuel) P C cs (Link h # es) pre out =
     (case LoadTrieNode P C h cs of
        None \<Rightarrow> collectBindings (Suc fuel) P C cs es pre out
      | Some child \<Rightarrow>
          (case collectBindings fuel P C cs (node_Data child) pre out of
             None \<Rightarrow> None
           | Some out' \<Rightarrow> collectBindings (Suc fuel) P C cs es pre out'))"

definition CollectAllBindings ::
  "nat \<Rightarrow> 'p trie_prims_scheme \<Rightarrow> 'c ContentStore \<Rightarrow> 'c \<Rightarrow> hash \<Rightarrow> string \<Rightarrow> (string, hash) gomap option" where
  "CollectAllBindings fuel P C cs nodeHash pre =
     (case LoadTrieNode P C nodeHash cs of
        None \<Rightarrow> Some []
      | Some node \<Rightarrow> collectBindings fuel P C cs (node_Data node) pre [])"

section \<open>Mutations (trie_incremental.go)\<close>

definition loadOrEmpty ::
  "'p trie_prims_scheme \<Rightarrow> 'c ContentStore \<Rightarrow> 'c \<Rightarrow> hash \<Rightarrow> SnapshotNodeData" where
  "loadOrEmpty P C cs h =
     (if IsZero h then EmptyNode
      else (case LoadTrieNode P C h cs of
              None \<Rightarrow> EmptyNode
            | Some node \<Rightarrow>
                if length (node_Map node) \<noteq> BitmapBytes
                then node\<lparr>node_Map := copy_into (replicate BitmapBytes 0) (node_Map node)\<rparr>
                else node))"

definition insertEntry :: "NodeEntry list \<Rightarrow> nat \<Rightarrow> NodeEntry \<Rightarrow> NodeEntry list" where
  "insertEntry data idx entry = take idx data @ [entry] @ drop idx data"

definition replaceEntry :: "NodeEntry list \<Rightarrow> nat \<Rightarrow> NodeEntry \<Rightarrow> NodeEntry list" where
  "replaceEntry data idx entry = data[idx := entry]"

definition removeEntryAt :: "NodeEntry list \<Rightarrow> nat \<Rightarrow> NodeEntry list" where
  "removeEntryAt data idx = take idx data @ drop (idx + 1) data"

text \<open>
  \<^verbatim>\<open>putAtNode\<close>, and the loop of \<^verbatim>\<open>promoteBucket\<close> that puts tuples into a sub-node one by one
  (the new tuple is put last).
\<close>

function (sequential) putAtNode :: "'p trie_prims_scheme \<Rightarrow> byte \<Rightarrow> 'c ContentStore \<Rightarrow> SnapshotNodeData \<Rightarrow> bytes \<Rightarrow> nat \<Rightarrow>
    string \<Rightarrow> hash \<Rightarrow> 'c \<Rightarrow> SnapshotNodeData result \<times> 'c"
and put_tuples :: "'p trie_prims_scheme \<Rightarrow> byte \<Rightarrow> 'c ContentStore \<Rightarrow> SnapshotNodeData \<Rightarrow> nat \<Rightarrow>
    BucketTuple list \<Rightarrow> 'c \<Rightarrow> SnapshotNodeData result \<times> 'c"
where
  "putAtNode P dflt C node h level relativeKey value cs =
     (if level \<ge> MaxLevel then (Inl [], cs)
      else if length (node_Map node) < BitmapBytes then (Inl [Panic], cs)
      else
        let p = HashSlice h level;
            idx = PopcountBelow (node_Map node) p
        in
        if \<not> BitmapGet (node_Map node) p then
          (if idx > length (node_Data node) then (Inl [Panic], cs)
           else
             (Inr \<lparr>node_Map = BitmapSet (node_Map node) p,
                   node_Data = insertEntry (node_Data node) idx
                     (Bucket [\<lparr>Key = relativeKey, ValueHash = value\<rparr>])\<rparr>, cs))
        else if idx \<ge> length (node_Data node) then (Inl [Panic], cs)
        else
          (case node_Data node ! idx of
             Bucket bucket \<Rightarrow>
               if BucketFind bucket relativeKey \<noteq> None \<or> length bucket < BucketSize then
                 (Inr (node\<lparr>node_Data := replaceEntry (node_Data node) idx
                        (Bucket (BucketInsert bucket relativeKey value))\<rparr>), cs)
               else
                 (case put_tuples P dflt C EmptyNode (level + 1)
                         (bucket @ [\<lparr>Key = relativeKey, ValueHash = value\<rparr>]) cs of
                    (Inl err, cs1) \<Rightarrow> (Inl err, cs1)
                  | (Inr subNode, cs1) \<Rightarrow>
                      (case StoreTrieNode P dflt C subNode cs1 of
                         (Inl err, cs2) \<Rightarrow> (Inl err, cs2)
                       | (Inr subHash, cs2) \<Rightarrow>
                           (Inr (node\<lparr>node_Data := replaceEntry (node_Data node) idx (Link subHash)\<rparr>), cs2)))
           | Link l \<Rightarrow>
               (case LoadTrieNode P C l cs of
                  None \<Rightarrow> (Inl [], cs)
                | Some child \<Rightarrow>
                    (case putAtNode P dflt C child h (level + 1) relativeKey value cs of
                       (Inl err, cs1) \<Rightarrow> (Inl err, cs1)
                     | (Inr newChild, cs1) \<Rightarrow>
                         (case StoreTrieNode P dflt C newChild cs1 of
                            (Inl err, cs2) \<Rightarrow> (Inl err, cs2)
                          | (Inr newChildHash, cs2) \<Rightarrow>
                              (Inr (node\<lparr>node_Data := replaceEntry (node_Data node) idx (Link newChildHash)\<rparr>), cs2))))))"
| "put_tuples P dflt C sub level [] cs = (Inr sub, cs)"
| "put_tuples P dflt C sub level (t # ts) cs =
     (case putAtNode P dflt C sub (HashKey P (Key t)) level (Key t) (ValueHash t) cs of
        (Inl err, cs1) \<Rightarrow> (Inl err, cs1)
      | (Inr next, cs1) \<Rightarrow> put_tuples P dflt C next level ts cs1)"
  by pat_completeness auto
termination
  by (relation "measures [\<lambda>x. case x of
        Inl (P, dflt, C, node, h, level, k, v, cs) \<Rightarrow> 2 * (MaxLevel - level)
      | Inr (P, dflt, C, sub, level, ts, cs) \<Rightarrow> 2 * (MaxLevel - level) + 1,
      \<lambda>x. case x of
        Inl _ \<Rightarrow> 0
      | Inr (P, dflt, C, sub, level, ts, cs) \<Rightarrow> length ts]") auto

declare putAtNode.simps [simp del]

definition TriePut ::
  "'p trie_prims_scheme \<Rightarrow> byte \<Rightarrow> 'c ContentStore \<Rightarrow> hash \<Rightarrow> string \<Rightarrow> hash \<Rightarrow> 'c \<Rightarrow> hash result \<times> 'c" where
  "TriePut P dflt C currentRoot relativeKey value cs =
     (case putAtNode P dflt C (loadOrEmpty P C cs currentRoot) (HashKey P relativeKey) 0 relativeKey value cs of
        (Inl err, cs1) \<Rightarrow> (Inl err, cs1)
      | (Inr newRoot, cs1) \<Rightarrow> StoreTrieNode P dflt C newRoot cs1)"

text \<open>\<^verbatim>\<open>collapsedChild\<close>: \<open>Some None\<close> where the sub-node stays, \<open>Some (Some ts)\<close> where it collapses.\<close>

definition collapsedChild ::
  "nat \<Rightarrow> 'p trie_prims_scheme \<Rightarrow> 'c ContentStore \<Rightarrow> 'c \<Rightarrow> SnapshotNodeData \<Rightarrow> BucketTuple list option option" where
  "collapsedChild fuel P C cs child =
     (case BranchSize fuel P C cs (node_Data child) of
        None \<Rightarrow> None
      | Some bs \<Rightarrow>
          if bs \<ge> BucketSize + 1 then Some None
          else map_option Some (CollectSubtreeTuples fuel P C cs child))"

text \<open>\<^verbatim>\<open>removeAtNode\<close>. Its parameter \<^verbatim>\<open>isRoot\<close> is not used by the code.\<close>

fun removeAtNode ::
  "nat \<Rightarrow> 'p trie_prims_scheme \<Rightarrow> byte \<Rightarrow> 'c ContentStore \<Rightarrow> SnapshotNodeData \<Rightarrow> bytes \<Rightarrow> nat \<Rightarrow> string \<Rightarrow>
     'c \<Rightarrow> ((SnapshotNodeData \<times> bool) result \<times> 'c) option" where
  "removeAtNode 0 P dflt C node h level relativeKey cs = None"
| "removeAtNode (Suc fuel) P dflt C node h level relativeKey cs =
     (let p = HashSlice h level in
      if BitmapBytes - 1 - p div 8 \<ge> length (node_Map node) then Some (Inl [Panic], cs)
      else if \<not> BitmapGet (node_Map node) p then Some (Inr (node, False), cs)
      else if length (node_Map node) < BitmapBytes then Some (Inl [Panic], cs)
      else
        let idx = PopcountBelow (node_Map node) p in
        if idx \<ge> length (node_Data node) then Some (Inl [Panic], cs)
        else
          (case node_Data node ! idx of
             Bucket bucket \<Rightarrow>
               (case BucketRemove bucket relativeKey of
                  (newBucket, ok) \<Rightarrow>
                    if \<not> ok then Some (Inr (node, False), cs)
                    else if length newBucket = 0 then
                      Some (Inr (\<lparr>node_Map = BitmapClear (node_Map node) p,
                                  node_Data = removeEntryAt (node_Data node) idx\<rparr>, True), cs)
                    else
                      Some (Inr (node\<lparr>node_Data := replaceEntry (node_Data node) idx (Bucket newBucket)\<rparr>, True), cs))
           | Link l \<Rightarrow>
               (case LoadTrieNode P C l cs of
                  None \<Rightarrow> Some (Inl [], cs)
                | Some child \<Rightarrow>
                    (case removeAtNode fuel P dflt C child h (level + 1) relativeKey cs of
                       None \<Rightarrow> None
                     | Some (Inl err, cs1) \<Rightarrow> Some (Inl err, cs1)
                     | Some (Inr (newChild, removed), cs1) \<Rightarrow>
                         if \<not> removed then Some (Inr (node, False), cs1)
                         else
                           (case collapsedChild fuel P C cs1 newChild of
                              None \<Rightarrow> None
                            | Some (Some tuples) \<Rightarrow>
                                if length tuples = 0 then
                                  Some (Inr (\<lparr>node_Map = BitmapClear (node_Map node) p,
                                              node_Data = removeEntryAt (node_Data node) idx\<rparr>, True), cs1)
                                else
                                  Some (Inr (node\<lparr>node_Data := replaceEntry (node_Data node) idx (Bucket tuples)\<rparr>, True), cs1)
                            | Some None \<Rightarrow>
                                (case StoreTrieNode P dflt C newChild cs1 of
                                   (Inl err, cs2) \<Rightarrow> Some (Inl err, cs2)
                                 | (Inr newChildHash, cs2) \<Rightarrow>
                                     Some (Inr (node\<lparr>node_Data := replaceEntry (node_Data node) idx (Link newChildHash)\<rparr>, True), cs2)))))))"

declare removeAtNode.simps [simp del]

definition TrieRemove ::
  "nat \<Rightarrow> 'p trie_prims_scheme \<Rightarrow> byte \<Rightarrow> 'c ContentStore \<Rightarrow> hash \<Rightarrow> string \<Rightarrow> 'c \<Rightarrow>
     (hash result \<times> 'c) option" where
  "TrieRemove fuel P dflt C currentRoot relativeKey cs =
     (if IsZero currentRoot then Some (Inr currentRoot, cs)
      else (case LoadTrieNode P C currentRoot cs of
              None \<Rightarrow> Some (Inr currentRoot, cs)
            | Some root \<Rightarrow>
                (case removeAtNode fuel P dflt C root (HashKey P relativeKey) 0 relativeKey cs of
                   None \<Rightarrow> None
                 | Some (Inl err, cs1) \<Rightarrow> Some (Inl err, cs1)
                 | Some (Inr (newRoot, removed), cs1) \<Rightarrow>
                     if \<not> removed then Some (Inr currentRoot, cs1)
                     else Some (StoreTrieNode P dflt C newRoot cs1))))"

section \<open>Building (trie.go, trie_update.go)\<close>

type_synonym Binding = "string \<times> hash"

fun put_bindings ::
  "'p trie_prims_scheme \<Rightarrow> byte \<Rightarrow> 'c ContentStore \<Rightarrow> hash \<Rightarrow> Binding list \<Rightarrow> 'c \<Rightarrow> hash result \<times> 'c" where
  "put_bindings P dflt C rootHash [] cs = (Inr rootHash, cs)"
| "put_bindings P dflt C rootHash ((path, h) # bs) cs =
     (case TriePut P dflt C rootHash path h cs of
        (Inl err, cs1) \<Rightarrow> (Inl err, cs1)
      | (Inr rootHash', cs1) \<Rightarrow> put_bindings P dflt C rootHash' bs cs1)"

definition BuildTrie ::
  "'p trie_prims_scheme \<Rightarrow> byte \<Rightarrow> 'c ContentStore \<Rightarrow> Binding list \<Rightarrow> 'c \<Rightarrow> hash result \<times> 'c" where
  "BuildTrie P dflt C bindings cs =
     (case StoreTrieNode P dflt C EmptyNode cs of
        (Inl err, cs1) \<Rightarrow> (Inl err, cs1)
      | (Inr rootHash, cs1) \<Rightarrow> put_bindings P dflt C rootHash bindings cs1)"

definition BuildTrieForPrefix ::
  "'p trie_prims_scheme \<Rightarrow> byte \<Rightarrow> 'c ContentStore \<Rightarrow> 'i LocationIndex \<Rightarrow> 'i \<Rightarrow> string \<Rightarrow> string \<Rightarrow> 'c \<Rightarrow>
     hash result \<times> 'c" where
  "BuildTrieForPrefix P dflt C I li localPeerID pre cs =
     (let qualifiedPrefix = (if HasPrefix pre ''/'' then pre else QualifyPath localPeerID pre);
          entries = li_List I pre li;
          bindings = map (\<lambda>e. (TrimPrefix (le_Path e) qualifiedPrefix, le_Hash e))
            (filter (\<lambda>e. TrimPrefix (le_Path e) qualifiedPrefix \<noteq> '''') entries)
      in BuildTrie P dflt C bindings cs)"

definition SortedParents :: "hash list \<Rightarrow> hash list" where
  "SortedParents parents = (if length parents \<le> 1 then parents else sort_key hash_Bytes parents)"

section \<open>The closure of a root (trie_node.go)\<close>

text \<open>The set \<^verbatim>\<open>out\<close> is a list of the hashes seen.\<close>

fun closure_entries ::
  "nat \<Rightarrow> 'p trie_prims_scheme \<Rightarrow> 'c ContentStore \<Rightarrow> 'c \<Rightarrow> NodeEntry list \<Rightarrow> hash list \<Rightarrow> hash list option" where
  "closure_entries fuel P C cs [] out = Some out"
| "closure_entries fuel P C cs (Bucket b # es) out =
     closure_entries fuel P C cs es (map ValueHash b @ out)"
| "closure_entries 0 P C cs (Link h # es) out = None"
| "closure_entries (Suc fuel) P C cs (Link h # es) out =
     (if IsZero h \<or> h \<in> set out then closure_entries (Suc fuel) P C cs es out
      else (case LoadTrieNode P C h cs of
              None \<Rightarrow> closure_entries (Suc fuel) P C cs es (h # out)
            | Some node \<Rightarrow>
                (case closure_entries fuel P C cs (node_Data node) (h # out) of
                   None \<Rightarrow> None
                 | Some out' \<Rightarrow> closure_entries (Suc fuel) P C cs es out')))"

definition CollectNodeClosure ::
  "nat \<Rightarrow> 'p trie_prims_scheme \<Rightarrow> 'c ContentStore \<Rightarrow> 'c \<Rightarrow> hash \<Rightarrow> hash list option" where
  "CollectNodeClosure fuel P C cs rootHash = closure_entries fuel P C cs [Link rootHash] []"

end
