(* ===== verification/Trie_Sparse.thy ===== *)
theory Trie_Sparse
  imports Trie_Node
begin

text \<open>
  Two views that carry the proofs about the trie: a node as a sparse array of 32 positions (the
  bitmap with its dense array of entries), and a sorted bucket as a finite map. Each operation of
  the code on the dense form is an update of the view, and the view determines the dense form.
\<close>

section \<open>A node as a sparse array\<close>

definition node_ok :: "SnapshotNodeData \<Rightarrow> bool" where
  "node_ok n \<longleftrightarrow> length (node_Map n) = 4 \<and> length (node_Data n) = Popcount (node_Map n)"

definition node_at :: "SnapshotNodeData \<Rightarrow> nat \<Rightarrow> NodeEntry option" where
  "node_at n p =
     (if p < 32 \<and> BitmapGet (node_Map n) p then Some (node_Data n ! PopcountBelow (node_Map n) p) else None)"

definition below :: "(nat \<Rightarrow> bool) \<Rightarrow> nat \<Rightarrow> nat" where
  "below B p = card {q. q < p \<and> B q}"

lemma PopcountBelow_below: "p \<le> 32 \<Longrightarrow> PopcountBelow bm p = below (BitmapGet bm) p"
  unfolding below_def by (simp add: PopcountBelow_positions length_filter_conv_card cong: conj_cong)

lemma Popcount_below: "Popcount bm = below (BitmapGet bm) 32"
  unfolding below_def Popcount_positions positions_def
  by (simp add: length_filter_conv_card cong: conj_cong)

lemma below_mono: "p \<le> q \<Longrightarrow> below B p \<le> below B q"
  unfolding below_def by (rule card_mono) auto

lemma below_less: "p < q \<Longrightarrow> B p \<Longrightarrow> below B p < below B q"
  unfolding below_def by (rule psubset_card_mono) (auto simp: psubset_eq)

lemma below_cong: "(\<And>q. q < p \<Longrightarrow> B q = B' q) \<Longrightarrow> below B p = below B' p"
  unfolding below_def by (metis (mono_tags, lifting))

lemma below_insert:
  assumes "\<not> B p" and "\<And>q. q < r \<Longrightarrow> B' q \<longleftrightarrow> q = p \<or> B q"
  shows "below B' r = (if p < r then Suc (below B r) else below B r)"
proof -
  have "{q. q < r \<and> B' q} = (if p < r then insert p {q. q < r \<and> B q} else {q. q < r \<and> B q})"
    using assms(2) by auto
  then show ?thesis using assms(1) by (simp add: below_def)
qed

lemma below_inj: "B p \<Longrightarrow> B q \<Longrightarrow> below B p = below B q \<Longrightarrow> p = q"
  by (metis below_less linorder_neqE_nat nat_neq_iff)

lemma idx_less: "node_ok n \<Longrightarrow> p < 32 \<Longrightarrow> BitmapGet (node_Map n) p \<Longrightarrow>
    PopcountBelow (node_Map n) p < length (node_Data n)"
  by (simp add: node_ok_def PopcountBelow_below Popcount_below below_less)

lemma idx_le: "node_ok n \<Longrightarrow> p < 32 \<Longrightarrow> PopcountBelow (node_Map n) p \<le> length (node_Data n)"
  by (simp add: node_ok_def PopcountBelow_below Popcount_below below_mono)

lemma BitmapGet_zero: "\<not> BitmapGet (replicate 4 0) p"
  by (simp add: BitmapGet_iff nth_replicate less_imp_diff_less)

lemma node_ok_Empty [simp]: "node_ok EmptyNode"
  by (simp add: node_ok_def EmptyNode_def BitmapBytes_def Popcount_positions positions_def BitmapGet_zero)

lemma node_at_Empty [simp]: "node_at EmptyNode = Map.empty"
  by (rule ext) (simp add: node_at_def EmptyNode_def BitmapBytes_def BitmapGet_zero)

subsection \<open>Updates\<close>

lemma insert_node:
  assumes ok: "node_ok n" and p: "p < 32" and clear: "\<not> BitmapGet (node_Map n) p"
    and n': "n' = \<lparr>node_Map = BitmapSet (node_Map n) p,
                   node_Data = insertEntry (node_Data n) (PopcountBelow (node_Map n) p) e\<rparr>"
  shows "node_ok n' \<and> node_at n' = (node_at n)(p \<mapsto> e)"
proof -
  let ?B = "BitmapGet (node_Map n)" and ?B' = "BitmapGet (BitmapSet (node_Map n) p)"
  have len: "length (node_Map n) = 4" using ok by (simp add: node_ok_def)
  have B': "q < 32 \<Longrightarrow> ?B' q \<longleftrightarrow> q = p \<or> ?B q" for q
    by (rule BitmapGet_Set [OF len p])
  have bel: "below ?B' q = (if p < q then Suc (below ?B q) else below ?B q)" if "q \<le> 32" for q
    using that by (intro below_insert [where B = ?B]) (auto simp: B' clear)
  have idx: "below ?B p \<le> length (node_Data n)"
    using idx_le [OF ok p] p by (simp add: PopcountBelow_below)
  have "node_ok n'"
    using ok idx p by (simp add: n' node_ok_def Popcount_below bel insertEntry_def PopcountBelow_below)
  moreover have "node_at n' q = ((node_at n)(p \<mapsto> e)) q" for q
  proof (cases "q < 32 \<and> (q = p \<or> ?B q)")
    case False
    then show ?thesis using p by (auto simp: node_at_def n' B')
  next
    case True
    consider "q < p" "?B q" | "q = p" | "p < q" "?B q" using True by linarith
    then show ?thesis
    proof cases
      case 1
      then have "below ?B q < below ?B p" by (simp add: below_less)
      with 1 True p idx show ?thesis
        by (simp add: node_at_def n' B' PopcountBelow_below bel insertEntry_def nth_append)
    next
      case 2
      with True idx show ?thesis
        by (simp add: node_at_def n' B' PopcountBelow_below bel insertEntry_def nth_append)
    next
      case 3
      then have "below ?B p \<le> below ?B q" by (simp add: below_mono)
      moreover have "below ?B q < length (node_Data n)"
        using idx_less [OF ok] 3 True by (simp add: PopcountBelow_below)
      ultimately show ?thesis
        using 3 True p idx by (simp add: node_at_def n' B' PopcountBelow_below bel insertEntry_def nth_append)
    qed
  qed
  ultimately show ?thesis by (simp add: fun_eq_iff)
qed

lemma replace_node:
  assumes ok: "node_ok n" and p: "p < 32" and set: "BitmapGet (node_Map n) p"
    and n': "n' = n\<lparr>node_Data := replaceEntry (node_Data n) (PopcountBelow (node_Map n) p) e\<rparr>"
  shows "node_ok n' \<and> node_at n' = (node_at n)(p \<mapsto> e)"
proof -
  have "node_at n' q = ((node_at n)(p \<mapsto> e)) q" for q
  proof (cases "q < 32 \<and> BitmapGet (node_Map n) q")
    case True
    then show ?thesis
      using idx_less [OF ok] p set below_inj [of "BitmapGet (node_Map n)" p q]
      by (auto simp: node_at_def n' replaceEntry_def nth_list_update PopcountBelow_below)
  next
    case False
    then show ?thesis using p set by (auto simp: node_at_def n')
  qed
  then show ?thesis using ok by (simp add: n' node_ok_def replaceEntry_def fun_eq_iff)
qed

lemma remove_node:
  assumes ok: "node_ok n" and p: "p < 32" and set: "BitmapGet (node_Map n) p"
    and n': "n' = \<lparr>node_Map = BitmapClear (node_Map n) p,
                   node_Data = removeEntryAt (node_Data n) (PopcountBelow (node_Map n) p)\<rparr>"
  shows "node_ok n' \<and> node_at n' = (node_at n)(p := None)"
proof -
  let ?B = "BitmapGet (node_Map n)" and ?B' = "BitmapGet (BitmapClear (node_Map n) p)"
  have len: "length (node_Map n) = 4" using ok by (simp add: node_ok_def)
  have B': "q < 32 \<Longrightarrow> ?B' q \<longleftrightarrow> q \<noteq> p \<and> ?B q" for q
    by (rule BitmapGet_Clear [OF len p])
  have bel: "below ?B q = (if p < q then Suc (below ?B' q) else below ?B' q)" if "q \<le> 32" for q
    using that p set by (intro below_insert [where B = ?B']) (auto simp: B')
  have idx: "below ?B p < length (node_Data n)"
    using idx_less [OF ok p set] p by (simp add: PopcountBelow_below)
  have "node_ok n'"
    using ok idx p bel [of 32] by (simp add: n' node_ok_def Popcount_below removeEntryAt_def PopcountBelow_below)
  moreover have "node_at n' q = ((node_at n)(p := None)) q" for q
  proof (cases "q < 32 \<and> q \<noteq> p \<and> ?B q")
    case False
    then show ?thesis using p by (auto simp: node_at_def n' B')
  next
    case True
    consider "q < p" | "p < q" using True by linarith
    then show ?thesis
    proof cases
      case 1
      then have "below ?B q < below ?B p" using True by (simp add: below_less)
      with 1 True p idx bel [of q] show ?thesis
        by (simp add: node_at_def n' B' PopcountBelow_below removeEntryAt_def nth_append)
    next
      case 2
      then have "below ?B p \<le> below ?B' q" "below ?B q = Suc (below ?B' q)"
        using bel [of q] bel [of p] below_mono [of p q ?B'] True by simp_all
      moreover have "below ?B q < length (node_Data n)"
        using idx_less [OF ok] True by (simp add: PopcountBelow_below)
      ultimately show ?thesis
        using 2 True p idx by (simp add: node_at_def n' B' PopcountBelow_below removeEntryAt_def nth_append)
    qed
  qed
  ultimately show ?thesis by (simp add: fun_eq_iff)
qed

subsection \<open>The view determines the node\<close>

lemma positions_nth:
  "i < length (filter B [0..<n]) \<Longrightarrow> below B (filter B [0..<n] ! i) = i \<and> B (filter B [0..<n] ! i) \<and> filter B [0..<n] ! i < n"
proof (induction n)
  case (Suc n)
  have "below B n = length (filter B [0..<n])"
    by (simp add: below_def length_filter_conv_card cong: conj_cong)
  with Suc show ?case
    by (auto simp: nth_append less_Suc_eq)
qed simp

lemma set_positions: "set (positions bm) = {p. p < 32 \<and> BitmapGet bm p}"
  by (auto simp: positions_def)

lemma node_Data_positions:
  assumes "node_ok n"
  shows "node_Data n = map (\<lambda>p. the (node_at n p)) (positions (node_Map n))"
proof (rule nth_equalityI)
  show "length (node_Data n) = length (map (\<lambda>p. the (node_at n p)) (positions (node_Map n)))"
    using assms by (simp add: node_ok_def Popcount_positions)
  fix i assume "i < length (node_Data n)"
  then have i: "i < length (filter (BitmapGet (node_Map n)) [0..<32])"
    using assms by (simp add: node_ok_def Popcount_positions positions_def)
  from positions_nth [OF i] i show "node_Data n ! i = map (\<lambda>p. the (node_at n p)) (positions (node_Map n)) ! i"
    by (simp add: positions_def node_at_def PopcountBelow_below)
qed

lemma node_at_dom: "node_at n p \<noteq> None \<longleftrightarrow> p \<in> set (positions (node_Map n))"
  by (simp add: node_at_def set_positions)

lemma node_eqI:
  assumes a: "node_ok a" and b: "node_ok b" and eq: "\<And>p. p < 32 \<Longrightarrow> node_at a p = node_at b p"
  shows "a = b"
proof -
  have "BitmapGet (node_Map a) p = BitmapGet (node_Map b) p" if "p < 32" for p
    using eq [OF that] that by (auto simp: node_at_def split: if_splits)
  then have map: "node_Map a = node_Map b"
    using a b by (intro bitmap_eqI) (auto simp: node_ok_def)
  moreover have "node_Data a = node_Data b"
    unfolding node_Data_positions [OF a] node_Data_positions [OF b] map
    by (rule map_cong) (auto simp: set_positions eq)
  ultimately show ?thesis by simp
qed

section \<open>A bucket as a finite map\<close>

definition bucket_ok :: "BucketTuple list \<Rightarrow> bool" where
  "bucket_ok b \<longleftrightarrow> sorted_wrt (<) (map Key b)"

definition bucket_map :: "BucketTuple list \<Rightarrow> string \<rightharpoonup> hash" where
  "bucket_map b = map_of (map (\<lambda>t. (Key t, ValueHash t)) b)"

lemma search_loop_spec:
  assumes "i \<le> j" "j \<le> n" "\<And>k. k < i \<Longrightarrow> \<not> f k" "\<And>k. j \<le> k \<Longrightarrow> k < n \<Longrightarrow> f k"
    and mono: "\<And>k l. f k \<Longrightarrow> k \<le> l \<Longrightarrow> l < n \<Longrightarrow> f l"
  shows "search_loop f i j \<le> n \<and> (\<forall>k < search_loop f i j. \<not> f k) \<and>
    (\<forall>k. search_loop f i j \<le> k \<and> k < n \<longrightarrow> f k)"
  using assms(1-4)
proof (induction "j - i" arbitrary: i j rule: less_induct)
  case less
  show ?case
  proof (cases "i < j")
    case False
    then have "search_loop f i j = i" by (simp add: search_loop.simps [of f i j])
    with False less.prems show ?thesis by simp
  next
    case True
    let ?h = "(i + j) div 2"
    have h: "i \<le> ?h" "?h < j" using True by auto
    show ?thesis
    proof (cases "f ?h")
      case False
      have "\<not> f k" if "k < ?h + 1" for k
        using that False mono [of k ?h] h less.prems(2) by auto
      moreover have "search_loop f i j = search_loop f (?h + 1) j"
        using True False by (simp add: search_loop.simps [of f i j] Let_def)
      moreover have "search_loop f (?h + 1) j \<le> n \<and> (\<forall>k < search_loop f (?h + 1) j. \<not> f k) \<and>
          (\<forall>k. search_loop f (?h + 1) j \<le> k \<and> k < n \<longrightarrow> f k)"
        by (rule less.hyps) (use h less.prems calculation(1) in auto)
      ultimately show ?thesis by metis
    next
      case fh: True
      have "f k" if "?h \<le> k" "k < n" for k
        using that fh mono by blast
      moreover have "search_loop f i j = search_loop f i ?h"
        using True fh by (simp add: search_loop.simps [of f i j] Let_def)
      moreover have "search_loop f i ?h \<le> n \<and> (\<forall>k < search_loop f i ?h. \<not> f k) \<and>
          (\<forall>k. search_loop f i ?h \<le> k \<and> k < n \<longrightarrow> f k)"
        by (rule less.hyps) (use h less.prems calculation(1) in auto)
      ultimately show ?thesis by metis
    qed
  qed
qed

text \<open>Where the search for a key ends in a sorted bucket.\<close>

lemma bucket_search:
  assumes ok: "bucket_ok b" and idx: "idx = sort_Search (length b) (\<lambda>i. Key (b ! i) \<ge> key)"
  obtains (present) xs t ys where "b = xs @ t # ys" "idx = length xs" "Key t = key"
      "\<forall>x \<in> set xs. Key x < key" "\<forall>y \<in> set ys. key < Key y"
  | (absent) xs ys where "b = xs @ ys" "idx = length xs"
      "\<forall>x \<in> set xs. Key x < key" "\<forall>y \<in> set ys. key < Key y"
proof -
  have mono: "key \<le> Key (b ! l)" if "key \<le> Key (b ! k)" "k \<le> l" "l < length b" for k l
    using that ok sorted_wrt_nth_less [of "(<)" "map Key b" k l]
    by (cases "k = l") (auto simp: bucket_ok_def intro: less_imp_le order_trans)
  have "idx \<le> length b \<and> (\<forall>k < idx. \<not> Key (b ! k) \<ge> key) \<and> (\<forall>k. idx \<le> k \<and> k < length b \<longrightarrow> Key (b ! k) \<ge> key)"
    unfolding idx sort_Search_def by (rule search_loop_spec) (use mono in simp_all)
  then have spec: "idx \<le> length b" "\<And>k. k < idx \<Longrightarrow> Key (b ! k) < key"
    "\<And>k. idx \<le> k \<Longrightarrow> k < length b \<Longrightarrow> key \<le> Key (b ! k)"
    by (simp_all add: not_le)
  let ?xs = "take idx b" and ?zs = "drop idx b"
  have xs: "\<forall>x \<in> set ?xs. Key x < key"
    using spec(1,2) by (auto simp: in_set_conv_nth)
  have zs: "\<forall>z \<in> set ?zs. key \<le> Key z"
    using spec(1,3) by (auto simp: in_set_conv_nth)
  have sz: "sorted_wrt (<) (map Key ?zs)"
    unfolding drop_map [symmetric] using ok by (simp only: bucket_ok_def sorted_wrt_drop)
  show ?thesis
  proof (cases "?zs \<noteq> [] \<and> Key (hd ?zs) = key")
    case True
    then obtain t ys where z: "?zs = t # ys" "Key t = key" by (cases ?zs) auto
    have "b = ?xs @ t # ys" by (metis append_take_drop_id z(1))
    moreover have "\<forall>y \<in> set ys. key < Key y" using sz z by auto
    ultimately show ?thesis using present [of ?xs t ys] xs z(2) spec(1) by simp
  next
    case False
    have "\<forall>y \<in> set ?zs. key < Key y"
    proof (cases ?zs)
      case (Cons t ys)
      with False zs have "key < Key t" by auto
      with sz Cons show ?thesis by (auto intro: order.strict_trans)
    qed simp
    then show ?thesis using absent [of ?xs ?zs] xs spec(1) by simp
  qed
qed

lemma bucket_map_append: "bucket_map (xs @ ys) = bucket_map ys ++ bucket_map xs"
  by (simp add: bucket_map_def)

lemma bucket_map_Cons: "bucket_map (t # ys) = (bucket_map ys)(Key t \<mapsto> ValueHash t)"
  by (simp add: bucket_map_def)

lemma bucket_map_None: "bucket_map b k = None \<longleftrightarrow> k \<notin> Key ` set b"
  by (auto simp: bucket_map_def map_of_eq_None_iff image_image)

lemma bucket_ok_distinct: "bucket_ok b \<Longrightarrow> distinct (map Key b)"
  by (auto simp: bucket_ok_def strict_sorted_iff)

lemma dom_bucket_map: "dom (bucket_map b) = Key ` set b"
  by (auto simp: bucket_map_def dom_map_of_conv_image_fst image_image)

lemma card_bucket: "bucket_ok b \<Longrightarrow> card (dom (bucket_map b)) = length b"
  using distinct_card [of "map Key b"] bucket_ok_distinct [of b] by (simp add: dom_bucket_map)

lemma BucketFind_spec:
  assumes "bucket_ok b"
  shows "BucketFind b key = bucket_map b key"
  using assms refl
proof (cases rule: bucket_search [where key = key])
  case (present xs t ys)
  have "key \<notin> Key ` set xs" using present(4) by auto
  then have "bucket_map b key = Some (ValueHash t)"
    using present(1,3) bucket_map_None [of xs key] by (simp add: bucket_map_append bucket_map_Cons map_add_def)
  with present show ?thesis by (simp add: BucketFind_def Let_def nth_append)
next
  case (absent xs ys)
  have "bucket_map b key = None"
    using absent by (auto simp: bucket_map_None)
  with absent show ?thesis
    by (cases ys) (auto simp: BucketFind_def Let_def nth_append)
qed

lemma BucketInsert_spec:
  assumes ok: "bucket_ok b"
  shows "bucket_ok (BucketInsert b key v) \<and> bucket_map (BucketInsert b key v) = (bucket_map b)(key \<mapsto> v)"
  using ok refl
proof (cases rule: bucket_search [where key = key])
  case (present xs t ys)
  then have ins: "BucketInsert b key v = xs @ t\<lparr>ValueHash := v\<rparr> # ys"
    by (simp add: BucketInsert_def Let_def nth_append list_update_append)
  have "key \<notin> Key ` set xs" using present(4) by auto
  then have "bucket_map xs key = None" by (simp add: bucket_map_None)
  then show ?thesis
    using ok present(1,3) unfolding ins
    by (auto simp: bucket_ok_def bucket_map_append bucket_map_Cons map_add_def fun_eq_iff split: option.split)
next
  case (absent xs ys)
  then have ins: "BucketInsert b key v = xs @ \<lparr>Key = key, ValueHash = v\<rparr> # ys"
    by (cases ys) (auto simp: BucketInsert_def Let_def nth_append)
  have "key \<notin> Key ` set xs" using absent(3) by auto
  then have "bucket_map xs key = None" by (simp add: bucket_map_None)
  then show ?thesis
    using ok absent unfolding ins
    by (auto simp: bucket_ok_def bucket_map_append bucket_map_Cons map_add_def fun_eq_iff sorted_wrt_append
        split: option.split intro: order.strict_trans)
qed

lemma BucketRemove_spec:
  assumes ok: "bucket_ok b" and r: "BucketRemove b key = (b', removed)"
  shows "(removed \<longleftrightarrow> bucket_map b key \<noteq> None) \<and> bucket_ok b' \<and>
    bucket_map b' = (bucket_map b)(key := None) \<and> (removed \<longrightarrow> length b = Suc (length b'))"
  using ok refl
proof (cases rule: bucket_search [where key = key])
  case (present xs t ys)
  then have rem: "b' = xs @ ys" "removed"
    using r by (auto simp: BucketRemove_def Let_def nth_append)
  have "key \<notin> Key ` set xs" "key \<notin> Key ` set ys" using present(4,5) by auto
  then have "bucket_map xs key = None" "bucket_map ys key = None" by (simp_all add: bucket_map_None)
  then show ?thesis
    using ok present rem
    by (auto simp: bucket_ok_def bucket_map_append bucket_map_Cons map_add_def fun_eq_iff sorted_wrt_append
        split: option.split)
next
  case (absent xs ys)
  let ?idx = "sort_Search (length b) (\<lambda>i. key \<le> Key (b ! i))"
  have "?idx \<ge> length b \<or> Key (b ! ?idx) \<noteq> key"
    unfolding absent(2) by (cases ys) (use absent(1,4) in \<open>auto simp: nth_append\<close>)
  then have "BucketRemove b key = (b, False)"
    unfolding BucketRemove_def Let_def by (rule if_P)
  then have "b' = b" "\<not> removed"
    using r by simp_all
  moreover have "bucket_map b key = None"
    using absent by (auto simp: bucket_map_None)
  ultimately show ?thesis
    using ok by (auto simp: fun_eq_iff)
qed

lemma bucket_unique:
  assumes a: "bucket_ok a" and b: "bucket_ok b" and eq: "bucket_map a = bucket_map b"
  shows "a = b"
proof -
  have "set (map Key a) = set (map Key b)"
    using eq dom_bucket_map [of a] dom_bucket_map [of b] by simp
  then have keys: "map Key a = map Key b"
    using a b by (metis bucket_ok_def strict_sorted_equal)
  show ?thesis
  proof (rule nth_equalityI)
    show len: "length a = length b" using keys by (metis length_map)
    fix i assume i: "i < length a"
    have at: "bucket_map c (Key (c ! i)) = Some (ValueHash (c ! i))" if "bucket_ok c" "i < length c" for c
      unfolding bucket_map_def
    proof (rule map_of_is_SomeI)
      show "distinct (map fst (map (\<lambda>t. (Key t, ValueHash t)) c))"
        using bucket_ok_distinct [OF that(1)] by (simp add: comp_def)
      show "(Key (c ! i), ValueHash (c ! i)) \<in> set (map (\<lambda>t. (Key t, ValueHash t)) c)"
        using nth_mem [OF that(2)] by (simp add: image_iff) blast
    qed
    have "Key (a ! i) = Key (b ! i)"
      using keys i len by (metis nth_map)
    moreover from this have "ValueHash (a ! i) = ValueHash (b ! i)"
      using at [OF a i] at [OF b] i len eq by simp
    ultimately show "a ! i = b ! i" by simp
  qed
qed

end
