(* ===== verification/Trie_Map.thy ===== *)
theory Trie_Map
  imports Trie_Sparse
begin

text \<open>
  Correctness of the snapshot trie. A node represents a finite map at a level when each position
  holds exactly the keys whose hash slice at that level is the position: nothing, a sorted bucket
  of one to three, or a link to a stored node that represents them, of at least four. The
  operations of the code refine the operations on maps, and the node of a map is unique, so that
  the root hash depends on the bindings only.

  The proofs assume of the primitives (\<open>trie_prims_ok\<close>) that the digests have their sizes and that
  the ECF codec inverts itself on nodes whose keys are \<open>good\<close> (valid UTF-8) and whose hashes are
  well formed, and of the content store (the locale \<open>trie_store\<close>) that it keeps what was put. The
  last is no law of a store addressed by hash, where a collision would replace an entry. It is a
  law of \<open>guarded C\<close>, the store that refuses a put
  whose hash is the zero hash or is taken by other data; a run that succeeds there is a run of
  \<open>C\<close>, so that the results carry over to every run of the code that meets no collision.
\<close>

section \<open>Parameters\<close>

definition hash_good :: "hash \<Rightarrow> bool" where
  "hash_good h \<longleftrightarrow> hash_wf h \<and> allocated (Algorithm h)"

definition entry_wire :: "(string \<Rightarrow> bool) \<Rightarrow> NodeEntry \<Rightarrow> bool" where
  "entry_wire good e \<longleftrightarrow>
     (case e of Bucket b \<Rightarrow> \<forall>t \<in> set b. good (Key t) \<and> hash_good (ValueHash t) | Link h \<Rightarrow> hash_good h)"

definition node_wire :: "(string \<Rightarrow> bool) \<Rightarrow> SnapshotNodeData \<Rightarrow> bool" where
  "node_wire good n \<longleftrightarrow> (\<forall>e \<in> set (node_Data n). entry_wire good e)"

text \<open>The documented round trip of the codec, on the nodes that have a wire form.\<close>

definition node_codec :: "'p trie_prims_scheme \<Rightarrow> (string \<Rightarrow> bool) \<Rightarrow> bool" where
  "node_codec P good \<longleftrightarrow>
     (\<forall>n raw. node_wire good n \<and> ecf_EncodeNode P n = Inr raw \<longrightarrow> ecf_DecodeNode P raw = Inr n)"

definition trie_prims_ok :: "'p trie_prims_scheme \<Rightarrow> (string \<Rightarrow> bool) \<Rightarrow> bool" where
  "trie_prims_ok P good \<longleftrightarrow> digest_sizes P \<and> node_codec P good"

text \<open>The content hash of a node, as \<^verbatim>\<open>StoreTrieNode\<close> computes it.\<close>

definition node_hash :: "'p trie_prims_scheme \<Rightarrow> byte \<Rightarrow> SnapshotNodeData \<Rightarrow> hash result" where
  "node_hash P dflt n =
     (case ecf_EncodeNode P n of
        Inl e \<Rightarrow> Inl e
      | Inr raw \<Rightarrow> (case NewEntity P dflt TypeTreeSnapshotNode raw of Inl e \<Rightarrow> Inl e | Inr ent \<Rightarrow> Inr (ContentHash ent)))"

definition map_good :: "(string \<Rightarrow> bool) \<Rightarrow> (string \<rightharpoonup> hash) \<Rightarrow> bool" where
  "map_good good m \<longleftrightarrow> (\<forall>k v. m k = Some v \<longrightarrow> good k \<and> hash_good v)"

abbreviation slot :: "'p hash_prims_scheme \<Rightarrow> string \<Rightarrow> nat \<Rightarrow> nat" where
  "slot P k l \<equiv> HashSlice (HashKey P k) l"

definition at_slot :: "'p hash_prims_scheme \<Rightarrow> nat \<Rightarrow> nat \<Rightarrow> (string \<rightharpoonup> hash) \<Rightarrow> (string \<rightharpoonup> hash)" where
  "at_slot P l p m = m |` {k. slot P k l = p}"

section \<open>The representation relation\<close>

text \<open>
  \<open>trie P dflt C c r n m\<close>: in the store \<open>c\<close> the node \<open>n\<close> represents \<open>m\<close>, with \<open>r\<close> levels left (the
  level of the node is \<open>MaxLevel - r\<close>).
\<close>

fun trie :: "'p trie_prims_scheme \<Rightarrow> byte \<Rightarrow> 'c ContentStore \<Rightarrow> 'c \<Rightarrow> nat \<Rightarrow> SnapshotNodeData \<Rightarrow>
    (string \<rightharpoonup> hash) \<Rightarrow> bool" where
  "trie P dflt C c 0 n m \<longleftrightarrow> False"
| "trie P dflt C c (Suc r) n m \<longleftrightarrow>
     node_ok n \<and>
     (\<forall>p < 32. case node_at n p of
        None \<Rightarrow> at_slot P (MaxLevel - Suc r) p m = Map.empty
      | Some (Bucket b) \<Rightarrow>
          bucket_ok b \<and> b \<noteq> [] \<and> length b \<le> BucketSize \<and> bucket_map b = at_slot P (MaxLevel - Suc r) p m
      | Some (Link h) \<Rightarrow>
          BucketSize < card (dom (at_slot P (MaxLevel - Suc r) p m)) \<and>
          (\<exists>child. LoadTrieNode P C h c = Some child \<and> node_hash P dflt child = Inr h \<and>
             trie P dflt C c r child (at_slot P (MaxLevel - Suc r) p m)))"

text \<open>What one position holds.\<close>

definition entry_holds :: "'p trie_prims_scheme \<Rightarrow> byte \<Rightarrow> 'c ContentStore \<Rightarrow> 'c \<Rightarrow> nat \<Rightarrow> NodeEntry option \<Rightarrow>
    (string \<rightharpoonup> hash) \<Rightarrow> bool" where
  "entry_holds P dflt C c r e m \<longleftrightarrow>
     (case e of
        None \<Rightarrow> m = Map.empty
      | Some (Bucket b) \<Rightarrow> bucket_ok b \<and> b \<noteq> [] \<and> length b \<le> BucketSize \<and> bucket_map b = m
      | Some (Link h) \<Rightarrow>
          BucketSize < card (dom m) \<and>
          (\<exists>child. LoadTrieNode P C h c = Some child \<and> node_hash P dflt child = Inr h \<and>
             trie P dflt C c r child m))"

lemma trie_Suc:
  "trie P dflt C c (Suc r) n m \<longleftrightarrow>
     node_ok n \<and> (\<forall>p < 32. entry_holds P dflt C c r (node_at n p) (at_slot P (MaxLevel - Suc r) p m))"
  by (simp add: entry_holds_def)

declare trie.simps(2) [simp del]

lemma entry_holds_simps [simp]:
  "entry_holds P dflt C c r None m \<longleftrightarrow> m = Map.empty"
  "entry_holds P dflt C c r (Some (Bucket b)) m \<longleftrightarrow>
     bucket_ok b \<and> b \<noteq> [] \<and> length b \<le> BucketSize \<and> bucket_map b = m"
  "entry_holds P dflt C c r (Some (Link h)) m \<longleftrightarrow>
     BucketSize < card (dom m) \<and>
     (\<exists>child. LoadTrieNode P C h c = Some child \<and> node_hash P dflt child = Inr h \<and> trie P dflt C c r child m)"
  by (simp_all add: entry_holds_def)

subsection \<open>Slots\<close>

lemma at_slot_apply: "at_slot P l p m k = (if slot P k l = p then m k else None)"
  by (simp add: at_slot_def restrict_map_def)

lemma at_slot_upd: "at_slot P l p (m(k := v)) = (if slot P k l = p then (at_slot P l p m)(k := v) else at_slot P l p m)"
  by (auto simp: at_slot_apply fun_eq_iff)

lemma at_slot_map_good: "map_good good m \<Longrightarrow> map_good good (at_slot P l p m)"
  by (auto simp: map_good_def at_slot_apply split: if_splits)

lemma entry_nonempty: "entry_holds P dflt C c r (Some e) m \<Longrightarrow> m \<noteq> Map.empty"
  by (cases e) (auto simp: bucket_map_def)

lemma entry_finite: "entry_holds P dflt C c r e m \<Longrightarrow> finite (dom m)"
proof (cases e)
  case (Some x)
  assume "entry_holds P dflt C c r e m"
  with Some show ?thesis
    by (cases x) (auto simp: dom_bucket_map BucketSize_def intro: card_ge_0_finite)
qed simp

lemma dom_slots: "dom m = (\<Union>p < 32. dom (at_slot P l p m))"
  using HashSlice_less by (fastforce simp: at_slot_apply split: if_splits)

lemma trie_finite: "trie P dflt C c r n m \<Longrightarrow> finite (dom m)"
  by (cases r) (auto simp: trie_Suc dom_slots [of m P "MaxLevel - r"] intro: entry_finite)

subsection \<open>Growing stores\<close>

definition grows :: "'p trie_prims_scheme \<Rightarrow> 'c ContentStore \<Rightarrow> 'c \<Rightarrow> 'c \<Rightarrow> bool" where
  "grows P C c c' \<longleftrightarrow> (\<forall>h n. LoadTrieNode P C h c = Some n \<longrightarrow> LoadTrieNode P C h c' = Some n)"

lemma grows_refl [simp]: "grows P C c c"
  by (simp add: grows_def)

lemma grows_trans: "grows P C a b \<Longrightarrow> grows P C b c \<Longrightarrow> grows P C a c"
  by (simp add: grows_def)

lemma trie_grows: "trie P dflt C c r n m \<Longrightarrow> grows P C c c' \<Longrightarrow> trie P dflt C c' r n m"
proof (induction r arbitrary: n m)
  case (Suc r)
  have "entry_holds P dflt C c' r e x" if "entry_holds P dflt C c r e x" for e x
    using that Suc.IH Suc.prems(2)
    by (cases e; cases "the e") (auto simp: grows_def)
  with Suc.prems show ?case by (simp add: trie_Suc)
qed simp

lemma entry_holds_grows: "entry_holds P dflt C c r e m \<Longrightarrow> grows P C c c' \<Longrightarrow> entry_holds P dflt C c' r e m"
  by (cases e; cases "the e") (auto simp: grows_def intro: trie_grows [unfolded grows_def])

section \<open>The node of a map is unique\<close>

lemma entry_unique:
  assumes IH: "\<And>n n' m. trie P dflt C c r n m \<Longrightarrow> trie P dflt C' c' r n' m \<Longrightarrow> n = n'"
    and e: "entry_holds P dflt C c r e m" and e': "entry_holds P dflt C' c' r e' m"
  shows "e = e'"
proof (cases "m = Map.empty")
  case True
  with e e' show ?thesis by (metis entry_nonempty option.exhaust)
next
  case False
  then obtain x y where x: "e = Some x" and y: "e' = Some y"
    using e e' by (metis entry_holds_simps(1) option.exhaust)
  show ?thesis
  proof (cases x; cases y)
    fix a b assume "x = Bucket a" "y = Bucket b"
    then show ?thesis using e e' x y bucket_unique [of a b] by simp
  next
    fix a h assume "x = Bucket a" "y = Link h"
    then show ?thesis using e e' x y card_bucket [of a] by auto
  next
    fix h b assume "x = Link h" "y = Bucket b"
    then show ?thesis using e e' x y card_bucket [of b] by auto
  next
    fix h h' assume "x = Link h" "y = Link h'"
    then show ?thesis using e e' x y IH by fastforce
  qed
qed

lemma trie_unique: "trie P dflt C c r n m \<Longrightarrow> trie P dflt C' c' r n' m \<Longrightarrow> n = n'"
proof (induction r arbitrary: n n' m)
  case (Suc r)
  show ?case
  proof (rule node_eqI)
    show "node_ok n" "node_ok n'" using Suc.prems by (simp_all add: trie_Suc)
    fix p :: nat assume "p < 32"
    then show "node_at n p = node_at n' p"
      using Suc.prems by (intro entry_unique [OF Suc.IH]) (auto simp: trie_Suc)
  qed
qed simp

section \<open>Walks\<close>

text \<open>The three walks visit the same tuples; it is enough to know what is collected.\<close>

lemma BranchSize_collect:
  "BranchSize fuel P C c es = map_option length (collectSubtreeTuples fuel P C c es)"
  by (induction fuel P C c es rule: BranchSize.induct) (auto split: option.splits)

lemma collectBindings_collect:
  "collectBindings fuel P C c es pre out =
     map_option (\<lambda>ts. fold (\<lambda>t out. gm_set out (joinKey pre (Key t)) (ValueHash t)) ts out)
       (collectSubtreeTuples fuel P C c es)"
  by (induction fuel P C c es pre out rule: collectBindings.induct) (auto split: option.splits)

text \<open>\<open>ts\<close> lists the map \<open>m\<close>, in some order.\<close>

definition tuples_of :: "BucketTuple list \<Rightarrow> (string \<rightharpoonup> hash) \<Rightarrow> bool" where
  "tuples_of ts m \<longleftrightarrow> distinct (map Key ts) \<and> bucket_map ts = m"

lemma tuples_of_append:
  assumes "tuples_of xs a" "tuples_of ys b" "dom a \<inter> dom b = {}"
  shows "tuples_of (xs @ ys) (a ++ b)"
proof -
  have ab: "a = bucket_map xs" "b = bucket_map ys" and d: "distinct (map Key xs)" "distinct (map Key ys)"
    using assms(1,2) by (simp_all add: tuples_of_def)
  with assms(3) have "Key ` set xs \<inter> Key ` set ys = {}" by (simp add: dom_bucket_map)
  with d have "distinct (map Key (xs @ ys))" by simp
  moreover have "bucket_map (xs @ ys) = a ++ b"
    using map_add_comm [OF assms(3)] by (simp add: bucket_map_append ab)
  ultimately show ?thesis by (simp add: tuples_of_def)
qed

lemma tuples_of_sort: "tuples_of ts m \<Longrightarrow> bucket_ok (sort_key Key ts) \<and> bucket_map (sort_key Key ts) = m"
proof -
  assume ts: "tuples_of ts m"
  have d: "distinct (map Key (sort_key Key ts))"
    using ts by (simp add: tuples_of_def distinct_map_sort_key)
  then have "bucket_ok (sort_key Key ts)"
    by (simp add: bucket_ok_def strict_sorted_iff)
  moreover have "bucket_map (sort_key Key ts) = bucket_map ts"
    unfolding bucket_map_def
  proof (rule map_of_inject_set [THEN iffD2])
    show "distinct (map fst (map (\<lambda>t. (Key t, ValueHash t)) (sort_key Key ts)))"
      using d by (simp add: comp_def)
    show "distinct (map fst (map (\<lambda>t. (Key t, ValueHash t)) ts))"
      using ts by (simp add: tuples_of_def comp_def)
  qed simp
  ultimately show ?thesis using ts by (simp add: tuples_of_def)
qed

lemma bucket_tuples: "bucket_ok b \<Longrightarrow> tuples_of b (bucket_map b)"
  by (simp add: tuples_of_def bucket_ok_distinct)

lemma tuples_of_length: "tuples_of ts m \<Longrightarrow> length ts = card (dom m)"
  using tuples_of_sort [of ts m] card_bucket [of "sort_key Key ts"] by simp

lemma collect_Cons:
  assumes e: "entry_holds P dflt C c r (Some e) a" and fuel: "r \<le> fuel"
    and IH: "\<And>child m f. trie P dflt C c r child m \<Longrightarrow> r \<le> f + 1 \<Longrightarrow>
      \<exists>ts. collectSubtreeTuples f P C c (node_Data child) = Some ts \<and> tuples_of ts m"
    and es: "collectSubtreeTuples fuel P C c es = Some us" "tuples_of us b" and disj: "dom a \<inter> dom b = {}"
  shows "\<exists>ts. collectSubtreeTuples fuel P C c (e # es) = Some ts \<and> tuples_of ts (a ++ b)"
proof (cases e)
  case (Bucket x)
  then show ?thesis
    using e es disj by (auto intro!: tuples_of_append bucket_tuples)
next
  case (Link h)
  then obtain child where child: "LoadTrieNode P C h c = Some child" "trie P dflt C c r child a"
    using e by auto
  then have "r \<noteq> 0" by (cases r) auto
  with fuel obtain f where f: "fuel = Suc f" "r \<le> f + 1" by (cases fuel) auto
  from IH [OF child(2) f(2)] obtain ts where "collectSubtreeTuples f P C c (node_Data child) = Some ts" "tuples_of ts a"
    by blast
  then show ?thesis
    using Link child f es disj by (auto intro!: tuples_of_append)
qed

lemma at_slot_disjoint: "p \<noteq> q \<Longrightarrow> dom (at_slot P l p m) \<inter> dom (at_slot P l q m) = {}"
  by (auto simp: at_slot_apply split: if_splits)

text \<open>With fuel for the levels that are left, the walk ends and collects exactly the map.\<close>

lemma collect_trie:
  "trie P dflt C c r n m \<Longrightarrow> r \<le> fuel + 1 \<Longrightarrow>
     \<exists>ts. collectSubtreeTuples fuel P C c (node_Data n) = Some ts \<and> tuples_of ts m"
proof (induction r arbitrary: n m fuel)
  case (Suc r)
  let ?l = "MaxLevel - Suc r"
  have ok: "node_ok n" and holds: "\<And>p. p < 32 \<Longrightarrow> entry_holds P dflt C c r (node_at n p) (at_slot P ?l p m)"
    using Suc.prems by (simp_all add: trie_Suc)
  have list: "\<exists>ts. collectSubtreeTuples fuel P C c (map (\<lambda>p. the (node_at n p)) ps) = Some ts \<and>
      tuples_of ts (m |` {k. slot P k ?l \<in> set ps})"
    if "set ps \<subseteq> set (positions (node_Map n))" "distinct ps" for ps
    using that
  proof (induction ps)
    case Nil
    then show ?case by (simp add: tuples_of_def bucket_map_def restrict_map_def)
  next
    case (Cons p ps)
    then have p: "p < 32" "node_at n p \<noteq> None" by (auto simp: set_positions node_at_def)
    then obtain e where e: "node_at n p = Some e" by auto
    from Cons obtain us where us: "collectSubtreeTuples fuel P C c (map (\<lambda>p. the (node_at n p)) ps) = Some us"
      "tuples_of us (m |` {k. slot P k ?l \<in> set ps})"
      by auto
    have disj: "dom (at_slot P ?l p m) \<inter> dom (m |` {k. slot P k ?l \<in> set ps}) = {}"
      using Cons.prems(2) by (auto simp: at_slot_apply split: if_splits)
    have split: "at_slot P ?l p m ++ (m |` {k. slot P k ?l \<in> set ps}) = m |` {k. slot P k ?l \<in> set (p # ps)}"
      by (auto simp: at_slot_apply map_add_def restrict_map_def fun_eq_iff split: option.split)
    have "entry_holds P dflt C c r (Some e) (at_slot P ?l p m)"
      using holds [OF p(1)] e by simp
    from collect_Cons [OF this _ Suc.IH us disj] Suc.prems(2) show ?case
      unfolding split by (simp add: e)
  qed
  have "m |` {k. slot P k ?l \<in> set (positions (node_Map n))} = m"
  proof
    fix k
    have "m k = None" if "slot P k ?l \<notin> set (positions (node_Map n))"
    proof -
      have "node_at n (slot P k ?l) = None" using that node_at_dom by blast
      with holds [OF HashSlice_less, of "HashKey P k" ?l] have "at_slot P ?l (slot P k ?l) m = Map.empty" by simp
      then show ?thesis by (metis at_slot_apply)
    qed
    then show "(m |` {k. slot P k ?l \<in> set (positions (node_Map n))}) k = m k"
      by (auto simp: restrict_map_def)
  qed
  then show ?case
    using list [of "positions (node_Map n)"] node_Data_positions [OF ok] by (simp add: positions_def)
qed simp

section \<open>Mutations\<close>

text \<open>The ways a put can go: it stops, changes this node only, splits a bucket, or descends.\<close>

lemma putAtNode_cases:
  assumes "putAtNode P dflt C n h l k v c = (x, c')"
  defines "p \<equiv> HashSlice h l"
  defines "idx \<equiv> PopcountBelow (node_Map n) p"
  obtains (stop) e where "x = Inl e" "c' = c"
  | (clear) "l < MaxLevel" "\<not> BitmapGet (node_Map n) p" "c' = c"
      "x = Inr \<lparr>node_Map = BitmapSet (node_Map n) p,
               node_Data = insertEntry (node_Data n) idx (Bucket [\<lparr>Key = k, ValueHash = v\<rparr>])\<rparr>"
  | (bucket) b where "l < MaxLevel" "BitmapGet (node_Map n) p" "node_Data n ! idx = Bucket b"
      "BucketFind b k \<noteq> None \<or> length b < BucketSize" "c' = c"
      "x = Inr (n\<lparr>node_Data := replaceEntry (node_Data n) idx (Bucket (BucketInsert b k v))\<rparr>)"
  | (promote) b y c1 where "l < MaxLevel" "BitmapGet (node_Map n) p" "node_Data n ! idx = Bucket b"
      "BucketFind b k = None" "BucketSize \<le> length b"
      "put_tuples P dflt C EmptyNode (l + 1) (b @ [\<lparr>Key = k, ValueHash = v\<rparr>]) c = (y, c1)"
      "(\<exists>e. y = Inl e \<and> x = Inl e \<and> c' = c1) \<or>
       (\<exists>sub z. y = Inr sub \<and> StoreTrieNode P dflt C sub c1 = (z, c') \<and>
          x = map_sum id (\<lambda>s. n\<lparr>node_Data := replaceEntry (node_Data n) idx (Link s)\<rparr>) z)"
  | (descend) s child y c1 where "l < MaxLevel" "BitmapGet (node_Map n) p" "node_Data n ! idx = Link s"
      "LoadTrieNode P C s c = Some child" "putAtNode P dflt C child h (l + 1) k v c = (y, c1)"
      "(\<exists>e. y = Inl e \<and> x = Inl e \<and> c' = c1) \<or>
       (\<exists>sub z. y = Inr sub \<and> StoreTrieNode P dflt C sub c1 = (z, c') \<and>
          x = map_sum id (\<lambda>s. n\<lparr>node_Data := replaceEntry (node_Data n) idx (Link s)\<rparr>) z)"
proof -
  note eq = assms(1) [unfolded putAtNode.simps [of P dflt C n h l k v c] Let_def, folded p_def, folded idx_def]
  consider (a) "l \<ge> MaxLevel \<or> length (node_Map n) < BitmapBytes"
    | (b) "l < MaxLevel" "\<not> length (node_Map n) < BitmapBytes" "\<not> BitmapGet (node_Map n) p"
    | (c) "l < MaxLevel" "\<not> length (node_Map n) < BitmapBytes" "BitmapGet (node_Map n) p" "idx \<ge> length (node_Data n)"
    | (d) "l < MaxLevel" "\<not> length (node_Map n) < BitmapBytes" "BitmapGet (node_Map n) p" "\<not> idx \<ge> length (node_Data n)"
    by linarith
  then show ?thesis
  proof cases
    case a
    then show ?thesis using eq stop by (auto split: if_splits)
  next
    case b
    then show ?thesis using eq stop clear by (auto split: if_splits)
  next
    case c
    then show ?thesis using eq stop by auto
  next
    case d
    show ?thesis
    proof (cases "node_Data n ! idx")
      case (Bucket b)
      show ?thesis
      proof (cases "BucketFind b k \<noteq> None \<or> length b < BucketSize")
        case True
        then show ?thesis using eq d Bucket bucket [of b] by simp
      next
        case False
        obtain y c1 where y: "put_tuples P dflt C EmptyNode (l + 1) (b @ [\<lparr>Key = k, ValueHash = v\<rparr>]) c = (y, c1)"
          by (cases "put_tuples P dflt C EmptyNode (l + 1) (b @ [\<lparr>Key = k, ValueHash = v\<rparr>]) c")
        show ?thesis
          by (rule promote [OF d(1,3) Bucket _ _ y])
            (use False eq d Bucket y in \<open>auto split: sum.splits prod.splits\<close>)
      qed
    next
      case (Link s)
      show ?thesis
      proof (cases "LoadTrieNode P C s c")
        case None
        then show ?thesis using eq d Link stop by auto
      next
        case (Some child)
        obtain y c1 where y: "putAtNode P dflt C child h (l + 1) k v c = (y, c1)"
          by (cases "putAtNode P dflt C child h (l + 1) k v c")
        show ?thesis
          by (rule descend [OF d(1,3) Link Some y])
            (use eq d Link Some y in \<open>auto split: sum.splits prod.splits\<close>)
      qed
    qed
  qed
qed

abbreviation upd_tuple :: "BucketTuple \<Rightarrow> (string \<rightharpoonup> hash) \<Rightarrow> (string \<rightharpoonup> hash)" where
  "upd_tuple \<equiv> \<lambda>t m. m(Key t \<mapsto> ValueHash t)"

lemma fold_upd_bucket: "distinct (map Key b) \<Longrightarrow> fold upd_tuple b m = m ++ bucket_map b"
proof (induction b arbitrary: m)
  case Nil
  then show ?case by (simp add: bucket_map_def)
next
  case (Cons t b)
  then have "Key t \<notin> dom (bucket_map b)" by (auto simp: dom_bucket_map)
  with Cons show ?case
    by (auto simp: bucket_map_Cons map_add_def fun_eq_iff split: option.split)
qed

lemma putAtNode_deep: "MaxLevel \<le> l \<Longrightarrow> putAtNode P dflt C n h l k v c = (Inl [], c)"
  by (simp add: putAtNode.simps)

lemma map_sum_InrD: "map_sum id f z = Inr a \<Longrightarrow> \<exists>s. z = Inr s \<and> a = f s"
  by (cases z) auto

locale trie_store =
  fixes P :: "'p trie_prims_scheme"
    and dflt :: byte
    and C :: "'c ContentStore"
  assumes put_kept: "cs_Put C e c = (Inr h, c') \<Longrightarrow>
        h \<noteq> zero_hash \<and>
        ComputeFormat P (Algorithm (ContentHash e)) (Type e) (Data e) = Inr h \<and>
        (\<exists>e'. cs_Get C h c' = Some e' \<and> Data e' = Data e) \<and>
        (\<forall>h2 e2. cs_Get C h2 c = Some e2 \<longrightarrow> (\<exists>e3. cs_Get C h2 c' = Some e3 \<and> Type e3 = Type e2 \<and> Data e3 = Data e2))"
begin

abbreviation holds where
  "holds c r n m \<equiv> trie P dflt C c r n m"

lemma node_hash_good: "trie_prims_ok P good \<Longrightarrow> node_hash P dflt n = Inr h \<Longrightarrow> hash_good h"
  using ComputeFormat_wf [of P]
  by (auto simp: trie_prims_ok_def node_hash_def NewEntity_def NewEntityFormat_Inr hash_good_def split: sum.splits)

lemma store_ok:
  assumes prims: "trie_prims_ok P good" and st: "StoreTrieNode P dflt C n c = (Inr h, c')" and wire: "node_wire good n"
  shows "h \<noteq> zero_hash \<and> node_hash P dflt n = Inr h \<and> LoadTrieNode P C h c' = Some n \<and> grows P C c c'"
proof -
  obtain raw where raw: "ecf_EncodeNode P n = Inr raw"
    using st by (auto simp: StoreTrieNode_def split: sum.splits)
  then obtain ent where ent: "NewEntity P dflt TypeTreeSnapshotNode raw = Inr ent"
    using st by (auto simp: StoreTrieNode_def split: sum.splits)
  have put: "cs_Put C ent c = (Inr h, c')"
    using st raw ent by (simp add: StoreTrieNode_def)
  have e: "Data ent = raw"
    "ComputeFormat P (Algorithm (ContentHash ent)) (Type ent) (Data ent) = Inr (ContentHash ent)"
    using NewEntityFormat_props [OF ent [unfolded NewEntity_def]] unfolding Validate_iff by blast+
  from put_kept [OF put] e have "h = ContentHash ent"
    by simp
  moreover have "ecf_DecodeNode P raw = Inr n"
    using prims wire raw by (simp add: trie_prims_ok_def node_codec_def)
  moreover have "grows P C c c'"
    unfolding grows_def LoadTrieNode_def
    using put_kept [OF put] by (fastforce split: option.splits)
  moreover obtain e' where "cs_Get C h c' = Some e'" "Data e' = raw"
    using put_kept [OF put] e(1) by auto
  ultimately show ?thesis
    using put_kept [OF put] raw ent by (simp add: node_hash_def LoadTrieNode_def)
qed

lemma trie_wire:
  assumes prims: "trie_prims_ok P good" and tr: "holds c r n m" and m: "map_good good m"
  shows "node_wire good n"
proof (cases r)
  case (Suc r')
  have ok: "node_ok n" and ent: "\<And>p. p < 32 \<Longrightarrow>
      entry_holds P dflt C c r' (node_at n p) (at_slot P (MaxLevel - Suc r') p m)"
    using tr Suc by (simp_all add: trie_Suc)
  have "entry_wire good e" if "e \<in> set (node_Data n)" for e
  proof -
    have "e \<in> (\<lambda>p. the (node_at n p)) ` set (positions (node_Map n))"
      using that by (subst (asm) node_Data_positions [OF ok]) simp
    then obtain p where p: "p < 32" "node_at n p = Some e"
      by (auto simp: set_positions node_at_def)
    let ?m = "at_slot P (MaxLevel - Suc r') p m"
    have h: "entry_holds P dflt C c r' (Some e) ?m" and g: "map_good good ?m"
      using ent [OF p(1)] p(2) m by (simp_all add: at_slot_map_good)
    show ?thesis
    proof (cases e)
      case (Bucket b)
      then have b: "bucket_ok b" "bucket_map b = ?m" using h by simp_all
      have "bucket_map b (Key t) = Some (ValueHash t)" if "t \<in> set b" for t
        unfolding bucket_map_def using bucket_ok_distinct [OF b(1)] that
        by (intro map_of_is_SomeI) (auto simp: comp_def)
      then show ?thesis
        using g b(2) Bucket by (auto simp: entry_wire_def map_good_def)
    next
      case (Link x)
      then show ?thesis using h node_hash_good [OF prims] by (auto simp: entry_wire_def)
    qed
  qed
  then show ?thesis by (simp add: node_wire_def)
qed (use tr in simp)

lemma trie_Empty: "holds c (Suc r) EmptyNode Map.empty"
  by (simp add: trie_Suc at_slot_def)

text \<open>Changing the entry of one slot changes the map in that slot.\<close>

lemma trie_update:
  assumes "holds c (Suc r) n m" and "grows P C c c'" and "node_ok n'"
    and "p = slot P k (MaxLevel - Suc r)" and "node_at n' = (node_at n)(p := e)"
    and "entry_holds P dflt C c' r e ((at_slot P (MaxLevel - Suc r) p m)(k := v))"
  shows "holds c' (Suc r) n' (m(k := v))"
  using assms by (auto simp: trie_Suc at_slot_upd entry_holds_grows)

lemma map_good_upd: "map_good good m \<Longrightarrow> good k \<Longrightarrow> hash_good v \<Longrightarrow> map_good good (m(k \<mapsto> v))"
  by (auto simp: map_good_def)

lemma map_good_del: "map_good good m \<Longrightarrow> map_good good (m(k := None))"
  by (auto simp: map_good_def)

text \<open>One put with \<open>r\<close> levels left; the statement for the tuples of a promoted bucket follows.\<close>

definition put_correct :: "(string \<Rightarrow> bool) \<Rightarrow> nat \<Rightarrow> bool" where
  "put_correct good r \<longleftrightarrow> (\<forall>n m k v c n' c'. holds c r n m \<longrightarrow> map_good good m \<longrightarrow> good k \<longrightarrow> hash_good v \<longrightarrow>
     putAtNode P dflt C n (HashKey P k) (MaxLevel - r) k v c = (Inr n', c') \<longrightarrow>
     grows P C c c' \<and> holds c' r n' (m(k \<mapsto> v)))"

lemma put_correctD:
  assumes "put_correct good r" "holds c r n m" "map_good good m" "good k" "hash_good v"
    "putAtNode P dflt C n (HashKey P k) (MaxLevel - r) k v c = (Inr n', c')"
  shows "grows P C c c' \<and> holds c' r n' (m(k \<mapsto> v))"
  using assms unfolding put_correct_def by blast

lemma put_tuples_correct:
  assumes "put_correct good r"
  shows "holds c r n m \<Longrightarrow> map_good good m \<Longrightarrow> (\<And>t. t \<in> set ts \<Longrightarrow> good (Key t) \<and> hash_good (ValueHash t)) \<Longrightarrow>
    put_tuples P dflt C n (MaxLevel - r) ts c = (Inr n', c') \<Longrightarrow>
    grows P C c c' \<and> holds c' r n' (fold upd_tuple ts m)"
proof (induction ts arbitrary: n m c)
  case (Cons t ts)
  obtain n1 c1 where p1: "putAtNode P dflt C n (HashKey P (Key t)) (MaxLevel - r) (Key t) (ValueHash t) c = (Inr n1, c1)"
    and p2: "put_tuples P dflt C n1 (MaxLevel - r) ts c1 = (Inr n', c')"
    using Cons.prems(4) by (auto split: prod.splits sum.splits)
  have t: "good (Key t)" "hash_good (ValueHash t)" using Cons.prems(3) by auto
  from put_correctD [OF assms Cons.prems(1,2) t p1]
  have 1: "grows P C c c1" "holds c1 r n1 (m(Key t \<mapsto> ValueHash t))" by simp_all
  have "grows P C c1 c' \<and> holds c' r n' (fold upd_tuple ts (m(Key t \<mapsto> ValueHash t)))"
    using Cons.prems(2,3) t by (intro Cons.IH [OF 1(2) _ _ p2] map_good_upd) auto
  with 1(1) show ?case unfolding fold_simps by (blast intro: grows_trans)
qed simp

lemma store_link:
  assumes "trie_prims_ok P good" and "StoreTrieNode P dflt C sub c1 = (z, c')" and "holds c1 r sub m" and "map_good good m"
    and "z = Inr s" and "BucketSize < card (dom m)"
  shows "grows P C c1 c' \<and> entry_holds P dflt C c' r (Some (Link s)) m"
  using store_ok [OF assms(1), of sub c1 s c'] trie_wire [OF assms(1,3,4)] assms trie_grows [OF assms(3)] by auto

lemma idx_at: "node_ok n \<Longrightarrow> p < 32 \<Longrightarrow> BitmapGet (node_Map n) p \<Longrightarrow>
    node_at n p = Some (node_Data n ! PopcountBelow (node_Map n) p)"
  by (simp add: node_at_def)

lemma bucket_insert_entry:
  assumes "entry_holds P dflt C c r (Some (Bucket b)) m" and "BucketFind b k \<noteq> None \<or> length b < BucketSize"
  shows "entry_holds P dflt C c r (Some (Bucket (BucketInsert b k v))) (m(k \<mapsto> v))"
proof -
  have b: "bucket_ok b" "bucket_map b = m" "length b \<le> BucketSize" using assms(1) by simp_all
  let ?b = "BucketInsert b k v"
  have b': "bucket_ok ?b" "bucket_map ?b = m(k \<mapsto> v)" using BucketInsert_spec [OF b(1)] b(2) by simp_all
  have "length ?b = card (insert k (dom m))"
    using card_bucket [OF b'(1)] b'(2) by simp
  moreover have "finite (dom m)" "card (dom m) = length b"
    using card_bucket [OF b(1)] b(2) by (auto simp: dom_bucket_map)
  ultimately have "length ?b \<le> BucketSize" "?b \<noteq> []"
    using assms(2) b BucketFind_spec [OF b(1), of k] by (auto simp: card_insert_if split: if_splits)
  with b' show ?thesis by simp
qed

lemma put_correct_step:
  assumes prims: "trie_prims_ok P good" and IH: "put_correct good r" and r: "r < MaxLevel"
  shows "put_correct good (Suc r)"
  unfolding put_correct_def
proof (intro allI impI)
  fix n m k v c n' c'
  assume tr: "holds c (Suc r) n m" and m: "map_good good m" and k: "good k" "hash_good v"
    and put: "putAtNode P dflt C n (HashKey P k) (MaxLevel - Suc r) k v c = (Inr n', c')"
  let ?l = "MaxLevel - Suc r"
  let ?p = "slot P k ?l"
  let ?m = "at_slot P ?l ?p m"
  have ok: "node_ok n" and p: "?p < 32" and here: "entry_holds P dflt C c r (node_at n ?p) ?m"
    using tr HashSlice_less by (simp_all add: trie_Suc)
  have gm: "map_good good ?m" using m by (rule at_slot_map_good)
  have lvl: "?l + 1 = MaxLevel - r" using r by simp
  have replaced: "holds c' (Suc r) n' (m(k \<mapsto> v))"
    if "n' = n\<lparr>node_Data := replaceEntry (node_Data n) (PopcountBelow (node_Map n) ?p) e\<rparr>"
      "BitmapGet (node_Map n) ?p" "grows P C c c'" "entry_holds P dflt C c' r (Some e) (?m(k \<mapsto> v))" for e
    using replace_node [OF ok p that(2,1)] trie_update [OF tr that(3)] that(4) by blast
  show "grows P C c c' \<and> holds c' (Suc r) n' (m(k \<mapsto> v))"
    using put
  proof (cases rule: putAtNode_cases)
    case clear
    then have "?m = Map.empty" using here by (simp add: node_at_def)
    then have "entry_holds P dflt C c' r (Some (Bucket [\<lparr>Key = k, ValueHash = v\<rparr>])) (?m(k \<mapsto> v))"
      by (simp add: bucket_ok_def bucket_map_def BucketSize_def)
    with insert_node [OF ok p clear(2)] clear trie_update [OF tr] show ?thesis by auto
  next
    case (bucket b)
    then have "entry_holds P dflt C c r (Some (Bucket b)) ?m" using here idx_at [OF ok p] by simp
    with bucket replaced bucket_insert_entry show ?thesis by auto
  next
    case (promote b y c1)
    then have b: "entry_holds P dflt C c r (Some (Bucket b)) ?m" using here idx_at [OF ok p] by simp
    then have bo: "bucket_ok b" "bucket_map b = ?m" by simp_all
    obtain sub s where y: "y = Inr sub" and st: "StoreTrieNode P dflt C sub c1 = (Inr s, c')"
      and n': "n' = n\<lparr>node_Data := replaceEntry (node_Data n) (PopcountBelow (node_Map n) ?p) (Link s)\<rparr>"
      using promote(7) by (auto dest!: map_sum_InrD [OF sym])
    have new: "k \<notin> dom ?m" using promote(4) BucketFind_spec [OF bo(1), of k] bo(2) by auto
    let ?ts = "b @ [\<lparr>Key = k, ValueHash = v\<rparr>]"
    have "distinct (map Key b)" using bo(1) by (rule bucket_ok_distinct)
    then have fold: "fold upd_tuple ?ts Map.empty = ?m(k \<mapsto> v)"
      using fold_upd_bucket [of b Map.empty] bo(2) by simp
    have r0: "r \<noteq> 0"
    proof
      assume "r = 0"
      then have "MaxLevel \<le> ?l + 1" using lvl by simp
      then have "put_tuples P dflt C EmptyNode (?l + 1) ?ts c = (Inl [], c)"
        by (cases b) (simp_all add: putAtNode_deep)
      with promote(6) y show False by simp
    qed
    then obtain r' where r': "r = Suc r'" by (cases r) auto
    have tup: "good (Key t) \<and> hash_good (ValueHash t)" if "t \<in> set ?ts" for t
    proof (cases "t \<in> set b")
      case True
      then have "bucket_map b (Key t) = Some (ValueHash t)"
        unfolding bucket_map_def using bucket_ok_distinct [OF bo(1)] by (intro map_of_is_SomeI) (auto simp: comp_def)
      then show ?thesis using gm bo(2) by (auto simp: map_good_def)
    qed (use that k in auto)
    have sub: "grows P C c c1 \<and> holds c1 r sub (?m(k \<mapsto> v))"
      using put_tuples_correct [OF IH trie_Empty [of c r', folded r'], of ?ts sub] tup promote(6) y
      unfolding lvl fold by (simp add: map_good_def)
    have "card (dom ?m) = length b" "finite (dom ?m)"
      using card_bucket [OF bo(1)] bo(2) entry_finite [OF b] by simp_all
    then have "BucketSize < card (dom (?m(k \<mapsto> v)))"
      using promote(5) new by simp
    with store_link [OF prims st _ _ refl] sub gm k
    have "grows P C c1 c' \<and> entry_holds P dflt C c' r (Some (Link s)) (?m(k \<mapsto> v))"
      by (blast intro: map_good_upd)
    with replaced [OF n' promote(2)] sub show ?thesis by (blast intro: grows_trans)
  next
    case (descend s0 child y c1)
    then have e: "entry_holds P dflt C c r (Some (Link s0)) ?m" using here idx_at [OF ok p] by simp
    then have ch: "holds c r child ?m" "BucketSize < card (dom ?m)" using descend(4) by auto
    obtain sub s where y: "y = Inr sub" and st: "StoreTrieNode P dflt C sub c1 = (Inr s, c')"
      and n': "n' = n\<lparr>node_Data := replaceEntry (node_Data n) (PopcountBelow (node_Map n) ?p) (Link s)\<rparr>"
      using descend(6) by (auto dest!: map_sum_InrD [OF sym])
    have sub: "grows P C c c1 \<and> holds c1 r sub (?m(k \<mapsto> v))"
      using put_correctD [OF IH ch(1) gm k] descend(5) y unfolding lvl by simp
    have "finite (dom ?m)" using trie_finite [OF ch(1)] .
    then have "BucketSize < card (dom (?m(k \<mapsto> v)))"
      using ch(2) by (auto simp: card_insert_if)
    with store_link [OF prims st _ _ refl] sub gm k
    have "grows P C c1 c' \<and> entry_holds P dflt C c' r (Some (Link s)) (?m(k \<mapsto> v))"
      by (blast intro: map_good_upd)
    with replaced [OF n' descend(2)] sub show ?thesis by (blast intro: grows_trans)
  qed simp
qed

lemma put_correct_all: "trie_prims_ok P good \<Longrightarrow> r \<le> MaxLevel \<Longrightarrow> put_correct good r"
proof (induction r)
  case 0
  show ?case by (simp add: put_correct_def)
next
  case (Suc r)
  then show ?case by (intro put_correct_step) simp_all
qed

end

end
