(* ===== verification/Trie_Ops.thy ===== *)
theory Trie_Ops
  imports Trie_Map
begin

text \<open>
  The removals, the operations on roots and the builds of the snapshot trie, on the representation
  relation of \<open>Trie_Map\<close>: each operation refines the operation on the finite map, and two tries of
  the same map have the same root hash. The last part carries the results from the guarded store
  to the content store of the code.
\<close>

section \<open>Removal\<close>

context trie_store
begin

definition remove_result :: "nat \<Rightarrow> SnapshotNodeData \<Rightarrow> (string \<rightharpoonup> hash) \<Rightarrow> string \<Rightarrow> 'c \<Rightarrow>
    ((SnapshotNodeData \<times> bool) result \<times> 'c) option \<Rightarrow> bool" where
  "remove_result r n m k c res \<longleftrightarrow>
     (case res of
        None \<Rightarrow> False
      | Some (Inl _, _) \<Rightarrow> True
      | Some (Inr (n', removed), c') \<Rightarrow>
          grows P C c c' \<and> removed = (k \<in> dom m) \<and>
          (if removed then holds c' r n' (m(k := None)) else n' = n))"

lemma entry_removed:
  assumes "holds c (Suc r) n m" and "grows P C c c'" and "p = slot P k (MaxLevel - Suc r)"
    and "BitmapGet (node_Map n) p" and "p < 32"
    and "m' = (at_slot P (MaxLevel - Suc r) p m)(k := None)"
  shows "m' = Map.empty \<Longrightarrow>
      holds c' (Suc r) \<lparr>node_Map = BitmapClear (node_Map n) p,
        node_Data = removeEntryAt (node_Data n) (PopcountBelow (node_Map n) p)\<rparr> (m(k := None))"
    and "entry_holds P dflt C c' r (Some e) m' \<Longrightarrow>
      holds c' (Suc r) (n\<lparr>node_Data := replaceEntry (node_Data n) (PopcountBelow (node_Map n) p) e\<rparr>) (m(k := None))"
proof -
  have ok: "node_ok n" using assms(1) by (simp add: trie_Suc)
  show "m' = Map.empty \<Longrightarrow>
      holds c' (Suc r) \<lparr>node_Map = BitmapClear (node_Map n) p,
        node_Data = removeEntryAt (node_Data n) (PopcountBelow (node_Map n) p)\<rparr> (m(k := None))"
    using remove_node [OF ok assms(5,4) refl] trie_update [OF assms(1,2) _ assms(3)] assms(6) by auto
  show "entry_holds P dflt C c' r (Some e) m' \<Longrightarrow>
      holds c' (Suc r) (n\<lparr>node_Data := replaceEntry (node_Data n) (PopcountBelow (node_Map n) p) e\<rparr>) (m(k := None))"
    using replace_node [OF ok assms(5,4) refl] trie_update [OF assms(1,2) _ assms(3)] assms(6) by auto
qed

text \<open>What the collapse decides: a bucket again when at most three tuples are left.\<close>

lemma collapsedChild_trie:
  assumes tr: "holds c r child m" and fuel: "r \<le> fuel + 1"
  obtains (stays) "collapsedChild fuel P C c child = Some None" "BucketSize < card (dom m)"
  | (folds) ts where "collapsedChild fuel P C c child = Some (Some ts)" "bucket_ok ts" "bucket_map ts = m"
      "length ts \<le> BucketSize"
proof -
  obtain ts where ts: "collectSubtreeTuples fuel P C c (node_Data child) = Some ts" "tuples_of ts m"
    using collect_trie [OF tr fuel] by blast
  have len: "length ts = card (dom m)" using tuples_of_length [OF ts(2)] .
  show ?thesis
  proof (cases "BucketSize < card (dom m)")
    case True
    then show ?thesis using stays ts(1) len by (simp add: collapsedChild_def BranchSize_collect)
  next
    case False
    then show ?thesis
      using folds [of "sort_key Key ts"] tuples_of_sort [OF ts(2)] ts(1) len
      by (simp add: collapsedChild_def BranchSize_collect CollectSubtreeTuples_def)
  qed
qed

lemma bucket_removed:
  assumes "entry_holds P dflt C c r (Some (Bucket b)) m" and "BucketRemove b k = (b', removed)"
  shows "removed = (k \<in> dom m)" and "removed \<Longrightarrow> b' \<noteq> [] \<Longrightarrow> entry_holds P dflt C c r (Some (Bucket b')) (m(k := None))"
    and "removed \<Longrightarrow> b' = [] \<Longrightarrow> m(k := None) = Map.empty"
  using BucketRemove_spec [OF _ assms(2)] assms(1) by (auto simp: bucket_map_def)

lemma removeAtNode_ok:
  assumes "node_ok n" and "p = HashSlice h l"
  shows "removeAtNode (Suc fuel) P dflt C n h l k c =
    (case node_at n p of
       None \<Rightarrow> Some (Inr (n, False), c)
     | Some (Bucket b) \<Rightarrow>
         (case BucketRemove b k of
            (b', removed) \<Rightarrow>
              if \<not> removed then Some (Inr (n, False), c)
              else if length b' = 0 then
                Some (Inr (\<lparr>node_Map = BitmapClear (node_Map n) p,
                            node_Data = removeEntryAt (node_Data n) (PopcountBelow (node_Map n) p)\<rparr>, True), c)
              else
                Some (Inr (n\<lparr>node_Data := replaceEntry (node_Data n) (PopcountBelow (node_Map n) p) (Bucket b')\<rparr>, True), c))
     | Some (Link s) \<Rightarrow>
         (case LoadTrieNode P C s c of
            None \<Rightarrow> Some (Inl [], c)
          | Some child \<Rightarrow>
              (case removeAtNode fuel P dflt C child h (l + 1) k c of
                 None \<Rightarrow> None
               | Some (Inl err, c1) \<Rightarrow> Some (Inl err, c1)
               | Some (Inr (child', removed), c1) \<Rightarrow>
                   if \<not> removed then Some (Inr (n, False), c1)
                   else
                     (case collapsedChild fuel P C c1 child' of
                        None \<Rightarrow> None
                      | Some (Some ts) \<Rightarrow>
                          if length ts = 0 then
                            Some (Inr (\<lparr>node_Map = BitmapClear (node_Map n) p,
                                        node_Data = removeEntryAt (node_Data n) (PopcountBelow (node_Map n) p)\<rparr>, True), c1)
                          else
                            Some (Inr (n\<lparr>node_Data := replaceEntry (node_Data n) (PopcountBelow (node_Map n) p) (Bucket ts)\<rparr>, True), c1)
                      | Some None \<Rightarrow>
                          (case StoreTrieNode P dflt C child' c1 of
                             (Inl err, c2) \<Rightarrow> Some (Inl err, c2)
                           | (Inr s', c2) \<Rightarrow>
                               Some (Inr (n\<lparr>node_Data := replaceEntry (node_Data n) (PopcountBelow (node_Map n) p) (Link s')\<rparr>, True), c2))))))"
proof -
  have p: "p < 32" using assms(2) HashSlice_less by simp
  have len: "length (node_Map n) = BitmapBytes" "\<not> BitmapBytes - 1 - p div 8 \<ge> length (node_Map n)"
    using assms(1) p by (simp_all add: node_ok_def BitmapBytes_def)
  have idx: "BitmapGet (node_Map n) p \<Longrightarrow> PopcountBelow (node_Map n) p < length (node_Data n)"
    using idx_less [OF assms(1) p] .
  show ?thesis
  proof (cases "BitmapGet (node_Map n) p")
    case True
    then have "node_at n p = Some (node_Data n ! PopcountBelow (node_Map n) p)"
      using p by (simp add: node_at_def)
    with True len idx show ?thesis
      by (simp add: removeAtNode.simps(2) assms(2) [symmetric] Let_def)
  next
    case False
    then have "node_at n p = None" by (simp add: node_at_def)
    with False len show ?thesis
      by (simp add: removeAtNode.simps(2) assms(2) [symmetric] Let_def)
  qed
qed

text \<open>The way back up: the changed child becomes a bucket, a new link, or nothing.\<close>

lemma remove_ascend:
  assumes prims: "trie_prims_ok P good" and tr: "holds c (Suc r) n m" and gm: "map_good good m" and k: "k \<in> dom m"
    and p: "p = slot P k (MaxLevel - Suc r)" "node_at n p \<noteq> None"
    and g: "grows P C c c1" and fuel: "r \<le> fuel + 1"
    and child: "holds c1 r child ((at_slot P (MaxLevel - Suc r) p m)(k := None))"
  shows "remove_result (Suc r) n m k c
    (case collapsedChild fuel P C c1 child of
       None \<Rightarrow> None
     | Some (Some ts) \<Rightarrow>
         if length ts = 0 then
           Some (Inr (\<lparr>node_Map = BitmapClear (node_Map n) p,
                       node_Data = removeEntryAt (node_Data n) (PopcountBelow (node_Map n) p)\<rparr>, True), c1)
         else
           Some (Inr (n\<lparr>node_Data := replaceEntry (node_Data n) (PopcountBelow (node_Map n) p) (Bucket ts)\<rparr>, True), c1)
     | Some None \<Rightarrow>
         (case StoreTrieNode P dflt C child c1 of
            (Inl err, c2) \<Rightarrow> Some (Inl err, c2)
          | (Inr s', c2) \<Rightarrow>
              Some (Inr (n\<lparr>node_Data := replaceEntry (node_Data n) (PopcountBelow (node_Map n) p) (Link s')\<rparr>, True), c2)))"
proof -
  let ?m = "at_slot P (MaxLevel - Suc r) p m"
  have "p < 32" "BitmapGet (node_Map n) p"
    using p HashSlice_less by (auto simp: node_at_def split: if_splits)
  note gone = entry_removed [OF tr _ p(1) this(2,1) refl]
  from child fuel show ?thesis
  proof (cases rule: collapsedChild_trie)
    case stays
    obtain z c2 where z: "StoreTrieNode P dflt C child c1 = (z, c2)"
      by (cases "StoreTrieNode P dflt C child c1")
    show ?thesis
    proof (cases z)
      case (Inl err)
      then show ?thesis using stays z by (simp add: remove_result_def)
    next
      case (Inr s')
      have "grows P C c1 c2 \<and> entry_holds P dflt C c2 r (Some (Link s')) (?m(k := None))"
        by (rule store_link [OF prims z child map_good_del [OF at_slot_map_good [OF gm]] Inr stays(2)])
      then show ?thesis
        using gone(2) [of c2 "Link s'"] grows_trans [OF g] k stays(1) z
        by (simp add: Inr remove_result_def del: entry_holds_simps)
    qed
  next
    case (folds ts)
    show ?thesis
    proof (cases "ts = []")
      case True
      then have "?m(k := None) = Map.empty" using folds(3) by (simp add: bucket_map_def)
      then show ?thesis using gone(1) [OF g] k True folds(1) g by (simp add: remove_result_def)
    next
      case False
      then have "entry_holds P dflt C c1 r (Some (Bucket ts)) (?m(k := None))"
        using folds by simp
      then show ?thesis
        using gone(2) [OF g] k False folds(1) g by (simp add: remove_result_def del: entry_holds_simps)
    qed
  qed
qed

lemma removeAtNode_correct:
  assumes prims: "trie_prims_ok P good"
  shows "holds c r n m \<Longrightarrow> map_good good m \<Longrightarrow> r \<le> fuel \<Longrightarrow> r \<le> MaxLevel \<Longrightarrow>
   remove_result r n m k c (removeAtNode fuel P dflt C n (HashKey P k) (MaxLevel - r) k c)"
proof (induction r arbitrary: n m fuel)
  case (Suc r)
  obtain f where f: "fuel = Suc f" "r \<le> f" using Suc.prems(3) by (cases fuel) auto
  let ?l = "MaxLevel - Suc r"
  let ?p = "slot P k ?l"
  let ?m = "at_slot P ?l ?p m"
  have ok: "node_ok n" and p: "?p < 32" and here: "entry_holds P dflt C c r (node_at n ?p) ?m"
    using Suc.prems(1) HashSlice_less by (simp_all add: trie_Suc)
  have dom: "k \<in> dom ?m \<longleftrightarrow> k \<in> dom m" by (simp add: at_slot_apply dom_def)
  have lvl: "?l + 1 = MaxLevel - r" using Suc.prems(4) by simp
  note rm = removeAtNode_ok [OF ok refl, of f "HashKey P k" ?l k c]
  show ?case
  proof (cases "node_at n ?p")
    case None
    then show ?thesis using here dom rm f by (auto simp: remove_result_def)
  next
    case (Some e)
    then have set: "BitmapGet (node_Map n) ?p" by (auto simp: node_at_def split: if_splits)
    show ?thesis
    proof (cases e)
      case (Bucket b)
      obtain b' removed where b': "BucketRemove b k = (b', removed)" by (cases "BucketRemove b k")
      have "entry_holds P dflt C c r (Some (Bucket b)) ?m" using here Some Bucket by simp
      note br = bucket_removed [OF this b']
      show ?thesis
        using br dom entry_removed [OF Suc.prems(1) grows_refl refl set p refl] Some Bucket b'
        by (auto simp: f rm remove_result_def)
    next
      case (Link s)
      then obtain child where ch: "LoadTrieNode P C s c = Some child" "holds c r child ?m"
        using here Some by auto
      have IH: "remove_result r child ?m k c (removeAtNode f P dflt C child (HashKey P k) (?l + 1) k c)"
        using Suc.IH [OF ch(2) at_slot_map_good [OF Suc.prems(2)] f(2)] Suc.prems(4) unfolding lvl by simp
      then obtain x c1 where x: "removeAtNode f P dflt C child (HashKey P k) (?l + 1) k c = Some (x, c1)"
        by (cases "removeAtNode f P dflt C child (HashKey P k) (?l + 1) k c") (auto simp: remove_result_def)
      note step = rm [unfolded Some Link option.case NodeEntry.case ch(1) x prod.case]
      consider (err) err where "x = Inl err" | (kept) child' where "x = Inr (child', False)"
        | (removed) child' where "x = Inr (child', True)" by (metis (full_types) obj_sumE surj_pair)
      then show ?thesis
      proof cases
        case err
        then show ?thesis by (simp add: f step remove_result_def)
      next
        case (kept child')
        have "remove_result r child ?m k c (Some (Inr (child', False), c1))"
          using IH unfolding x kept .
        then show ?thesis using dom by (simp add: f step kept remove_result_def)
      next
        case (removed child')
        have "remove_result r child ?m k c (Some (Inr (child', True), c1))"
          using IH unfolding x removed .
        then have "k \<in> dom m" "grows P C c c1" "holds c1 r child' (?m(k := None))"
          unfolding remove_result_def using dom by auto
        with remove_ascend [OF prims Suc.prems(1,2) _ refl, of k c1 f child'] Some f(2)
        show ?thesis by (simp add: f(1) step removed)
      qed
    qed
  qed
qed simp

end

section \<open>Roots\<close>

text \<open>A root hash and the bindings it stands for; the zero hash stands for none.\<close>

definition trie_root :: "'p trie_prims_scheme \<Rightarrow> byte \<Rightarrow> 'c ContentStore \<Rightarrow> 'c \<Rightarrow> hash \<Rightarrow> (string \<rightharpoonup> hash) \<Rightarrow> bool" where
  "trie_root P dflt C c h m \<longleftrightarrow>
     h \<noteq> zero_hash \<and>
     (\<exists>n. LoadTrieNode P C h c = Some n \<and> node_hash P dflt n = Inr h \<and> trie P dflt C c MaxLevel n m)"

definition root_map :: "'p trie_prims_scheme \<Rightarrow> byte \<Rightarrow> 'c ContentStore \<Rightarrow> 'c \<Rightarrow> hash \<Rightarrow> (string \<rightharpoonup> hash) \<Rightarrow> bool" where
  "root_map P dflt C c h m \<longleftrightarrow> h = zero_hash \<and> m = Map.empty \<or> trie_root P dflt C c h m"

text \<open>The root hash is a function of the bindings.\<close>

lemma trie_root_unique:
  "trie_root P dflt C c h m \<Longrightarrow> trie_root P dflt C' c' h' m \<Longrightarrow> h = h'"
  unfolding trie_root_def by (metis sum.inject(2) trie_unique)

lemma trie_root_grows: "trie_root P dflt C c h m \<Longrightarrow> grows P C c c' \<Longrightarrow> trie_root P dflt C c' h m"
  using trie_grows [of P dflt C c MaxLevel _ m c'] by (fastforce simp: trie_root_def grows_def)

lemma trie_root_finite: "trie_root P dflt C c h m \<Longrightarrow> finite (dom m)"
  by (auto simp: trie_root_def intro: trie_finite)

lemma gm_get_empty: "gm_get [] = Map.empty"
  by (simp add: fun_eq_iff)

lemma fold_gm_set:
  "gm_get (fold (\<lambda>t out. gm_set out (Key t) (ValueHash t)) ts out) = fold upd_tuple ts (gm_get out)"
  by (induction ts arbitrary: out) (simp_all add: gm_get_set_fun)

context trie_store
begin

lemma MaxLevel_Suc: "MaxLevel = Suc (MaxLevel - 1)"
  by (simp add: MaxLevel_def)

lemma Empty_root: "holds c MaxLevel EmptyNode Map.empty"
  by (subst MaxLevel_Suc) (rule trie_Empty)

lemma loadOrEmpty_root:
  assumes "root_map P dflt C c root m"
  shows "holds c MaxLevel (loadOrEmpty P C c root) m"
proof (cases "root = zero_hash")
  case True
  with assms have "m = Map.empty" by (auto simp: root_map_def trie_root_def)
  with True Empty_root show ?thesis
    by (simp add: loadOrEmpty_def IsZero_def)
next
  case False
  with assms obtain n where n: "LoadTrieNode P C root c = Some n" "holds c MaxLevel n m"
    by (auto simp: root_map_def trie_root_def)
  moreover have "node_ok n" using n(2) MaxLevel_Suc by (metis trie_Suc)
  ultimately show ?thesis using False by (simp add: loadOrEmpty_def IsZero_def node_ok_def BitmapBytes_def)
qed

lemma store_root:
  assumes "trie_prims_ok P good" "StoreTrieNode P dflt C n c = (Inr h, c')" "holds c MaxLevel n m" "map_good good m"
  shows "trie_root P dflt C c' h m \<and> grows P C c c'"
  using store_ok [OF assms(1,2) trie_wire [OF assms(1,3,4)]] trie_grows [OF assms(3)]
  by (auto simp: trie_root_def)

lemma TriePut_correct:
  assumes "trie_prims_ok P good" and "root_map P dflt C c root m" and m: "map_good good m" "good k" "hash_good v"
    and put: "TriePut P dflt C root k v c = (Inr h, c')"
  shows "trie_root P dflt C c' h (m(k \<mapsto> v)) \<and> grows P C c c'"
proof -
  obtain n c1 where n: "putAtNode P dflt C (loadOrEmpty P C c root) (HashKey P k) 0 k v c = (Inr n, c1)"
    and st: "StoreTrieNode P dflt C n c1 = (Inr h, c')"
    using put by (auto simp: TriePut_def split: prod.splits sum.splits)
  have 1: "grows P C c c1 \<and> holds c1 MaxLevel n (m(k \<mapsto> v))"
    using put_correctD [OF put_correct_all loadOrEmpty_root m] assms(1,2) n by simp
  with store_root [OF assms(1) st _ map_good_upd [OF m]] show ?thesis
    by (blast intro: grows_trans)
qed

text \<open>Removal always ends within \<open>MaxLevel\<close> levels.\<close>

lemma TrieRemove_correct:
  assumes prims: "trie_prims_ok P good" and root: "root_map P dflt C c root m" and m: "map_good good m"
    and fuel: "MaxLevel \<le> fuel"
  obtains x c' where "TrieRemove fuel P dflt C root k c = Some (x, c')"
    and "\<And>h. x = Inr h \<Longrightarrow> root_map P dflt C c' h (m(k := None)) \<and> grows P C c c' \<and>
      (h = zero_hash \<longleftrightarrow> root = zero_hash) \<and> (k \<notin> dom m \<longrightarrow> h = root)"
proof (cases "root = zero_hash")
  case True
  then show ?thesis
    using root that [of "Inr root" c] by (auto simp: TrieRemove_def IsZero_def root_map_def trie_root_def)
next
  case False
  then obtain n where n: "LoadTrieNode P C root c = Some n" "holds c MaxLevel n m" "trie_root P dflt C c root m"
    using root by (auto simp: root_map_def trie_root_def)
  have "remove_result MaxLevel n m k c (removeAtNode fuel P dflt C n (HashKey P k) 0 k c)"
    using removeAtNode_correct [OF prims n(2) m fuel] by simp
  then obtain x c1 where x: "removeAtNode fuel P dflt C n (HashKey P k) 0 k c = Some (x, c1)"
    and res: "remove_result MaxLevel n m k c (Some (x, c1))"
    by (cases "removeAtNode fuel P dflt C n (HashKey P k) 0 k c") (auto simp: remove_result_def)
  note run = TrieRemove_def [of fuel P dflt C root k c, unfolded IsZero_def n(1) option.case x prod.case]
  consider (err) err where "x = Inl err" | (kept) n' where "x = Inr (n', False)"
    | (removed) n' where "x = Inr (n', True)"
    by (metis (full_types) obj_sumE surj_pair)
  then show ?thesis
  proof cases
    case err
    then show ?thesis using that [of "Inl err" c1] False run by simp
  next
    case kept
    then have "k \<notin> dom m" "grows P C c c1" using res by (simp_all add: remove_result_def)
    moreover from this have "m(k := None) = m" by (auto simp: fun_eq_iff)
    ultimately show ?thesis
      using that [of "Inr root" c1] kept False run trie_root_grows [OF n(3)] by (simp add: root_map_def)
  next
    case (removed n')
    then have k: "k \<in> dom m" "grows P C c c1" "holds c1 MaxLevel n' (m(k := None))"
      using res by (simp_all add: remove_result_def)
    obtain z c2 where z: "StoreTrieNode P dflt C n' c1 = (z, c2)" by (cases "StoreTrieNode P dflt C n' c1")
    have "root_map P dflt C c2 h (m(k := None)) \<and> grows P C c c2 \<and> h \<noteq> zero_hash" if "z = Inr h" for h
      using store_root [OF prims z [unfolded that] k(3) map_good_del [OF m]] k grows_trans
      by (auto simp: root_map_def trie_root_def)
    then show ?thesis using that [of z c2] removed False run z k(1) by simp
  qed
qed

lemma put_bindings_correct:
  assumes "trie_prims_ok P good"
  shows "trie_root P dflt C c root m \<Longrightarrow> map_good good m \<Longrightarrow> (\<And>k v. (k, v) \<in> set bs \<Longrightarrow> good k \<and> hash_good v) \<Longrightarrow>
    put_bindings P dflt C root bs c = (Inr h, c') \<Longrightarrow>
    trie_root P dflt C c' h (m ++ map_of (rev bs)) \<and> grows P C c c'"
proof (induction bs arbitrary: root m c)
  case (Cons b bs)
  obtain k v where b: "b = (k, v)" by (cases b)
  obtain root1 c1 where p1: "TriePut P dflt C root k v c = (Inr root1, c1)"
    and p2: "put_bindings P dflt C root1 bs c1 = (Inr h, c')"
    using Cons.prems(4) by (auto simp: b split: prod.splits sum.splits)
  have kv: "good k" "hash_good v" using Cons.prems(3) b by auto
  have 1: "trie_root P dflt C c1 root1 (m(k \<mapsto> v)) \<and> grows P C c c1"
    using TriePut_correct [OF assms _ Cons.prems(2) kv p1] Cons.prems(1) by (simp add: root_map_def)
  have "trie_root P dflt C c' h (m(k \<mapsto> v) ++ map_of (rev bs)) \<and> grows P C c1 c'"
    using Cons.prems(3) by (intro Cons.IH [OF conjunct1 [OF 1] map_good_upd [OF Cons.prems(2) kv] _ p2]) auto
  moreover have "m(k \<mapsto> v) ++ map_of (rev bs) = m ++ map_of (rev (b # bs))"
    by (simp add: b map_of_append)
  ultimately show ?case using 1 grows_trans by metis
qed simp

lemma BuildTrie_correct:
  assumes prims: "trie_prims_ok P good" and "\<And>k v. (k, v) \<in> set bs \<Longrightarrow> good k \<and> hash_good v"
    and "BuildTrie P dflt C bs c = (Inr h, c')"
  shows "trie_root P dflt C c' h (map_of (rev bs)) \<and> grows P C c c'"
proof -
  obtain root c1 where st: "StoreTrieNode P dflt C EmptyNode c = (Inr root, c1)"
    and pb: "put_bindings P dflt C root bs c1 = (Inr h, c')"
    using assms(3) by (auto simp: BuildTrie_def split: prod.splits sum.splits)
  have "trie_root P dflt C c1 root Map.empty \<and> grows P C c c1"
    by (rule store_root [OF prims st Empty_root]) (simp add: map_good_def)
  then show ?thesis
    using put_bindings_correct [OF prims _ _ assms(2) pb, of Map.empty] grows_trans by (auto simp: map_good_def)
qed

end

text \<open>The walk needs no law of the store: a root that stands for \<open>m\<close> yields \<open>m\<close>.\<close>

lemma CollectAllBindings_correct:
  assumes "trie_root P dflt C c h m" and "MaxLevel \<le> fuel + 1"
  obtains out where "CollectAllBindings fuel P C c h '''' = Some out" "gm_get out = m"
proof -
  obtain n where n: "LoadTrieNode P C h c = Some n" "trie P dflt C c MaxLevel n m"
    using assms(1) by (auto simp: trie_root_def)
  obtain ts where ts: "collectSubtreeTuples fuel P C c (node_Data n) = Some ts" "tuples_of ts m"
    using collect_trie [OF n(2) assms(2)] by blast
  have "fold upd_tuple ts Map.empty = m"
    using ts(2) fold_upd_bucket [of ts Map.empty] by (simp add: tuples_of_def)
  then show ?thesis
    using that n ts(1) fold_gm_set [of ts "[]", unfolded gm_get_empty]
    by (simp add: CollectAllBindings_def collectBindings_collect joinKey_def)
qed

lemma gm_wf_fold: "gm_wf m \<Longrightarrow> gm_wf (fold (\<lambda>t out. gm_set out (f t) (g t)) ts m)"
  by (induction ts arbitrary: m) simp_all

lemma collectBindings_wf: "collectBindings fuel P C cs es pre out = Some out' \<Longrightarrow> gm_wf out \<Longrightarrow> gm_wf out'"
  by (induction fuel P C cs es pre out arbitrary: out' rule: collectBindings.induct)
     (auto split: option.splits simp: gm_wf_fold)

lemma CollectAllBindings_wf: "CollectAllBindings fuel P C cs h pre = Some m \<Longrightarrow> gm_wf m"
  by (auto simp: CollectAllBindings_def gm_wf_def [of "[]"] split: option.splits dest: collectBindings_wf)

end
