(* ===== verification/Trie_Refinement.thy ===== *)
theory Trie_Refinement
  imports Trie_Ops
begin

text \<open>
  The snapshot trie over the content store of the code. \<open>guarded C\<close> refuses the puts that would
  lose data; a run that succeeds there is a run of \<open>C\<close> with the same result, so the refinement of
  \<open>Trie_Ops\<close> holds of every run of the code without a hash collision. The properties are stated
  for the in-memory content store.
\<close>

section \<open>The guarded store\<close>

definition collides :: "'c ContentStore \<Rightarrow> entity \<Rightarrow> hash \<Rightarrow> 'c \<Rightarrow> bool" where
  "collides C e h c \<longleftrightarrow>
     h = zero_hash \<or> (case cs_Get C h c of None \<Rightarrow> False | Some e' \<Rightarrow> Type e' \<noteq> Type e \<or> Data e' \<noteq> Data e)"

definition guarded :: "'c ContentStore \<Rightarrow> 'c ContentStore" where
  "guarded C = C\<lparr>cs_Put := \<lambda>e c.
     (case cs_Put C e c of
        (Inl err, c') \<Rightarrow> (Inl err, c')
      | (Inr h, c') \<Rightarrow> if collides C e h c then (Inl [], c) else (Inr h, c'))\<rparr>"

lemma guarded_Get [simp]: "cs_Get (guarded C) = cs_Get C"
  by (simp add: guarded_def)

lemma guarded_Put:
  "cs_Put (guarded C) e c = (Inr h, c') \<longleftrightarrow> cs_Put C e c = (Inr h, c') \<and> \<not> collides C e h c"
  by (auto simp: guarded_def split: prod.splits sum.splits if_splits)

lemma guarded_Load [simp]: "LoadTrieNode P (guarded C) = LoadTrieNode P C"
  by (simp add: LoadTrieNode_def fun_eq_iff)

text \<open>The law holds of the guarded in-memory store.\<close>

interpretation tmem: trie_store P dflt "guarded (MemoryContentStore_iface P)" for P dflt
proof unfold_locales
  fix e c h c'
  assume put: "cs_Put (guarded (MemoryContentStore_iface P)) e c = (Inr h, c')"
  then have "mcs_Put P e c = (Inr h, c')" and col: "\<not> collides (MemoryContentStore_iface P) e h c"
    by (simp_all add: guarded_Put MemoryContentStore_iface_def)
  then have cf: "ComputeFormat P (Algorithm (ContentHash e)) (Type e) (Data e) = Inr h"
    and c': "c' = c\<lparr>entities := gm_set (entities c) h (e\<lparr>ContentHash := h\<rparr>)\<rparr>"
    by (simp_all add: mcs_Put_Inr)
  have same: "Type e2 = Type e \<and> Data e2 = Data e" if "mcs_Get h c = Some e2" for e2
    using col that by (simp add: collides_def MemoryContentStore_iface_def)
  show "h \<noteq> zero_hash \<and>
    ComputeFormat P (Algorithm (ContentHash e)) (Type e) (Data e) = Inr h \<and>
    (\<exists>e'. cs_Get (guarded (MemoryContentStore_iface P)) h c' = Some e' \<and> Data e' = Data e) \<and>
    (\<forall>h2 e2. cs_Get (guarded (MemoryContentStore_iface P)) h2 c = Some e2 \<longrightarrow>
      (\<exists>e3. cs_Get (guarded (MemoryContentStore_iface P)) h2 c' = Some e3 \<and> Type e3 = Type e2 \<and> Data e3 = Data e2))"
  proof (intro conjI allI impI)
    show "h \<noteq> zero_hash" using col by (simp add: collides_def)
    show "ComputeFormat P (Algorithm (ContentHash e)) (Type e) (Data e) = Inr h" by (rule cf)
    show "\<exists>e'. cs_Get (guarded (MemoryContentStore_iface P)) h c' = Some e' \<and> Data e' = Data e"
      by (simp add: c' MemoryContentStore_iface_def mcs_Get_def)
    show "\<exists>e3. cs_Get (guarded (MemoryContentStore_iface P)) h2 c' = Some e3 \<and> Type e3 = Type e2 \<and> Data e3 = Data e2"
      if "cs_Get (guarded (MemoryContentStore_iface P)) h2 c = Some e2" for h2 e2
      using that same by (cases "h2 = h") (simp_all add: c' MemoryContentStore_iface_def mcs_Get_def)
  qed
qed

section \<open>Guarded runs are runs\<close>

lemma guarded_Store:
  "StoreTrieNode P dflt (guarded C) n c = (Inr h, c') \<Longrightarrow> StoreTrieNode P dflt C n c = (Inr h, c')"
  by (auto simp: StoreTrieNode_def guarded_Put split: sum.splits)

lemma guarded_collect [simp]:
  "collectSubtreeTuples fuel P (guarded C) c es = collectSubtreeTuples fuel P C c es"
  by (induction fuel P C c es rule: collectSubtreeTuples.induct) (auto split: option.splits)

lemma guarded_collapsed [simp]: "collapsedChild fuel P (guarded C) c n = collapsedChild fuel P C c n"
  by (simp add: collapsedChild_def BranchSize_collect CollectSubtreeTuples_def split: option.split)

lemma guarded_trie [simp]: "trie P dflt (guarded C) c r n m = trie P dflt C c r n m"
proof (induction r arbitrary: n m)
  case (Suc r)
  then have "entry_holds P dflt (guarded C) c r e m' = entry_holds P dflt C c r e m'" for e m'
    by (auto simp: entry_holds_def split: option.splits NodeEntry.splits)
  then show ?case by (simp add: trie_Suc)
qed simp

lemma guarded_root [simp]:
  "trie_root P dflt (guarded C) = trie_root P dflt C" "root_map P dflt (guarded C) = root_map P dflt C"
  "grows P (guarded C) = grows P C" "loadOrEmpty P (guarded C) = loadOrEmpty P C"
  by (simp_all add: trie_root_def root_map_def grows_def loadOrEmpty_def fun_eq_iff)

lemma guarded_put:
  "(putAtNode P dflt (guarded C) n h l k v c = (Inr n', c') \<longrightarrow> putAtNode P dflt C n h l k v c = (Inr n', c')) \<and>
   (put_tuples P dflt (guarded C) n l ts c = (Inr n', c') \<longrightarrow> put_tuples P dflt C n l ts c = (Inr n', c'))"
proof (induction "MaxLevel - l" arbitrary: l n h k v c c' n' ts rule: less_induct)
  case less
  have node: "putAtNode P dflt C n h l k v c = (Inr n', c')"
    if put: "putAtNode P dflt (guarded C) n h l k v c = (Inr n', c')" for n h k v c n' c'
  proof (cases "MaxLevel \<le> l")
    case True
    then show ?thesis using put by (simp add: putAtNode_deep)
  next
    case False
    then have IH:
      "putAtNode P dflt (guarded C) a h (l + 1) k v c = (Inr b, d) \<Longrightarrow> putAtNode P dflt C a h (l + 1) k v c = (Inr b, d)"
      "put_tuples P dflt (guarded C) a (l + 1) ts c = (Inr b, d) \<Longrightarrow> put_tuples P dflt C a (l + 1) ts c = (Inr b, d)"
      for a h k v c b d ts
      using less [of "l + 1"] by auto
    show ?thesis
      using put unfolding putAtNode.simps [of P dflt _ n h l k v c] Let_def
      by (auto split: if_splits NodeEntry.splits option.splits prod.splits sum.splits
          dest!: IH [unfolded Suc_eq_plus1 [symmetric]] guarded_Store)
  qed
  have "put_tuples P dflt (guarded C) n l ts c = (Inr n', c') \<Longrightarrow> put_tuples P dflt C n l ts c = (Inr n', c')" for n c
    by (induction ts arbitrary: n c) (auto split: prod.splits sum.splits dest!: node)
  with node show ?case by blast
qed

lemma guarded_remove:
  "removeAtNode fuel P dflt (guarded C) n h l k c = Some (Inr x, c') \<Longrightarrow>
   removeAtNode fuel P dflt C n h l k c = Some (Inr x, c')"
proof (induction fuel arbitrary: n l c x c')
  case (Suc fuel)
  from Suc.prems show ?case
    unfolding removeAtNode.simps(2) Let_def
    by (auto split: if_splits NodeEntry.splits option.splits prod.splits sum.splits
        dest!: Suc.IH guarded_Store)
qed (simp add: removeAtNode.simps)

lemma guarded_TriePut:
  "TriePut P dflt (guarded C) root k v c = (Inr h, c') \<Longrightarrow> TriePut P dflt C root k v c = (Inr h, c')"
  by (auto simp: TriePut_def split: prod.splits sum.splits
      dest!: conjunct1 [OF guarded_put, THEN mp] guarded_Store)

lemma guarded_TrieRemove:
  "TrieRemove fuel P dflt (guarded C) root k c = Some (Inr h, c') \<Longrightarrow>
   TrieRemove fuel P dflt C root k c = Some (Inr h, c')"
  by (auto simp: TrieRemove_def split: prod.splits sum.splits option.splits if_splits
      dest!: guarded_remove guarded_Store)

lemma guarded_put_bindings:
  "put_bindings P dflt (guarded C) root bs c = (Inr h, c') \<Longrightarrow> put_bindings P dflt C root bs c = (Inr h, c')"
  by (induction P dflt C root bs c arbitrary: h c' rule: put_bindings.induct)
    (auto split: prod.splits sum.splits dest!: guarded_TriePut)

lemma guarded_BuildTrie:
  "BuildTrie P dflt (guarded C) bs c = (Inr h, c') \<Longrightarrow> BuildTrie P dflt C bs c = (Inr h, c')"
  by (auto simp: BuildTrie_def split: prod.splits sum.splits dest!: guarded_put_bindings guarded_Store)


end
