(* ===== verification/Trie_Demo.thy ===== *)
theory Trie_Demo
  imports Trie_Refinement Cap_Soundness
begin

text \<open>
  A concrete codec for the witnesses. It encodes the empty node, the nodes with one bucket, and the
  two nodes of the trie of the keys \<^verbatim>\<open>a\<close> to \<^verbatim>\<open>d\<close>, and refuses every other node. The digests are
  those of \<open>demo_hash_prims\<close>. The four keys share a position of the root, so that the fourth splits
  the bucket.
\<close>

definition demo_v :: "char \<Rightarrow> hash" where
  "demo_v k = \<lparr>Algorithm = 0, Digest = replicate 32 (of_char k) @ replicate 32 0\<rparr>"

definition demo_tuples :: "string \<Rightarrow> BucketTuple list" where
  "demo_tuples ks = map (\<lambda>k. \<lparr>Key = [k], ValueHash = demo_v k\<rparr>) ks"

definition demo_flat :: "string \<Rightarrow> SnapshotNodeData" where
  "demo_flat ks = \<lparr>node_Map = [0, 0, 16, 0], node_Data = [Bucket (demo_tuples ks)]\<rparr>"

definition demo_node_hash :: "bytes \<Rightarrow> hash" where
  "demo_node_hash raw = \<lparr>Algorithm = 0,
     Digest = demo_pad 32 (map of_char TypeTreeSnapshotNode @ raw) @ replicate 32 0\<rparr>"

definition demo_sub :: SnapshotNodeData where
  "demo_sub = \<lparr>node_Map = [0, 1, 17, 16], node_Data = map (\<lambda>k. Bucket (demo_tuples [k])) ''abcd''\<rparr>"

definition demo_link :: SnapshotNodeData where
  "demo_link = \<lparr>node_Map = [0, 0, 16, 0], node_Data = [Link (demo_node_hash [1, 1, 1, 1])]\<rparr>"

fun demo_keys :: "NodeEntry list \<Rightarrow> string" where
  "demo_keys [Bucket b] = map (\<lambda>t. hd (Key t)) b"
| "demo_keys _ = []"

definition demo_encode :: "SnapshotNodeData \<Rightarrow> bytes result" where
  "demo_encode n =
     (let ks = demo_keys (node_Data n) in
      if n = EmptyNode then Inr [1]
      else if n = demo_sub then Inr [1, 1, 1, 1]
      else if n = demo_link then Inr [1, 1, 1, 1, 1]
      else if n = demo_flat ks \<and> set ks \<subseteq> set ''abcd'' \<and> ks \<noteq> [] \<and> length ks \<le> 3
      then Inr (map of_char ks) else Inl [])"

definition demo_char :: "byte \<Rightarrow> char" where
  "demo_char b = (if b = 97 then CHR ''a'' else if b = 98 then CHR ''b'' else if b = 99 then CHR ''c'' else CHR ''d'')"

definition demo_decode :: "bytes \<Rightarrow> SnapshotNodeData result" where
  "demo_decode raw =
     (if raw = [1] then Inr EmptyNode
      else if raw = [1, 1, 1, 1] then Inr demo_sub
      else if raw = [1, 1, 1, 1, 1] then Inr demo_link
      else Inr (demo_flat (map demo_char raw)))"

definition demo_trie_prims :: trie_prims where
  "demo_trie_prims = cap_prims.extend demo_cap_prims (trie_prims.fields demo_encode demo_decode)"

lemma demo_trie_prims_sel [simp]:
  "sha256_Sum256 demo_trie_prims = demo_pad 32" "sha512_Sum384 demo_trie_prims = demo_pad 48"
  "ecf_EncodeHashable demo_trie_prims = (\<lambda>t d. Inr (map of_char t @ d))"
  "ecf_EncodeNode demo_trie_prims = demo_encode" "ecf_DecodeNode demo_trie_prims = demo_decode"
  by (simp_all add: demo_trie_prims_def demo_cap_prims_def cap_prims.defs trie_prims.defs)

definition demo_good :: "string \<Rightarrow> bool" where
  "demo_good k \<longleftrightarrow> length k = 1"

definition demo_bindings :: "string \<Rightarrow> Binding list" where
  "demo_bindings ks = map (\<lambda>k. ([k], demo_v k)) ks"

abbreviation demo_store :: "MemoryContentStore ContentStore" where
  "demo_store \<equiv> MemoryContentStore_iface demo_trie_prims"

section \<open>The codec\<close>

lemma demo_char: "k \<in> set ''abcd'' \<Longrightarrow> demo_char (of_char k) = k \<and> of_char k \<noteq> (1 :: byte) \<and> of_char k \<noteq> (0 :: byte)"
  by (auto simp: demo_char_def)

lemma demo_codec: "demo_encode n = Inr raw \<Longrightarrow> demo_decode raw = Inr n"
proof -
  assume enc: "demo_encode n = Inr raw"
  consider "n = EmptyNode" "raw = [1]" | "n = demo_sub" "raw = [1, 1, 1, 1]" | "n = demo_link" "raw = [1, 1, 1, 1, 1]"
    | ks where "n = demo_flat ks" "raw = map of_char ks" "set ks \<subseteq> set ''abcd''" "ks \<noteq> []"
    using enc by (auto simp: demo_encode_def Let_def split: if_splits)
  then show ?thesis
  proof cases
    case (4 ks)
    then have "map demo_char raw = ks"
      by (simp add: map_idI demo_char subset_eq)
    moreover have "hd raw \<noteq> 1" using 4 demo_char [of "hd ks"] by (cases ks) auto
    ultimately show ?thesis using 4(1) by (auto simp: demo_decode_def)
  qed (simp_all add: demo_decode_def)
qed

lemma demo_trie_prims_ok: "trie_prims_ok demo_trie_prims demo_good"
  using demo_codec
  by (simp add: trie_prims_ok_def node_codec_def digest_sizes_def demo_pad_def min_def)

section \<open>The store\<close>

text \<open>A store that holds the nodes of the given encodings.\<close>

definition demo_node_entity :: "bytes \<Rightarrow> entity" where
  "demo_node_entity raw = \<lparr>Type = TypeTreeSnapshotNode, Data = raw, ContentHash = demo_node_hash raw\<rparr>"

definition demo_content :: "bytes list \<Rightarrow> MemoryContentStore" where
  "demo_content raws = \<lparr>entities = map (\<lambda>raw. (demo_node_hash raw, demo_node_entity raw)) raws\<rparr>"

definition demo_raw :: "bytes \<Rightarrow> bool" where
  "demo_raw raw \<longleftrightarrow> raw \<noteq> [] \<and> length raw \<le> 7 \<and> 0 \<notin> set raw"

lemma demo_pad_inj:
  "length a \<le> 7 \<Longrightarrow> length b \<le> 7 \<Longrightarrow> 0 \<notin> set a \<Longrightarrow> 0 \<notin> set b \<Longrightarrow>
   a @ replicate (7 - length a) (0::byte) = b @ replicate (7 - length b) 0 \<longleftrightarrow> a = b"
proof -
  assume z: "0 \<notin> set a" "0 \<notin> set b"
  have "filter (\<lambda>x. x \<noteq> 0) (a @ replicate i (0::byte)) = a" if "0 \<notin> set a" for a i
    using that by (simp add: filter_id_conv) metis
  then show ?thesis using z by metis
qed

lemma demo_node_hash_inj [simp]:
  assumes "demo_raw a" "demo_raw b"
  shows "demo_node_hash a = demo_node_hash b \<longleftrightarrow> a = b"
proof -
  have "demo_pad 32 (map of_char TypeTreeSnapshotNode @ raw) =
      map of_char TypeTreeSnapshotNode @ raw @ replicate (7 - length raw) 0" if "demo_raw raw" for raw
    using that by (simp add: demo_pad_def demo_raw_def TypeTreeSnapshotNode_def)
  with assms show ?thesis
    using demo_pad_inj [of a b] by (simp add: demo_node_hash_def demo_raw_def)
qed

lemma demo_node_hash_nonzero [simp]: "demo_node_hash raw \<noteq> zero_hash"
proof -
  have "hd (Digest (demo_node_hash raw)) = 115" "hd (Digest zero_hash) = 0"
    by (simp_all add: demo_node_hash_def zero_hash_def zero_digest_def demo_pad_def TypeTreeSnapshotNode_def)
  then show ?thesis by auto
qed

lemma demo_NewEntity: "raw \<noteq> [] \<Longrightarrow> NewEntity demo_trie_prims 0 TypeTreeSnapshotNode raw = Inr (demo_node_entity raw)"
  by (auto simp: NewEntity_def NewEntityFormat_def ComputeFormat_def OfBytes_def
      demo_node_entity_def demo_node_hash_def demo_pad_def copy_into_def zero_digest_def
      TypeTreeSnapshotNode_def typeFloorPinned_def min_def)

lemma demo_Compute:
  "ComputeFormat demo_trie_prims (Algorithm (demo_node_hash raw)) TypeTreeSnapshotNode raw = Inr (demo_node_hash raw)"
  by (auto simp: ComputeFormat_def OfBytes_def
      demo_node_hash_def demo_pad_def copy_into_def zero_digest_def TypeTreeSnapshotNode_def min_def)

lemma demo_get:
  assumes "demo_raw raw" "list_all demo_raw raws"
  shows "gm_get (entities (demo_content raws)) (demo_node_hash raw) =
    (if raw \<in> set raws then Some (demo_node_entity raw) else None)"
  using assms by (induction raws) (auto simp: demo_content_def gm_get_def)

lemma demo_set:
  assumes "demo_raw raw" "list_all demo_raw raws"
  shows "(demo_content raws)\<lparr>entities := gm_set (entities (demo_content raws)) (demo_node_hash raw) (demo_node_entity raw)\<rparr> =
    demo_content (if raw \<in> set raws then raws else raws @ [raw])"
  using assms by (induction raws) (auto simp: demo_content_def gm_set_def split: if_splits)

lemma demo_Store:
  assumes "demo_encode n = Inr raw" "demo_raw raw" "list_all demo_raw raws"
  shows "StoreTrieNode demo_trie_prims 0 (guarded demo_store) n (demo_content raws) =
    (Inr (demo_node_hash raw), demo_content (if raw \<in> set raws then raws else raws @ [raw]))"
proof -
  have "mcs_Put demo_trie_prims (demo_node_entity raw) (demo_content raws) =
      (Inr (demo_node_hash raw), demo_content (if raw \<in> set raws then raws else raws @ [raw]))"
    unfolding mcs_Put_Inr using demo_set [OF assms(2,3)] demo_Compute by (simp add: demo_node_entity_def)
  moreover have "\<not> collides demo_store (demo_node_entity raw) (demo_node_hash raw) (demo_content raws)"
    using demo_get [OF assms(2,3)] by (simp add: collides_def MemoryContentStore_iface_def mcs_Get_def)
  ultimately have "cs_Put (guarded demo_store) (demo_node_entity raw) (demo_content raws) =
      (Inr (demo_node_hash raw), demo_content (if raw \<in> set raws then raws else raws @ [raw]))"
    by (simp add: guarded_Put MemoryContentStore_iface_def)
  then show ?thesis
    using assms(1,2) by (simp add: StoreTrieNode_def demo_NewEntity demo_raw_def)
qed

lemma demo_Load:
  assumes "demo_raw raw" "list_all demo_raw raws" "raw \<in> set raws"
  shows "LoadTrieNode demo_trie_prims demo_store (demo_node_hash raw) (demo_content raws) =
    (case demo_decode raw of Inl _ \<Rightarrow> None | Inr n \<Rightarrow> Some n)"
  using demo_get [OF assms(1,2)] assms(3)
  by (simp add: LoadTrieNode_def MemoryContentStore_iface_def mcs_Get_def demo_node_entity_def)

section \<open>Runs\<close>

lemma demo_slots:
  "slot demo_trie_prims ''a'' 0 = 12" "slot demo_trie_prims ''b'' 0 = 12"
  "slot demo_trie_prims ''c'' 0 = 12" "slot demo_trie_prims ''d'' 0 = 12"
  "slot demo_trie_prims ''a'' (Suc 0) = 4" "slot demo_trie_prims ''b'' (Suc 0) = 8"
  "slot demo_trie_prims ''c'' (Suc 0) = 12" "slot demo_trie_prims ''d'' (Suc 0) = 16"
  by code_simp+

lemma demo_encode_flat:
  "ks \<noteq> [] \<Longrightarrow> set ks \<subseteq> set ''abcd'' \<Longrightarrow> length ks \<le> 3 \<Longrightarrow> demo_encode (demo_flat ks) = Inr (map of_char ks)"
  by (auto simp: demo_encode_def Let_def demo_flat_def demo_sub_def demo_link_def EmptyNode_def demo_tuples_def o_def)

lemma demo_encodes:
  "demo_encode EmptyNode = Inr [1]" "demo_encode demo_sub = Inr [1, 1, 1, 1]"
  "demo_encode demo_link = Inr [1, 1, 1, 1, 1]"
  by (simp_all add: demo_encode_def Let_def demo_sub_def demo_link_def EmptyNode_def)

lemma demo_decodes:
  "demo_decode [1] = Inr EmptyNode" "demo_decode [1, 1, 1, 1] = Inr demo_sub"
  "demo_decode [1, 1, 1, 1, 1] = Inr demo_link"
  "demo_decode [97] = Inr (demo_flat ''a'')" "demo_decode [97, 98] = Inr (demo_flat ''ab'')"
  "demo_decode [97, 98, 99] = Inr (demo_flat ''abc'')"
  by (simp_all add: demo_decode_def demo_char_def)

lemma demo_raws:
  "demo_raw [1]" "demo_raw [1, 1, 1, 1]" "demo_raw [1, 1, 1, 1, 1]" "demo_raw [97]" "demo_raw [97, 98]"
  "demo_raw [97, 98, 99]"
  by (simp_all add: demo_raw_def)

lemma demo_buckets:
  "BucketInsert (demo_tuples ''a'') ''b'' (demo_v CHR ''b'') = demo_tuples ''ab''"
  "BucketInsert (demo_tuples ''ab'') ''c'' (demo_v CHR ''c'') = demo_tuples ''abc''"
  "BucketFind (demo_tuples ''abc'') ''d'' = None"
  by (simp_all add: BucketInsert_def BucketFind_def demo_tuples_def sort_Search_def search_loop.simps Let_def)

lemma demo_bits:
  "\<not> BitmapGet [0, 0, 0, 0] 12" "BitmapGet [0, 0, 16, 0] 12"
  "PopcountBelow [0, 0, 0, 0] 12 = 0" "PopcountBelow [0, 0, 16, 0] 12 = 0"
  "BitmapSet [0, 0, 0, 0] 12 = [0, 0, 16, 0]"
  by code_simp+

lemma demo_bits1:
  "\<not> BitmapGet [0, 0, 0, 0] 4" "\<not> BitmapGet [0, 0, 0, 16] 8" "\<not> BitmapGet [0, 0, 1, 16] 12"
  "\<not> BitmapGet [0, 0, 17, 16] 16"
  "PopcountBelow [0, 0, 0, 0] 4 = 0" "PopcountBelow [0, 0, 0, 16] 8 = 1" "PopcountBelow [0, 0, 1, 16] 12 = 2"
  "PopcountBelow [0, 0, 17, 16] 16 = 3"
  "BitmapSet [0, 0, 0, 0] 4 = [0, 0, 0, 16]" "BitmapSet [0, 0, 0, 16] 8 = [0, 0, 1, 16]"
  "BitmapSet [0, 0, 1, 16] 12 = [0, 0, 17, 16]" "BitmapSet [0, 0, 17, 16] 16 = [0, 1, 17, 16]"
  by code_simp+

lemmas demo_put = putAtNode.simps insertEntry_def replaceEntry_def demo_slots demo_bits MaxLevel_def BitmapBytes_def
  BucketSize_def demo_buckets

lemma EmptyNode_demo: "EmptyNode = \<lparr>node_Map = [0, 0, 0, 0], node_Data = []\<rparr>"
  by (simp add: EmptyNode_def BitmapBytes_def numeral_eq_Suc)

lemma demo_promote:
  "put_tuples demo_trie_prims 0 C EmptyNode (Suc 0) (demo_tuples ''abcd'') c = (Inr demo_sub, c)"
  by (simp add: demo_put demo_bits1 demo_tuples_def demo_sub_def EmptyNode_demo)

lemma demo_put_a: "putAtNode demo_trie_prims 0 C EmptyNode (HashKey demo_trie_prims ''a'') 0 ''a'' (demo_v CHR ''a'') c =
   (Inr (demo_flat ''a''), c)"
  by (simp add: demo_put EmptyNode_demo demo_flat_def demo_tuples_def)

lemma demo_put_b: "putAtNode demo_trie_prims 0 C (demo_flat ''a'') (HashKey demo_trie_prims ''b'') 0 ''b'' (demo_v CHR ''b'') c =
   (Inr (demo_flat ''ab''), c)"
  by (simp add: demo_put demo_flat_def) (simp add: demo_tuples_def)

lemma demo_put_c: "putAtNode demo_trie_prims 0 C (demo_flat ''ab'') (HashKey demo_trie_prims ''c'') 0 ''c'' (demo_v CHR ''c'') c =
   (Inr (demo_flat ''abc''), c)"
  by (simp add: demo_put demo_flat_def) (simp add: demo_tuples_def)

lemma demo_put_d: "putAtNode demo_trie_prims 0 (guarded demo_store) (demo_flat ''abc'') (HashKey demo_trie_prims ''d'') 0 ''d''
     (demo_v CHR ''d'') (demo_content [[1], [97], [97, 98], [97, 98, 99]]) =
   (Inr demo_link, demo_content [[1], [97], [97, 98], [97, 98, 99], [1, 1, 1, 1]])"
proof -
  have "demo_tuples ''abc'' @ [\<lparr>Key = ''d'', ValueHash = demo_v CHR ''d''\<rparr>] = demo_tuples ''abcd''"
    "length (demo_tuples ''abc'') = 3"
    by (simp_all add: demo_tuples_def)
  then show ?thesis
    by (simp add: demo_put demo_flat_def demo_promote demo_Store [OF demo_encodes(2)] demo_raws demo_link_def)
qed

lemma demo_Loads:
  assumes "list_all demo_raw raws" "demo_raw raw" "raw \<in> set raws" "demo_decode raw = Inr n" "node_ok n"
  shows "loadOrEmpty demo_trie_prims demo_store (demo_content raws) (demo_node_hash raw) = n"
  using assms demo_Load [of raw raws] by (simp add: loadOrEmpty_def IsZero_def node_ok_def BitmapBytes_def)

lemma demo_ok: "node_ok EmptyNode" "node_ok (demo_flat ks)" "node_ok demo_link"
  by (simp_all add: node_ok_def EmptyNode_demo demo_flat_def demo_link_def) code_simp+

lemmas demo_run = TriePut_def demo_Loads [OF _ _ _ demo_decodes(1)] demo_Loads [OF _ _ _ demo_decodes(4)]
  demo_Loads [OF _ _ _ demo_decodes(5)] demo_Loads [OF _ _ _ demo_decodes(6)] demo_raws demo_ok
  demo_put_a demo_put_b demo_put_c demo_put_d demo_Store [OF demo_encode_flat] demo_Store [OF demo_encodes(1)]
  demo_Store [OF demo_encodes(3)]

lemma demo_build:
  "BuildTrie demo_trie_prims 0 (guarded demo_store) (demo_bindings ''abcd'') (demo_content []) =
     (Inr (demo_node_hash [1, 1, 1, 1, 1]),
      demo_content [[1], [97], [97, 98], [97, 98, 99], [1, 1, 1, 1], [1, 1, 1, 1, 1]])"
  by (simp add: BuildTrie_def demo_bindings_def demo_run)

lemma demo_content_Nil: "demo_content [] = NewMemoryContentStore"
  by (simp add: demo_content_def NewMemoryContentStore_def)

lemma demo_build_abc:
  "BuildTrie demo_trie_prims 0 (guarded demo_store) (demo_bindings ''abc'') (demo_content []) =
     (Inr (demo_node_hash [97, 98, 99]), demo_content [[1], [97], [97, 98], [97, 98, 99]])"
  by (simp add: BuildTrie_def demo_bindings_def demo_run)

text \<open>Taking \<^verbatim>\<open>d\<close> out again collapses the sub-node.\<close>

definition demo_rest :: SnapshotNodeData where
  "demo_rest = \<lparr>node_Map = [0, 0, 17, 16], node_Data = map (\<lambda>k. Bucket (demo_tuples [k])) ''abc''\<rparr>"

lemma demo_bits2:
  "BitmapGet [0, 1, 17, 16] 16" "PopcountBelow [0, 1, 17, 16] 16 = 3" "BitmapClear [0, 1, 17, 16] 16 = [0, 0, 17, 16]"
  by code_simp+

lemma demo_remove_sub:
  "removeAtNode (Suc fuel) demo_trie_prims 0 C demo_sub (HashKey demo_trie_prims ''d'') (Suc 0) ''d'' c =
     Some (Inr (demo_rest, True), c)"
  by (simp add: removeAtNode.simps demo_sub_def demo_rest_def demo_slots demo_bits2 BitmapBytes_def removeEntryAt_def
      BucketRemove_def demo_tuples_def sort_Search_def search_loop.simps Let_def)

lemma demo_collapse: "collapsedChild fuel P C c demo_rest = Some (Some (demo_tuples ''abc''))"
  by (simp add: collapsedChild_def demo_rest_def BucketSize_def CollectSubtreeTuples_def demo_tuples_def)

definition demo_full :: MemoryContentStore where
  "demo_full = demo_content [[1], [97], [97, 98], [97, 98, 99], [1, 1, 1, 1], [1, 1, 1, 1, 1]]"

lemma demo_remove_link:
  "removeAtNode (Suc (Suc fuel)) demo_trie_prims 0 (guarded demo_store) demo_link (HashKey demo_trie_prims ''d'') 0 ''d'' demo_full =
      Some (Inr (demo_flat ''abc'', True), demo_full)"
proof -
  have "LoadTrieNode demo_trie_prims demo_store (demo_node_hash [1, 1, 1, 1]) demo_full = Some demo_sub"
    unfolding demo_full_def by (subst demo_Load) (simp_all add: demo_raws demo_decodes)
  then show ?thesis
    unfolding removeAtNode.simps(2) [of "Suc fuel"]
    by (simp add: demo_link_def demo_remove_sub demo_collapse demo_slots demo_bits BitmapBytes_def
        demo_flat_def demo_tuples_def replaceEntry_def)
qed

lemma demo_remove:
  "TrieRemove 51 demo_trie_prims 0 (guarded demo_store) (demo_node_hash [1, 1, 1, 1, 1]) ''d'' demo_full =
     Some (Inr (demo_node_hash [97, 98, 99]), demo_full)"
proof -
  have "removeAtNode 51 demo_trie_prims 0 (guarded demo_store) demo_link (HashKey demo_trie_prims ''d'') 0 ''d'' demo_full =
      Some (Inr (demo_flat ''abc'', True), demo_full)"
    using demo_remove_link [of 49] by simp
  moreover have "LoadTrieNode demo_trie_prims demo_store (demo_node_hash [1, 1, 1, 1, 1]) demo_full = Some demo_link"
    unfolding demo_full_def by (subst demo_Load) (simp_all add: demo_raws demo_decodes)
  moreover have "StoreTrieNode demo_trie_prims 0 (guarded demo_store) (demo_flat ''abc'') demo_full =
      (Inr (demo_node_hash [97, 98, 99]), demo_full)"
    unfolding demo_full_def by (subst demo_Store [OF demo_encode_flat]) (simp_all add: demo_raws)
  ultimately show ?thesis by (simp add: TrieRemove_def IsZero_def)
qed

lemma demo_good_bindings: "(k, v) \<in> set (demo_bindings ks) \<Longrightarrow> demo_good k \<and> hash_good v"
  by (auto simp: demo_bindings_def demo_good_def hash_good_def demo_v_def hash_wf_def allocated_cases)

lemma demo_put_aa: "putAtNode demo_trie_prims 0 C (demo_flat ''a'') (HashKey demo_trie_prims ''a'') 0 ''a'' (demo_v CHR ''a'') c =
   (Inr (demo_flat ''a''), c)"
proof -
  have "BucketInsert (demo_tuples ''a'') ''a'' (demo_v CHR ''a'') = demo_tuples ''a''"
    by (simp add: BucketInsert_def demo_tuples_def sort_Search_def search_loop.simps Let_def)
  moreover have "length (demo_tuples ''a'') < 3" by (simp add: demo_tuples_def)
  ultimately show ?thesis by (simp add: demo_put demo_flat_def)
qed

lemma demo_build_aabc:
  "BuildTrie demo_trie_prims 0 (guarded demo_store) (demo_bindings ''aabc'') (demo_content [[1], [97], [97, 98], [97, 98, 99]]) =
     (Inr (demo_node_hash [97, 98, 99]), demo_content [[1], [97], [97, 98], [97, 98, 99]])"
  by (simp add: BuildTrie_def demo_bindings_def demo_run demo_put_aa)

end
