(* ===== verification/Trie_Diff.thy ===== *)
theory Trie_Diff
  imports Trie_Ops
begin

text \<open>
  The difference of two snapshot tries (\<^verbatim>\<open>core/tree/trie_diff.go\<close>): a parallel walk by bitmap
  position with an early exit where the hashes agree. It is shown to compute the difference of the
  two maps the roots stand for.
\<close>

section \<open>The walk\<close>

record DiffChangeData =
  BaseHash :: hash
  TargetHash :: hash

text \<open>The three maps and the counter the walk fills.\<close>

record TrieDiffResult =
  added :: "(string, hash) gomap"
  removed :: "(string, hash) gomap"
  changed :: "(string, DiffChangeData) gomap"
  unchanged :: u64

definition empty_diff :: TrieDiffResult where
  "empty_diff = \<lparr>added = [], removed = [], changed = [], unchanged = 0\<rparr>"

definition put_tuple :: "BucketTuple \<Rightarrow> (string, hash) gomap \<Rightarrow> (string, hash) gomap" where
  "put_tuple t out = gm_set out (Key t) (ValueHash t)"

fun diffBuckets :: "BucketTuple list \<Rightarrow> BucketTuple list \<Rightarrow> TrieDiffResult \<Rightarrow> TrieDiffResult" where
  "diffBuckets (a # as) (b # bs) d =
     (if Key a < Key b then diffBuckets as (b # bs) (d\<lparr>removed := put_tuple a (removed d)\<rparr>)
      else if Key a > Key b then diffBuckets (a # as) bs (d\<lparr>added := put_tuple b (added d)\<rparr>)
      else if ValueHash a = ValueHash b then diffBuckets as bs (d\<lparr>unchanged := unchanged d + 1\<rparr>)
      else diffBuckets as bs
        (d\<lparr>changed := gm_set (changed d) (Key a) \<lparr>BaseHash = ValueHash a, TargetHash = ValueHash b\<rparr>\<rparr>))"
| "diffBuckets as [] d = d\<lparr>removed := fold put_tuple as (removed d)\<rparr>"
| "diffBuckets [] bs d = d\<lparr>added := fold put_tuple bs (added d)\<rparr>"

text \<open>The walks below a link need fuel, as in \<open>Trie_Node\<close>.\<close>

fun collectEntryAs ::
  "nat \<Rightarrow> 'p trie_prims_scheme \<Rightarrow> 'c ContentStore \<Rightarrow> 'c \<Rightarrow> NodeEntry \<Rightarrow> (string, hash) gomap \<Rightarrow>
     (string, hash) gomap option" where
  "collectEntryAs fuel P C cs (Bucket b) out = Some (fold put_tuple b out)"
| "collectEntryAs fuel P C cs (Link h) out =
     (case LoadTrieNode P C h cs of
        None \<Rightarrow> Some out
      | Some child \<Rightarrow> map_option (\<lambda>ts. fold put_tuple ts out) (CollectSubtreeTuples fuel P C cs child))"

definition countAllBindings ::
  "nat \<Rightarrow> 'p trie_prims_scheme \<Rightarrow> 'c ContentStore \<Rightarrow> 'c \<Rightarrow> hash \<Rightarrow> u64 option" where
  "countAllBindings fuel P C cs nodeHash =
     (case LoadTrieNode P C nodeHash cs of
        None \<Rightarrow> Some 0
      | Some node \<Rightarrow> map_option of_nat (BranchSize fuel P C cs (node_Data node)))"

text \<open>The loop over the set bits of \<^verbatim>\<open>combined\<close>, lowest first.\<close>

lemma TrailingZeros32_least:
  assumes "u \<noteq> 0"
  shows "TrailingZeros32 u < 32" "bit u (TrailingZeros32 u)" "\<And>i. i < TrailingZeros32 u \<Longrightarrow> \<not> bit u i"
proof -
  let ?n = "TrailingZeros32 u"
  from assms obtain i where i: "bit u i" by (auto simp: bit_eq_iff)
  then have "i < 32" using bit_imp_le_length [OF i] by simp
  with i have "i \<in> set [0..<32]" "bit u i" by simp_all
  then have ex: "\<exists>x \<in> set [0..<32]. \<not> \<not> bit u x" by blast
  then have "takeWhile (\<lambda>i. \<not> bit u i) [0..<32] \<noteq> [0..<32]" by (metis set_takeWhileD)
  then show lt: "?n < 32"
    unfolding TrailingZeros32_def
    by (metis length_upt diff_zero length_takeWhile_le nat_less_le takeWhile_eq_take take_all)
  then show "bit u ?n"
    using nth_length_takeWhile [of "\<lambda>i. \<not> bit u i" "[0..<32]"] by (simp add: TrailingZeros32_def)
  fix i assume "i < ?n"
  then show "\<not> bit u i"
    using lt takeWhile_nth [of i "\<lambda>i. \<not> bit u i" "[0..<32]"] nth_mem [of i "takeWhile (\<lambda>i. \<not> bit u i) [0..<32]"]
    by (auto simp: TrailingZeros32_def dest!: set_takeWhileD)
qed

lemma clear_lowest:
  assumes "u \<noteq> 0"
  shows "filter (bit u) [0..<32] =
    TrailingZeros32 u # filter (bit (u AND NOT (push_bit (TrailingZeros32 u) 1))) [0..<32]"
proof -
  let ?n = "TrailingZeros32 u"
  note least = TrailingZeros32_least [OF assms]
  have split: "[0..<32] = [0..<?n] @ ?n # [Suc ?n..<32]"
    using least(1) upt_add_eq_append [of 0 ?n "32 - ?n"] upt_conv_Cons [of ?n 32] by simp
  define v where "v = u AND NOT (push_bit ?n 1)"
  have bit: "bit v i \<longleftrightarrow> bit u i \<and> i \<noteq> ?n" if "i < 32" for i
    using that by (auto simp: v_def bit_simps)
  have lo: "filter (bit u) [0..<?n] = []" "filter (bit v) [0..<?n] = []"
    using least by (auto simp: filter_empty_conv bit)
  have "filter (bit u) [Suc ?n..<32] = filter (bit v) [Suc ?n..<32]"
    by (rule filter_cong) (auto simp: bit)
  then show ?thesis
    using lo least(1,2) bit [of ?n] unfolding split v_def [symmetric] by simp
qed

function diff_positions :: "u32 \<Rightarrow> nat list" where
  "diff_positions combined =
     (if combined = 0 then []
      else let p = TrailingZeros32 combined in p # diff_positions (combined AND NOT (push_bit p 1)))"
  by pat_completeness auto
termination
proof (relation "measure OnesCount32")
  fix u :: u32 and p
  assume "u \<noteq> 0" "p = TrailingZeros32 u"
  then show "(u AND NOT (push_bit p 1), u) \<in> measure OnesCount32"
    using clear_lowest [of u] by (simp add: OnesCount32_def)
qed simp

declare diff_positions.simps [simp del]

lemma diff_positions_filter: "diff_positions u = filter (bit u) [0..<32]"
proof (induction u rule: diff_positions.induct)
  case (1 u)
  then show ?case
    using clear_lowest [of u] by (auto simp: diff_positions.simps [of u] Let_def)
qed

text \<open>\<^verbatim>\<open>diffNodes\<close>, the body of its loop, and \<^verbatim>\<open>diffEntries\<close>.\<close>

function (sequential) diffNodes :: "nat \<Rightarrow> 'p trie_prims_scheme \<Rightarrow> 'c ContentStore \<Rightarrow> 'c \<Rightarrow> SnapshotNodeData \<Rightarrow> SnapshotNodeData \<Rightarrow>
    TrieDiffResult \<Rightarrow> TrieDiffResult result option"
and diff_loop :: "nat \<Rightarrow> 'p trie_prims_scheme \<Rightarrow> 'c ContentStore \<Rightarrow> 'c \<Rightarrow> SnapshotNodeData \<Rightarrow> SnapshotNodeData \<Rightarrow>
    nat list \<Rightarrow> TrieDiffResult \<Rightarrow> TrieDiffResult result option"
and diffEntries :: "nat \<Rightarrow> 'p trie_prims_scheme \<Rightarrow> 'c ContentStore \<Rightarrow> 'c \<Rightarrow> NodeEntry \<Rightarrow> NodeEntry \<Rightarrow>
    TrieDiffResult \<Rightarrow> TrieDiffResult result option"
where
  "diffNodes fuel P C cs a b d =
     (if length (node_Map a) < BitmapBytes \<or> length (node_Map b) < BitmapBytes then Some (Inl [Panic])
      else diff_loop fuel P C cs a b (diff_positions (BitmapU32 (node_Map a) OR BitmapU32 (node_Map b))) d)"
| "diff_loop fuel P C cs a b [] d = Some (Inr d)"
| "diff_loop fuel P C cs a b (p # ps) d =
     (let hasA = BitmapGet (node_Map a) p;
          hasB = BitmapGet (node_Map b) p;
          ia = PopcountBelow (node_Map a) p;
          ib = PopcountBelow (node_Map b) p
      in
      if hasA \<and> ia \<ge> length (node_Data a) \<or> hasB \<and> ib \<ge> length (node_Data b) then Some (Inl [Panic])
      else
        (case (if hasA \<and> \<not> hasB then
                 map_option (\<lambda>r. Inr (d\<lparr>removed := r\<rparr>)) (collectEntryAs fuel P C cs (node_Data a ! ia) (removed d))
               else if \<not> hasA \<and> hasB then
                 map_option (\<lambda>r. Inr (d\<lparr>added := r\<rparr>)) (collectEntryAs fuel P C cs (node_Data b ! ib) (added d))
               else diffEntries fuel P C cs (node_Data a ! ia) (node_Data b ! ib) d) of
           None \<Rightarrow> None
         | Some (Inl err) \<Rightarrow> Some (Inl err)
         | Some (Inr d') \<Rightarrow> diff_loop fuel P C cs a b ps d'))"
| "diffEntries fuel P C cs (Bucket bucketA) (Bucket bucketB) d = Some (Inr (diffBuckets bucketA bucketB d))"
| "diffEntries fuel P C cs (Link linkA) (Link linkB) d =
     (if linkA = linkB then
        map_option (\<lambda>n. Inr (d\<lparr>unchanged := unchanged d + n\<rparr>)) (countAllBindings fuel P C cs linkA)
      else
        (case (LoadTrieNode P C linkA cs, LoadTrieNode P C linkB cs) of
           (Some childA, Some childB) \<Rightarrow>
             (case fuel of 0 \<Rightarrow> None | Suc fuel' \<Rightarrow> diffNodes fuel' P C cs childA childB d)
         | _ \<Rightarrow> Some (Inr d)))"
| "diffEntries fuel P C cs (Bucket bucketA) (Link linkB) d =
     (case LoadTrieNode P C linkB cs of
        None \<Rightarrow> Some (Inr d)
      | Some child \<Rightarrow> map_option (\<lambda>ts. Inr (diffBuckets bucketA ts d)) (CollectSubtreeTuples fuel P C cs child))"
| "diffEntries fuel P C cs (Link linkA) (Bucket bucketB) d =
     (case LoadTrieNode P C linkA cs of
        None \<Rightarrow> Some (Inr d)
      | Some child \<Rightarrow> map_option (\<lambda>ts. Inr (diffBuckets ts bucketB d)) (CollectSubtreeTuples fuel P C cs child))"
  by pat_completeness auto
termination
  by (relation "measures [\<lambda>x. case x of
        Inl (fuel, _) \<Rightarrow> fuel | Inr (Inl (fuel, _)) \<Rightarrow> fuel | Inr (Inr (fuel, _)) \<Rightarrow> fuel,
      \<lambda>x. case x of Inl _ \<Rightarrow> 2 | Inr (Inl _) \<Rightarrow> 1 | Inr (Inr _) \<Rightarrow> (0 :: nat),
      \<lambda>x. case x of Inr (Inl (fuel, P, C, cs, a, b, ps, d)) \<Rightarrow> length ps | _ \<Rightarrow> 0]") auto

declare diffNodes.simps [simp del]

text \<open>A map range over \<^verbatim>\<open>CollectAllBindings\<close> that copies every binding.\<close>

definition copy_bindings :: "(string, hash) gomap \<Rightarrow> (string, hash) gomap" where
  "copy_bindings m = fold (\<lambda>(k, v) out. gm_set out k v) m []"

definition TrieDiff ::
  "nat \<Rightarrow> 'p trie_prims_scheme \<Rightarrow> 'c ContentStore \<Rightarrow> 'c \<Rightarrow> hash \<Rightarrow> hash \<Rightarrow> TrieDiffResult result option" where
  "TrieDiff fuel P C cs rootA rootB =
     (if rootA = rootB then
        map_option (\<lambda>n. Inr (empty_diff\<lparr>unchanged := n\<rparr>)) (countAllBindings fuel P C cs rootA)
      else
        (case (LoadTrieNode P C rootA cs, LoadTrieNode P C rootB cs) of
           (None, None) \<Rightarrow> Some (Inr empty_diff)
         | (None, Some _) \<Rightarrow>
             map_option (\<lambda>m. Inr (empty_diff\<lparr>added := copy_bindings m\<rparr>)) (CollectAllBindings fuel P C cs rootB '''')
         | (Some _, None) \<Rightarrow>
             map_option (\<lambda>m. Inr (empty_diff\<lparr>removed := copy_bindings m\<rparr>)) (CollectAllBindings fuel P C cs rootA '''')
         | (Some nodeA, Some nodeB) \<Rightarrow> diffNodes fuel P C cs nodeA nodeB empty_diff))"

section \<open>The difference of two maps\<close>

definition only_in :: "(string \<rightharpoonup> hash) \<Rightarrow> (string \<rightharpoonup> hash) \<Rightarrow> (string \<rightharpoonup> hash)" where
  "only_in m m' = (\<lambda>k. if m' k = None then m k else None)"

definition changes :: "(string \<rightharpoonup> hash) \<Rightarrow> (string \<rightharpoonup> hash) \<Rightarrow> (string \<rightharpoonup> DiffChangeData)" where
  "changes m m' = (\<lambda>k. case (m k, m' k) of
     (Some x, Some y) \<Rightarrow> if x = y then None else Some \<lparr>BaseHash = x, TargetHash = y\<rparr> | _ \<Rightarrow> None)"

definition same_keys :: "(string \<rightharpoonup> hash) \<Rightarrow> (string \<rightharpoonup> hash) \<Rightarrow> string set" where
  "same_keys m m' = {k \<in> dom m. m k = m' k}"

text \<open>\<open>d'\<close> is \<open>d\<close> with the difference from \<open>m\<close> to \<open>m'\<close> added.\<close>

definition diff_adds :: "(string \<rightharpoonup> hash) \<Rightarrow> (string \<rightharpoonup> hash) \<Rightarrow> TrieDiffResult \<Rightarrow> TrieDiffResult \<Rightarrow> bool" where
  "diff_adds m m' d d' \<longleftrightarrow>
     gm_get (added d') = gm_get (added d) ++ only_in m' m \<and>
     gm_get (removed d') = gm_get (removed d) ++ only_in m m' \<and>
     gm_get (changed d') = gm_get (changed d) ++ changes m m' \<and>
     unchanged d' = unchanged d + of_nat (card (same_keys m m'))"

lemmas diff_defs = diff_adds_def only_in_def changes_def same_keys_def

lemma diff_adds_empty [simp]: "diff_adds Map.empty Map.empty d d"
  by (simp add: diff_defs)

text \<open>Differences on disjoint sets of keys add up.\<close>

lemma diff_adds_disjoint:
  assumes "diff_adds a a' d d1" "diff_adds b b' d1 d2"
    and "(dom a \<union> dom a') \<inter> (dom b \<union> dom b') = {}" and "finite (dom a)" "finite (dom b)"
  shows "diff_adds (a ++ b) (a' ++ b') d d2"
proof -
  have ab: "a k = None \<and> a' k = None \<or> b k = None \<and> b' k = None" for k
    using assms(3) by (auto simp: dom_def)
  have "only_in (a ++ b) (a' ++ b') k = (only_in a a' ++ only_in b b') k"
    "only_in (a' ++ b') (a ++ b) k = (only_in a' a ++ only_in b' b) k"
    "changes (a ++ b) (a' ++ b') k = (changes a a' ++ changes b b') k" for k
    using ab [of k]
    by (cases "a k"; cases "a' k"; cases "b k"; cases "b' k"; simp add: only_in_def changes_def map_add_def)+
  then have "only_in (a ++ b) (a' ++ b') = only_in a a' ++ only_in b b'"
    "only_in (a' ++ b') (a ++ b) = only_in a' a ++ only_in b' b"
    "changes (a ++ b) (a' ++ b') = changes a a' ++ changes b b'"
    by (simp_all add: fun_eq_iff)
  moreover have "same_keys (a ++ b) (a' ++ b') = same_keys a a' \<union> same_keys b b'"
  proof (rule set_eqI)
    fix k
    show "k \<in> same_keys (a ++ b) (a' ++ b') \<longleftrightarrow> k \<in> same_keys a a' \<union> same_keys b b'"
      using ab [of k] by (cases "a k"; cases "a' k"; cases "b k"; cases "b' k") (auto simp: same_keys_def map_add_def domIff)
  qed
  moreover have "card (same_keys a a' \<union> same_keys b b') = card (same_keys a a') + card (same_keys b b')"
    using assms(3-5) by (intro card_Un_disjoint) (auto simp: same_keys_def)
  ultimately show ?thesis
    using assms(1,2) by (simp add: diff_adds_def map_add_assoc add.assoc)
qed

lemma put_tuples_get: "gm_get (fold put_tuple ts out) = fold upd_tuple ts (gm_get out)"
  using fold_gm_set [of ts out] by (simp add: put_tuple_def [abs_def])

lemma fold_tuples: "tuples_of ts m \<Longrightarrow> gm_get (fold put_tuple ts out) = gm_get out ++ m"
  using fold_upd_bucket [of ts "gm_get out"] by (simp add: put_tuples_get tuples_of_def)

lemma diff_one_sided:
  "only_in m Map.empty = m" "only_in Map.empty m = Map.empty" "changes m Map.empty = Map.empty"
  "changes Map.empty m = Map.empty" "same_keys m Map.empty = {}" "same_keys Map.empty m = {}"
  by (auto simp: only_in_def changes_def same_keys_def fun_eq_iff split: option.split)

lemma diff_adds_removed: "tuples_of ts m \<Longrightarrow> diff_adds m Map.empty d (d\<lparr>removed := fold put_tuple ts (removed d)\<rparr>)"
  by (simp add: diff_adds_def diff_one_sided fold_tuples)

lemma diff_adds_added: "tuples_of ts m \<Longrightarrow> diff_adds Map.empty m d (d\<lparr>added := fold put_tuple ts (added d)\<rparr>)"
  by (simp add: diff_adds_def diff_one_sided fold_tuples)

lemma bucket_map_Nil: "bucket_map [] = Map.empty"
  by (simp add: bucket_map_def)

lemma bucket_ok_Cons: "bucket_ok (t # b) \<longleftrightarrow> bucket_ok b \<and> (\<forall>s \<in> set b. Key t < Key s)"
  by (auto simp: bucket_ok_def)

lemma diff_same_key:
  assumes "a k = None" "a' k = None" "diff_adds a a' d1 d2"
    and "d1 = (if x = y then d\<lparr>unchanged := unchanged d + 1\<rparr>
               else d\<lparr>changed := gm_set (changed d) k \<lparr>BaseHash = x, TargetHash = y\<rparr>\<rparr>)" and "finite (dom a)"
  shows "diff_adds (a(k \<mapsto> x)) (a'(k \<mapsto> y)) d d2"
proof -
  have "diff_adds [k \<mapsto> x] [k \<mapsto> y] d d1"
  proof (cases "x = y")
    case True
    have "only_in [k \<mapsto> x] [k \<mapsto> x] = Map.empty" "changes [k \<mapsto> x] [k \<mapsto> x] = Map.empty" "same_keys [k \<mapsto> x] [k \<mapsto> x] = {k}"
      by (auto simp: only_in_def changes_def same_keys_def fun_eq_iff split: if_splits)
    with True assms(4) show ?thesis by (simp add: diff_adds_def)
  next
    case False
    then have "only_in [k \<mapsto> x] [k \<mapsto> y] = Map.empty" "only_in [k \<mapsto> y] [k \<mapsto> x] = Map.empty"
      "changes [k \<mapsto> x] [k \<mapsto> y] = [k \<mapsto> \<lparr>BaseHash = x, TargetHash = y\<rparr>]" "same_keys [k \<mapsto> x] [k \<mapsto> y] = {}"
      by (auto simp: only_in_def changes_def same_keys_def fun_eq_iff split: if_splits)
    with False assms(4) show ?thesis by (simp add: diff_adds_def gm_get_set_fun)
  qed
  from diff_adds_disjoint [OF this assms(3)] assms(1,2,5)
  have "diff_adds ([k \<mapsto> x] ++ a) ([k \<mapsto> y] ++ a') d d2" by auto
  moreover have "[k \<mapsto> x] ++ a = a(k \<mapsto> x)" "[k \<mapsto> y] ++ a' = a'(k \<mapsto> y)"
    using assms(1,2) by (auto simp: map_add_def fun_eq_iff split: option.split)
  ultimately show ?thesis by simp
qed

lemma diff_one_key:
  assumes "a (Key t) = None" "a' (Key t) = None" "finite (dom a)"
  shows "diff_adds a a' (d\<lparr>removed := put_tuple t (removed d)\<rparr>) d2 \<Longrightarrow> diff_adds (a(Key t \<mapsto> ValueHash t)) a' d d2"
    and "diff_adds a a' (d\<lparr>added := put_tuple t (added d)\<rparr>) d2 \<Longrightarrow> diff_adds a (a'(Key t \<mapsto> ValueHash t)) d d2"
proof -
  have t: "tuples_of [t] [Key t \<mapsto> ValueHash t]"
    by (simp add: tuples_of_def bucket_map_def)
  have eq: "[Key t \<mapsto> ValueHash t] ++ a = a(Key t \<mapsto> ValueHash t)"
    "[Key t \<mapsto> ValueHash t] ++ a' = a'(Key t \<mapsto> ValueHash t)"
    using assms(1,2) by (auto simp: map_add_def fun_eq_iff split: option.split)
  show "diff_adds a a' (d\<lparr>removed := put_tuple t (removed d)\<rparr>) d2 \<Longrightarrow> diff_adds (a(Key t \<mapsto> ValueHash t)) a' d d2"
    using diff_adds_disjoint [OF diff_adds_removed [OF t], of a a' d d2] assms eq by (simp add: domIff)
  show "diff_adds a a' (d\<lparr>added := put_tuple t (added d)\<rparr>) d2 \<Longrightarrow> diff_adds a (a'(Key t \<mapsto> ValueHash t)) d d2"
    using diff_adds_disjoint [OF diff_adds_added [OF t], of a a' d d2] assms eq by (simp add: domIff)
qed

lemma diffBuckets_spec:
  "bucket_ok as \<Longrightarrow> bucket_ok bs \<Longrightarrow> diff_adds (bucket_map as) (bucket_map bs) d (diffBuckets as bs d)"
proof (induction as bs d rule: diffBuckets.induct)
  case (1 a as b bs d)
  have none: "bucket_map as (Key a) = None" "bucket_map bs (Key b) = None"
    using 1(5,6) by (auto simp: bucket_map_None bucket_ok_Cons)
  have fin: "finite (dom (bucket_map as))" for as by (simp add: dom_bucket_map)
  consider "Key a < Key b" | "Key b < Key a" | "Key a = Key b" by (rule linorder_cases)
  then show ?case
  proof cases
    case 1
    then have "bucket_map (b # bs) (Key a) = None"
      using "1.prems"(2) by (auto simp: bucket_map_None bucket_ok_Cons)
    then have "diff_adds ((bucket_map as)(Key a \<mapsto> ValueHash a)) (bucket_map (b # bs)) d
        (diffBuckets as (b # bs) (d\<lparr>removed := put_tuple a (removed d)\<rparr>))"
      using "1.IH"(1) 1 "1.prems" none(1) fin by (intro diff_one_key(1)) (auto simp: bucket_ok_Cons)
    moreover have "diffBuckets (a # as) (b # bs) d = diffBuckets as (b # bs) (d\<lparr>removed := put_tuple a (removed d)\<rparr>)"
      using 1 by simp
    ultimately show ?thesis unfolding bucket_map_Cons [of a] by (simp only:)
  next
    case 2
    then have "bucket_map (a # as) (Key b) = None"
      using "1.prems"(1) by (auto simp: bucket_map_None bucket_ok_Cons)
    then have "diff_adds (bucket_map (a # as)) ((bucket_map bs)(Key b \<mapsto> ValueHash b)) d
        (diffBuckets (a # as) bs (d\<lparr>added := put_tuple b (added d)\<rparr>))"
      using "1.IH"(2) 2 "1.prems" none(2) fin by (intro diff_one_key(2)) (auto simp: bucket_ok_Cons)
    moreover have "diffBuckets (a # as) (b # bs) d = diffBuckets (a # as) bs (d\<lparr>added := put_tuple b (added d)\<rparr>)"
      using 2 by simp
    ultimately show ?thesis unfolding bucket_map_Cons [of b] by (simp only:)
  next
    case 3
    let ?d1 = "if ValueHash a = ValueHash b then d\<lparr>unchanged := unchanged d + 1\<rparr>
      else d\<lparr>changed := gm_set (changed d) (Key a) \<lparr>BaseHash = ValueHash a, TargetHash = ValueHash b\<rparr>\<rparr>"
    have "diff_adds (bucket_map as) (bucket_map bs) ?d1 (diffBuckets as bs ?d1)"
      using "1.IH"(3,4) "1.prems" 3 by (simp add: bucket_ok_Cons)
    from diff_same_key [OF none(1) _ this refl fin] none(2) 3
    have "diff_adds ((bucket_map as)(Key a \<mapsto> ValueHash a)) ((bucket_map bs)(Key b \<mapsto> ValueHash b)) d (diffBuckets as bs ?d1)"
      by (simp only:)
    moreover have "diffBuckets (a # as) (b # bs) d = diffBuckets as bs ?d1" using 3 by simp
    ultimately show ?thesis unfolding bucket_map_Cons by (simp only:)
  qed
next
  case (2 as d)
  then show ?case
    using diff_adds_removed [OF bucket_tuples, of as d] by (simp only: diffBuckets.simps bucket_map_Nil)
next
  case (3 b bs d)
  then show ?case
    using diff_adds_added [OF bucket_tuples, of "b # bs" d] by (simp only: diffBuckets.simps bucket_map_Nil)
qed

section \<open>The walk computes the difference\<close>

text \<open>What one position, as an entry or none, contributes.\<close>

lemma Collect_trie:
  assumes "trie P dflt C c r n m" and "r \<le> fuel + 1"
  obtains ts where "CollectSubtreeTuples fuel P C c n = Some ts" "bucket_ok ts" "bucket_map ts = m" "tuples_of ts m"
proof -
  obtain ts where ts: "collectSubtreeTuples fuel P C c (node_Data n) = Some ts" "tuples_of ts m"
    using collect_trie [OF assms] by blast
  note sorted = tuples_of_sort [OF ts(2)]
  have "tuples_of (sort_key Key ts) m"
    using bucket_tuples [of "sort_key Key ts"] sorted by simp
  with sorted ts(1) that [of "sort_key Key ts"] show ?thesis
    by (simp add: CollectSubtreeTuples_def)
qed

lemma collectEntryAs_spec:
  assumes "entry_holds P dflt C c r (Some e) m" and "r \<le> fuel + 1"
  shows "\<exists>ts. tuples_of ts m \<and> (\<forall>out. collectEntryAs fuel P C c e out = Some (fold put_tuple ts out))"
proof (cases e)
  case (Bucket b)
  then show ?thesis using assms(1) bucket_tuples [of b] by auto
next
  case (Link h)
  then obtain child where ch: "LoadTrieNode P C h c = Some child" "trie P dflt C c r child m"
    using assms(1) by auto
  from Collect_trie [OF ch(2) assms(2)] obtain ts where "CollectSubtreeTuples fuel P C c child = Some ts" "tuples_of ts m"
    by metis
  then show ?thesis using Link ch(1) by auto
qed

lemma trie_same_node:
  assumes "trie P dflt C c r n m" "trie P dflt C c r n m'"
  shows "m = m'"
  using collect_trie [OF assms(1), of r] collect_trie [OF assms(2), of r] by (auto simp: tuples_of_def)

lemma same_all: "diff_adds m m d (d\<lparr>unchanged := unchanged d + of_nat (card (dom m))\<rparr>)"
proof -
  have "only_in m m = Map.empty" "changes m m = Map.empty" "same_keys m m = dom m"
    by (auto simp: only_in_def changes_def same_keys_def fun_eq_iff split: option.split)
  then show ?thesis by (simp add: diff_adds_def)
qed

lemma countAllBindings_spec:
  assumes "LoadTrieNode P C h c = Some n" "trie P dflt C c r n m" "r \<le> fuel + 1"
  shows "countAllBindings fuel P C c h = Some (of_nat (card (dom m)))"
  using collect_trie [OF assms(2,3)] assms(1) tuples_of_length
  by (auto simp: countAllBindings_def BranchSize_collect)

text \<open>The claim for a level; \<open>diff_entry_ok\<close> is the claim for two entries of that level.\<close>

definition diff_ok :: "'p trie_prims_scheme \<Rightarrow> byte \<Rightarrow> 'c ContentStore \<Rightarrow> 'c \<Rightarrow> nat \<Rightarrow> bool" where
  "diff_ok P dflt C c r \<longleftrightarrow>
     (\<forall>fuel a b m m' d. r \<le> fuel + 1 \<longrightarrow> trie P dflt C c r a m \<longrightarrow> trie P dflt C c r b m' \<longrightarrow>
        (\<exists>d'. diffNodes fuel P C c a b d = Some (Inr d') \<and> diff_adds m m' d d'))"

lemma diffEntries_spec:
  assumes IH: "diff_ok P dflt C c r" and fuel: "r \<le> fuel"
    and a: "entry_holds P dflt C c r (Some a) m" and b: "entry_holds P dflt C c r (Some b) m'"
  obtains d' where "diffEntries fuel P C c a b d = Some (Inr d')" "diff_adds m m' d d'"
proof (cases a; cases b)
  fix x y assume "a = Bucket x" "b = Bucket y"
  then show ?thesis using a b that diffBuckets_spec [of x y d] by simp
next
  fix x h assume ab: "a = Bucket x" "b = Link h"
  then obtain n where n: "LoadTrieNode P C h c = Some n" "trie P dflt C c r n m'" using b by auto
  obtain ts where "CollectSubtreeTuples fuel P C c n = Some ts" "bucket_ok ts" "bucket_map ts = m'"
    using Collect_trie [OF n(2)] fuel by (metis le_add1 le_trans)
  then show ?thesis using a ab n(1) that diffBuckets_spec [of x ts d] by simp
next
  fix h y assume ab: "a = Link h" "b = Bucket y"
  then obtain n where n: "LoadTrieNode P C h c = Some n" "trie P dflt C c r n m" using a by auto
  obtain ts where "CollectSubtreeTuples fuel P C c n = Some ts" "bucket_ok ts" "bucket_map ts = m"
    using Collect_trie [OF n(2)] fuel by (metis le_add1 le_trans)
  then show ?thesis using b ab n(1) that diffBuckets_spec [of ts y d] by simp
next
  fix h h' assume ab: "a = Link h" "b = Link h'"
  obtain n n' where n: "LoadTrieNode P C h c = Some n" "trie P dflt C c r n m"
    and n': "LoadTrieNode P C h' c = Some n'" "trie P dflt C c r n' m'"
    using a b ab by auto
  show ?thesis
  proof (cases "h = h'")
    case True
    then have "m = m'" using n n' trie_same_node by fastforce
    moreover have "countAllBindings fuel P C c h = Some (of_nat (card (dom m)))"
      using countAllBindings_spec [OF n] fuel by simp
    ultimately show ?thesis using that True ab same_all [of m d] by simp
  next
    case False
    have "r \<noteq> 0" using n(2) by (cases r) auto
    then obtain f where f: "fuel = Suc f" "r \<le> f + 1" using fuel by (cases fuel) auto
    then obtain d' where "diffNodes f P C c n n' d = Some (Inr d')" "diff_adds m m' d d'"
      using IH n(2) n'(2) unfolding diff_ok_def by blast
    then show ?thesis using that False ab n(1) n'(1) f(1) by simp
  qed
qed

text \<open>One position: a slot of each side, at least one of them set.\<close>

lemma diff_step:
  assumes IH: "diff_ok P dflt C c r" and fuel: "r \<le> fuel"
    and ok: "node_ok a" "node_ok b" and p: "p < 32"
    and ea: "entry_holds P dflt C c r (node_at a p) m" and eb: "entry_holds P dflt C c r (node_at b p) m'"
    and set: "BitmapGet (node_Map a) p \<or> BitmapGet (node_Map b) p"
  obtains d' where "diff_adds m m' d d'" "diff_loop fuel P C c a b (p # ps) d = diff_loop fuel P C c a b ps d'"
proof -
  let ?a = "node_Data a ! PopcountBelow (node_Map a) p" and ?b = "node_Data b ! PopcountBelow (node_Map b) p"
  have idx: "BitmapGet (node_Map a) p \<Longrightarrow> \<not> PopcountBelow (node_Map a) p \<ge> length (node_Data a)"
    "BitmapGet (node_Map b) p \<Longrightarrow> \<not> PopcountBelow (node_Map b) p \<ge> length (node_Data b)"
    using idx_less ok p by (metis linorder_not_le)+
  have fuel1: "r \<le> fuel + 1" using fuel by simp
  consider (a) "BitmapGet (node_Map a) p" "\<not> BitmapGet (node_Map b) p"
    | (b) "\<not> BitmapGet (node_Map a) p" "BitmapGet (node_Map b) p"
    | (both) "BitmapGet (node_Map a) p" "BitmapGet (node_Map b) p"
    using set by blast
  then show ?thesis
  proof cases
    case a
    then have e: "entry_holds P dflt C c r (Some ?a) m" "m' = Map.empty"
      using ea eb p by (simp_all add: node_at_def)
    obtain ts where "tuples_of ts m" "\<And>out. collectEntryAs fuel P C c ?a out = Some (fold put_tuple ts out)"
      using collectEntryAs_spec [OF e(1) fuel1] by blast
    then show ?thesis
      using a idx diff_adds_removed [of ts m d] e(2) that by (simp add: Let_def)
  next
    case b
    then have e: "entry_holds P dflt C c r (Some ?b) m'" "m = Map.empty"
      using ea eb p by (simp_all add: node_at_def)
    obtain ts where "tuples_of ts m'" "\<And>out. collectEntryAs fuel P C c ?b out = Some (fold put_tuple ts out)"
      using collectEntryAs_spec [OF e(1) fuel1] by blast
    then show ?thesis
      using b idx diff_adds_added [of ts m' d] e(2) that by (simp add: Let_def)
  next
    case both
    then have "entry_holds P dflt C c r (Some ?a) m" "entry_holds P dflt C c r (Some ?b) m'"
      using ea eb p by (simp_all add: node_at_def)
    then obtain d' where "diffEntries fuel P C c ?a ?b d = Some (Inr d')" "diff_adds m m' d d'"
      using diffEntries_spec [OF IH fuel] by metis
    then show ?thesis using both idx that by (simp add: Let_def)
  qed
qed

lemma slots_Cons:
  assumes "p \<notin> set ps"
  shows "m |` {k. f k \<in> set (p # ps)} = (m |` {k. f k = p}) ++ (m |` {k. f k \<in> set ps})"
  using assms by (auto simp: restrict_map_def map_add_def fun_eq_iff split: option.split)

lemma diff_loop_spec:
  assumes IH: "diff_ok P dflt C c r" and fuel: "r \<le> fuel"
    and a: "trie P dflt C c (Suc r) a m" and b: "trie P dflt C c (Suc r) b m'"
  shows "distinct ps \<Longrightarrow> (\<And>p. p \<in> set ps \<Longrightarrow> p < 32 \<and> (BitmapGet (node_Map a) p \<or> BitmapGet (node_Map b) p)) \<Longrightarrow>
    \<exists>d'. diff_loop fuel P C c a b ps d = Some (Inr d') \<and>
      diff_adds (m |` {k. slot P k (MaxLevel - Suc r) \<in> set ps}) (m' |` {k. slot P k (MaxLevel - Suc r) \<in> set ps}) d d'"
proof (induction ps arbitrary: d)
  case (Cons p ps)
  let ?l = "MaxLevel - Suc r"
  have p: "p < 32" "BitmapGet (node_Map a) p \<or> BitmapGet (node_Map b) p" using Cons.prems(2) by auto
  obtain d1 where d1: "diff_adds (at_slot P ?l p m) (at_slot P ?l p m') d d1"
    "diff_loop fuel P C c a b (p # ps) d = diff_loop fuel P C c a b ps d1"
    using diff_step [OF IH fuel, of a b p "at_slot P ?l p m" "at_slot P ?l p m'" d ps] a b p by (auto simp: trie_Suc)
  obtain d2 where d2: "diff_loop fuel P C c a b ps d1 = Some (Inr d2)"
    "diff_adds (m |` {k. slot P k ?l \<in> set ps}) (m' |` {k. slot P k ?l \<in> set ps}) d1 d2"
    using Cons.IH [of d1] Cons.prems by auto
  have dis: "p \<notin> set ps" using Cons.prems(1) by simp
  have "diff_adds (m |` {k. slot P k ?l \<in> set (p # ps)}) (m' |` {k. slot P k ?l \<in> set (p # ps)}) d d2"
    unfolding slots_Cons [OF dis]
    using trie_finite [OF a] d1(1) d2(2) dis
    by (intro diff_adds_disjoint [where ?d1.0 = d1]) (auto simp: at_slot_def)
  with d1(2) d2(1) show ?case by auto
qed simp

lemma diff_ok_all: "diff_ok P dflt C c r"
proof (induction r)
  case 0
  show ?case by (simp add: diff_ok_def)
next
  case (Suc r)
  show ?case
    unfolding diff_ok_def
  proof (intro allI impI)
    fix fuel a b m m' d
    assume fuel: "Suc r \<le> fuel + 1" and a: "trie P dflt C c (Suc r) a m" and b: "trie P dflt C c (Suc r) b m'"
    let ?ps = "diff_positions (BitmapU32 (node_Map a) OR BitmapU32 (node_Map b))"
    have ok: "node_ok a" "node_ok b" using a b by (simp_all add: trie_Suc)
    have ps: "p \<in> set ?ps \<longleftrightarrow> p < 32 \<and> (BitmapGet (node_Map a) p \<or> BitmapGet (node_Map b) p)" for p
      by (auto simp: diff_positions_filter bit_simps BitmapGet_bit)
    have cover: "x |` {k. slot P k (MaxLevel - Suc r) \<in> set ?ps} = x"
      if "\<And>p. p < 32 \<Longrightarrow> \<not> BitmapGet (node_Map n) p \<Longrightarrow> at_slot P (MaxLevel - Suc r) p x = Map.empty" "n = a \<or> n = b" for x n
    proof (rule ext)
      fix k
      show "(x |` {k. slot P k (MaxLevel - Suc r) \<in> set ?ps}) k = x k"
        using that(1) [OF HashSlice_less, of "HashKey P k" "MaxLevel - Suc r"] that(2) HashSlice_less [of "HashKey P k" "MaxLevel - Suc r"]
        by (auto simp: ps restrict_map_def at_slot_apply fun_eq_iff split: if_splits)
    qed
    have "m |` {k. slot P k (MaxLevel - Suc r) \<in> set ?ps} = m" "m' |` {k. slot P k (MaxLevel - Suc r) \<in> set ?ps} = m'"
      using a b by (auto intro!: cover [of a m] cover [of b m'] simp: trie_Suc node_at_def split: if_splits)
    moreover have "distinct ?ps" by (simp add: diff_positions_filter)
    ultimately obtain d' where "diff_loop fuel P C c a b ?ps d = Some (Inr d')" "diff_adds m m' d d'"
      using diff_loop_spec [OF Suc.IH _ a b, of fuel ?ps d] fuel ps by auto
    then show "\<exists>d'. diffNodes fuel P C c a b d = Some (Inr d') \<and> diff_adds m m' d d'"
      using ok by (simp add: diffNodes.simps node_ok_def BitmapBytes_def)
  qed
qed

lemma TrieDiff_root:
  assumes "trie_root P dflt C c rootA m" "trie_root P dflt C c rootB m'" "MaxLevel \<le> fuel + 1"
  obtains d where "TrieDiff fuel P C c rootA rootB = Some (Inr d)" "diff_adds m m' empty_diff d"
proof -
  obtain a b where a: "LoadTrieNode P C rootA c = Some a" "trie P dflt C c MaxLevel a m"
    and b: "LoadTrieNode P C rootB c = Some b" "trie P dflt C c MaxLevel b m'"
    using assms(1,2) by (auto simp: trie_root_def)
  show ?thesis
  proof (cases "rootA = rootB")
    case True
    then have "m = m'" using a b trie_same_node by fastforce
    then show ?thesis
      using True that same_all [of m empty_diff] countAllBindings_spec [OF a assms(3)]
      by (simp add: TrieDiff_def empty_diff_def)
  next
    case False
    then show ?thesis
      using that a b diff_ok_all [of P dflt C c MaxLevel] assms(3) unfolding diff_ok_def TrieDiff_def by fastforce
  qed
qed

end
