(* ===== verification/Trie_Convergence.thy ===== *)
theory Trie_Convergence
  imports Trie_Demo Trie_Diff
begin

text \<open>
  The properties of the snapshot trie over the in-memory content store: every operation refines
  the operation on the map of bindings, the root hash is a canonical name of the bindings however
  the trie came about, and the difference of two roots is the difference of their bindings.

  A run over \<open>guarded (MemoryContentStore_iface P)\<close> that succeeds is a run of the code without a
  hash collision; \<open>MaxLevel\<close> = 51 levels of recursion are enough for every walk.
\<close>

section \<open>Refinement\<close>

text \<open>
  C13. \<^verbatim>\<open>TriePut\<close> refines the update of the map of bindings. From a root that stands for \<open>m\<close> (the
  zero hash for the empty map) a put that meets no collision returns a root that stands for
  \<open>m(k \<mapsto> v)\<close>, and every root that was readable before still stands for the same bindings.
\<close>

theorem TriePut_refines:
  assumes "trie_prims_ok P good" and "root_map P dflt (MemoryContentStore_iface P) c root m"
    and "map_good good m" "good k" "hash_good v"
    and "TriePut P dflt (guarded (MemoryContentStore_iface P)) root k v c = (Inr h, c')"
  shows "TriePut P dflt (MemoryContentStore_iface P) root k v c = (Inr h, c') \<and>
    trie_root P dflt (MemoryContentStore_iface P) c' h (m(k \<mapsto> v)) \<and>
    (\<forall>h0 m0. trie_root P dflt (MemoryContentStore_iface P) c h0 m0 \<longrightarrow>
       trie_root P dflt (MemoryContentStore_iface P) c' h0 m0)"
  using tmem.TriePut_correct [OF assms(1) _ assms(3-6)] assms(2) guarded_TriePut [OF assms(6)] trie_root_grows
  by fastforce

theorem TriePut_refines_witness:
  "\<exists>h c'. TriePut demo_trie_prims 0 demo_store zero_hash ''a'' (demo_v CHR ''a'') (demo_content []) = (Inr h, c') \<and>
     trie_root demo_trie_prims 0 demo_store c' h [''a'' \<mapsto> demo_v CHR ''a'']"
proof -
  have run: "TriePut demo_trie_prims 0 (guarded demo_store) zero_hash ''a'' (demo_v CHR ''a'') (demo_content []) =
      (Inr (demo_node_hash [97]), demo_content [[97]])"
    by (simp add: demo_run loadOrEmpty_def IsZero_def)
  show ?thesis
    using TriePut_refines [OF demo_trie_prims_ok, of 0 "demo_content []" zero_hash Map.empty, OF _ _ _ _ run]
      demo_good_bindings [of "''a''" "demo_v CHR ''a''" "''a''"]
    by (auto simp: root_map_def map_good_def demo_bindings_def)
qed

text \<open>
  \<^verbatim>\<open>TrieRemove\<close> ends and refines the removal from the map of bindings: with 51 levels of recursion
  it returns, and a result without an error stands for \<open>m(k := None)\<close>, and is the old root when the
  key was not bound.
\<close>

theorem TrieRemove_refines:
  assumes "trie_prims_ok P good" and "root_map P dflt (MemoryContentStore_iface P) c root m" and "map_good good m"
    and "MaxLevel \<le> fuel"
  shows "\<exists>x c'. TrieRemove fuel P dflt (guarded (MemoryContentStore_iface P)) root k c = Some (x, c') \<and>
    (\<forall>h. x = Inr h \<longrightarrow>
       TrieRemove fuel P dflt (MemoryContentStore_iface P) root k c = Some (Inr h, c') \<and>
       root_map P dflt (MemoryContentStore_iface P) c' h (m(k := None)) \<and> (k \<notin> dom m \<longrightarrow> h = root))"
proof -
  have "root_map P dflt (guarded (MemoryContentStore_iface P)) c root m" using assms(2) by simp
  then show ?thesis
  proof (rule tmem.TrieRemove_correct [OF assms(1) _ assms(3,4)])
    fix x c'
    assume "TrieRemove fuel P dflt (guarded (MemoryContentStore_iface P)) root k c = Some (x, c')"
      and "\<And>h. x = Inr h \<Longrightarrow> root_map P dflt (guarded (MemoryContentStore_iface P)) c' h (m(k := None)) \<and>
        grows P (guarded (MemoryContentStore_iface P)) c c' \<and>
        (h = zero_hash \<longleftrightarrow> root = zero_hash) \<and> (k \<notin> dom m \<longrightarrow> h = root)"
    then show ?thesis
      using guarded_TrieRemove [of fuel P dflt "MemoryContentStore_iface P" root k c _ c'] by simp
  qed
qed

lemma demo_full_root:
  "trie_root demo_trie_prims 0 demo_store demo_full (demo_node_hash [1, 1, 1, 1, 1]) (map_of (rev (demo_bindings ''abcd'')))"
  using tmem.BuildTrie_correct [OF demo_trie_prims_ok demo_good_bindings demo_build] by (simp add: demo_full_def)

lemma demo_map_good: "map_good demo_good (map_of (rev (demo_bindings ks)))"
  using demo_good_bindings by (fastforce simp: map_good_def dest: map_of_SomeD)

theorem TrieRemove_refines_witness:
  "root_map demo_trie_prims 0 demo_store demo_full (demo_node_hash [97, 98, 99])
     ((map_of (rev (demo_bindings ''abcd'')))(''d'' := None))"
  using TrieRemove_refines [OF demo_trie_prims_ok _ demo_map_good, of 0 demo_full "demo_node_hash [1, 1, 1, 1, 1]" "''abcd''" 51 "''d''"]
    demo_full_root demo_remove
  by (auto simp: root_map_def MaxLevel_def)

section \<open>Convergence\<close>

lemma BuildTrie_root:
  assumes "trie_prims_ok P good" and "\<And>k v. (k, v) \<in> set bs \<Longrightarrow> good k \<and> hash_good v"
    and "BuildTrie P dflt (guarded (MemoryContentStore_iface P)) bs c = (Inr h, c')"
  shows "BuildTrie P dflt (MemoryContentStore_iface P) bs c = (Inr h, c')"
    and "trie_root P dflt (MemoryContentStore_iface P) c' h (map_of (rev bs))"
    and "grows P (MemoryContentStore_iface P) c c'"
  using tmem.BuildTrie_correct [OF assms] guarded_BuildTrie [OF assms(3)] by simp_all

text \<open>
  C12. The root hash is a canonical name of the bindings. Of two builds, the second in the store the
  first left, the root hashes agree exactly when the final bindings agree, in whatever order and
  with whatever overwritten bindings in between they were put.
\<close>

theorem BuildTrie_canonical:
  assumes "trie_prims_ok P good"
    and "\<forall>(k, v) \<in> set bs \<union> set bs'. good k \<and> hash_good v"
    and "BuildTrie P dflt (guarded (MemoryContentStore_iface P)) bs c = (Inr h, c1)"
    and "BuildTrie P dflt (guarded (MemoryContentStore_iface P)) bs' c1 = (Inr h', c2)"
  shows "h = h' \<longleftrightarrow> map_of (rev bs) = map_of (rev bs')"
proof
  have 1: "trie_root P dflt (MemoryContentStore_iface P) c1 h (map_of (rev bs))"
    and 2: "trie_root P dflt (MemoryContentStore_iface P) c2 h' (map_of (rev bs'))"
    and g: "grows P (MemoryContentStore_iface P) c1 c2"
    using BuildTrie_root [OF assms(1) _ assms(3)] BuildTrie_root [OF assms(1) _ assms(4)] assms(2) by auto
  show "h = h'" if "map_of (rev bs) = map_of (rev bs')"
    using trie_root_unique [OF 1] 2 that by metis
  show "map_of (rev bs) = map_of (rev bs')" if "h = h'"
    using trie_root_grows [OF 1 g] 2 that trie_same_node unfolding trie_root_def by fastforce
qed

theorem BuildTrie_canonical_witness:
  "map_of (rev (demo_bindings ''abc'')) = map_of (rev (demo_bindings ''aabc''))"
  using BuildTrie_canonical [OF demo_trie_prims_ok _ demo_build_abc demo_build_aabc] demo_good_bindings by fast

lemma map_of_filter_key: "(map_of bs)(k := None) = map_of (filter (\<lambda>b. fst b \<noteq> k) bs)"
proof (rule ext)
  show "((map_of bs)(k := None)) x = map_of (filter (\<lambda>b. fst b \<noteq> k) bs) x" for x
    by (induction bs) (auto split: if_splits)
qed

text \<open>
  C14. Incremental maintenance equals a rebuild, for removals with their collapse of sub-nodes: the
  root \<^verbatim>\<open>TrieRemove\<close> returns is the root \<^verbatim>\<open>BuildTrie\<close> returns, in any store, for the bindings
  without the key.
\<close>

theorem TrieRemove_equals_rebuild:
  assumes "trie_prims_ok P good"
    and "\<forall>(k, v) \<in> set bs. good k \<and> hash_good v" and "MaxLevel \<le> fuel"
    and "BuildTrie P dflt (guarded (MemoryContentStore_iface P)) bs c = (Inr root, c1)"
    and "TrieRemove fuel P dflt (guarded (MemoryContentStore_iface P)) root k c1 = Some (Inr h, c2)"
    and "BuildTrie P dflt (guarded (MemoryContentStore_iface P)) (filter (\<lambda>b. fst b \<noteq> k) bs) c' = (Inr h', c3)"
  shows "h = h'"
proof -
  let ?m = "map_of (rev bs)"
  have root: "trie_root P dflt (MemoryContentStore_iface P) c1 root ?m"
    and h': "trie_root P dflt (MemoryContentStore_iface P) c3 h' (map_of (rev (filter (\<lambda>b. fst b \<noteq> k) bs)))"
    using BuildTrie_root(2) [OF assms(1) _ assms(4)] BuildTrie_root(2) [OF assms(1) _ assms(6)] assms(2) by auto
  have good: "map_good good ?m" using assms(2) by (fastforce simp: map_good_def dest: map_of_SomeD)
  have "root_map P dflt (MemoryContentStore_iface P) c2 h (?m(k := None)) \<and> h \<noteq> zero_hash"
    using tmem.TrieRemove_correct [OF assms(1) _ good assms(3), of dflt c1 root k] root assms(5)
    unfolding guarded_root by (auto simp: root_map_def trie_root_def)
  then have "trie_root P dflt (MemoryContentStore_iface P) c2 h (?m(k := None))"
    by (auto simp: root_map_def)
  moreover have "?m(k := None) = map_of (rev (filter (\<lambda>b. fst b \<noteq> k) bs))"
    by (simp only: map_of_filter_key rev_filter)
  ultimately show ?thesis using trie_root_unique h' by metis
qed

theorem TrieRemove_equals_rebuild_witness:
  "demo_node_hash [97, 98, 99] =
     projr (fst (BuildTrie demo_trie_prims 0 (guarded demo_store) (filter (\<lambda>b. fst b \<noteq> ''d'') (demo_bindings ''abcd'')) (demo_content [])))"
proof (rule TrieRemove_equals_rebuild [OF demo_trie_prims_ok _ _ demo_build [folded demo_full_def] demo_remove])
  have "filter (\<lambda>b. fst b \<noteq> ''d'') (demo_bindings ''abcd'') = demo_bindings ''abc''"
    by (simp add: demo_bindings_def)
  then show "BuildTrie demo_trie_prims 0 (guarded demo_store) (filter (\<lambda>b. fst b \<noteq> ''d'') (demo_bindings ''abcd'')) (demo_content []) =
      (Inr (projr (fst (BuildTrie demo_trie_prims 0 (guarded demo_store)
         (filter (\<lambda>b. fst b \<noteq> ''d'') (demo_bindings ''abcd'')) (demo_content [])))),
       demo_content [[1], [97], [97, 98], [97, 98, 99]])"
    using demo_build_abc by simp
qed (use demo_good_bindings in \<open>auto simp: MaxLevel_def\<close>)

text \<open>
  What was built can be read back: \<^verbatim>\<open>CollectAllBindings\<close> of the root \<^verbatim>\<open>BuildTrie\<close> returns ends
  and yields exactly the final bindings.
\<close>

theorem BuildTrie_roundtrip:
  assumes "trie_prims_ok P good" and "\<forall>(k, v) \<in> set bs. good k \<and> hash_good v" and "MaxLevel \<le> fuel + 1"
    and "BuildTrie P dflt (guarded (MemoryContentStore_iface P)) bs c = (Inr h, c')"
  shows "\<exists>out. CollectAllBindings fuel P (MemoryContentStore_iface P) c' h '''' = Some out \<and> gm_get out = map_of (rev bs)"
proof -
  have "trie_root P dflt (MemoryContentStore_iface P) c' h (map_of (rev bs))"
    using BuildTrie_root(2) [OF assms(1) _ assms(4)] assms(2) by auto
  from CollectAllBindings_correct [OF this assms(3)] show ?thesis by blast
qed

theorem BuildTrie_roundtrip_witness:
  "\<exists>out. CollectAllBindings 50 demo_trie_prims demo_store demo_full (demo_node_hash [1, 1, 1, 1, 1]) '''' = Some out \<and>
     gm_get out = map_of (rev (demo_bindings ''abcd''))"
  using demo_good_bindings
  by (intro BuildTrie_roundtrip [OF demo_trie_prims_ok _ _ demo_build [folded demo_full_def]]) (auto simp: MaxLevel_def)

section \<open>Differences\<close>

text \<open>
  C15. \<^verbatim>\<open>TrieDiff\<close> computes the difference of the bindings. For two readable roots it returns without a
  panic; \<^verbatim>\<open>added\<close> and \<^verbatim>\<open>removed\<close> are the bindings of one side only, \<^verbatim>\<open>changed\<close> holds the keys bound to
  two hashes, and \<^verbatim>\<open>unchanged\<close> counts the rest (modulo $2^{64}$), early exits included.
\<close>

theorem TrieDiff_correct:
  assumes "trie_root P dflt C c rootA m" and "trie_root P dflt C c rootB m'" and "MaxLevel \<le> fuel + 1"
  shows "\<exists>d. TrieDiff fuel P C c rootA rootB = Some (Inr d) \<and>
    gm_get (added d) = only_in m' m \<and> gm_get (removed d) = only_in m m' \<and>
    gm_get (changed d) = changes m m' \<and> unchanged d = of_nat (card (same_keys m m'))"
proof -
  obtain d where "TrieDiff fuel P C c rootA rootB = Some (Inr d)" "diff_adds m m' empty_diff d"
    using TrieDiff_root [OF assms] .
  then show ?thesis by (simp add: diff_adds_def empty_diff_def gm_get_empty)
qed

theorem TrieDiff_correct_witness:
  "\<exists>d. TrieDiff 50 demo_trie_prims demo_store demo_full (demo_node_hash [1, 1, 1, 1, 1]) (demo_node_hash [97, 98, 99]) = Some (Inr d) \<and>
     gm_get (removed d) = only_in (map_of (rev (demo_bindings ''abcd''))) ((map_of (rev (demo_bindings ''abcd'')))(''d'' := None))"
proof -
  have "root_map demo_trie_prims 0 demo_store demo_full (demo_node_hash [97, 98, 99]) ((map_of (rev (demo_bindings ''abcd'')))(''d'' := None))"
    using tmem.TrieRemove_correct [OF demo_trie_prims_ok _ demo_map_good, of 0 demo_full "demo_node_hash [1, 1, 1, 1, 1]" "''abcd''" 51 "''d''"]
      demo_full_root demo_remove
    by (auto simp: root_map_def MaxLevel_def)
  then have "trie_root demo_trie_prims 0 demo_store demo_full (demo_node_hash [97, 98, 99]) ((map_of (rev (demo_bindings ''abcd'')))(''d'' := None))"
    by (simp add: root_map_def)
  from TrieDiff_correct [OF demo_full_root this, of 50] show ?thesis by (auto simp: MaxLevel_def)
qed

section \<open>The closure\<close>

text \<open>
  \<^verbatim>\<open>CollectNodeClosure\<close> enters the value hashes of a bucket into the set it uses to recognise visited
  nodes. A later link to a node that is also bound as a value is not followed: what lies below it
  is missing from the closure.
\<close>

theorem closure_skips_bound_node:
  assumes "LoadTrieNode P C root c = Some \<lparr>node_Map = bm, node_Data = [Bucket [\<lparr>Key = k, ValueHash = sub\<rparr>], Link sub]\<rparr>"
    and "root \<noteq> zero_hash"
  shows "CollectNodeClosure (Suc (Suc fuel)) P C c root = Some [sub, root]"
  using assms by (simp add: CollectNodeClosure_def IsZero_def)

end
