(* ===== verification/Tree_Handler.thy ===== *)
theory Tree_Handler
  imports Handler_Context Trie_Convergence
begin

text \<open>
  The handler \<^verbatim>\<open>system/tree\<close>, its reads and writes of single paths: \<^verbatim>\<open>core/tree/handler.go\<close>, with the
  request and result data of \<^verbatim>\<open>core/types/tree.go\<close> and the deletion markers of
  \<^verbatim>\<open>core/types/deletion_marker.go\<close>.

  A request carries its context, its operation and the data of its parameters. The ECF codecs of
  the payloads are parameters (\<open>tree_prims\<close>). A \<open>nat\<close> compares the lengths of Go slices, which fit
  their \<^verbatim>\<open>int\<close>. The methods of the handler that may write take the state of the stores and return
  it. \<open>put_check\<close> and \<open>put_commit\<close> are the two halves of \<^verbatim>\<open>handlePut\<close>, up to the comparison with
  \<^verbatim>\<open>expected_hash\<close> and after it; between them another request may run.
\<close>

section \<open>Deletion markers\<close>

definition TypeDeletionMarker :: string where
  "TypeDeletionMarker = ''system/deletion-marker''"

text \<open>The cache of \<^verbatim>\<open>markerFor\<close> only saves the recomputation.\<close>

definition markerFor :: "'p hash_prims_scheme \<Rightarrow> byte \<Rightarrow> (entity \<times> hash) result" where
  "markerFor P alg =
     (case NewEntityFormat P alg TypeDeletionMarker [0xa0] of
        Inl err \<Rightarrow> Inl err
      | Inr ent \<Rightarrow> Inr (ent, ContentHash ent))"

definition CanonicalDeletionMarker :: "'p hash_prims_scheme \<Rightarrow> byte \<Rightarrow> entity result" where
  "CanonicalDeletionMarker P dflt =
     (case markerFor P dflt of Inl _ \<Rightarrow> Inl [Panic] | Inr (ent, _) \<Rightarrow> Inr ent)"

definition DeletionMarkerHashForFormat :: "'p hash_prims_scheme \<Rightarrow> byte \<Rightarrow> hash result" where
  "DeletionMarkerHashForFormat P alg =
     (case markerFor P alg of Inl err \<Rightarrow> Inl err | Inr (_, h) \<Rightarrow> Inr h)"

definition IsDeletionMarker :: "'p hash_prims_scheme \<Rightarrow> hash \<Rightarrow> bool" where
  "IsDeletionMarker P h =
     (case DeletionMarkerHashForFormat P (Algorithm h) of
        Inl _ \<Rightarrow> False
      | Inr markerHash \<Rightarrow> h = markerHash)"

section \<open>Payloads\<close>

record GetRequestData =
  gr_TreeID :: string
  gr_Mode :: string
  gr_Limit :: "u64 option"
  gr_Offset :: "u64 option"

record PutRequestData =
  pr_Entity :: bytes
  pr_ExpectedHash :: "hash option"
  pr_TreeID :: string

record listing_entry =
  lst_hash :: "bytes option"
  lst_has_children :: bool

record ListingData =
  ld_Path :: string
  ld_Entries :: "(string, listing_entry) gomap"
  ld_Count :: u64
  ld_Offset :: u64
  ld_NextPage :: "hash option"

record SnapshotData =
  sn_Root :: hash

record SnapshotRequestData =
  sr_Prefix :: string
  sr_TreeID :: string

record DiffData =
  df_Base :: hash
  df_Target :: hash
  df_Added :: "(string, hash) gomap"
  df_Removed :: "(string, hash) gomap"
  df_Changed :: "(string, DiffChangeData) gomap"
  df_Unchanged :: u64

record DiffRequestData =
  dr_Base :: hash
  dr_Target :: hash

record MergeConflictData =
  mc_ExistingHash :: hash
  mc_IncomingHash :: hash
  mc_Resolution :: string

record MergeResultData =
  mr_Applied :: u64
  mr_Skipped :: u64
  mr_Conflicts :: "(string, MergeConflictData) gomap"
  mr_Strategy :: string

record MergeRequestData =
  mq_Source :: hash
  mq_SourceEnvelope :: bytes
  mq_TargetTree :: string
  mq_Strategy :: string
  mq_SourcePrefix :: string
  mq_TargetPrefix :: string
  mq_DryRun :: "bool option"

record ExtractRequestData =
  xr_Prefix :: string
  xr_TreeID :: string
  xr_Paths :: "string list"
  xr_Since :: hash

record PartialResultError =
  pe_Code :: string
  pe_Message :: string

record PartialResultHaltEntry =
  ph_Name :: string
  ph_Error :: PartialResultError

record PartialResultData =
  pt_BindingCommitted :: bool
  pt_ConsumersCompleted :: "string list"
  pt_ConsumersHalted :: "PartialResultHaltEntry list"
  pt_ConsumersSkipped :: "string list"
  pt_CascadeDepth :: u64

record RevisionEntryData =
  rv_Root :: hash
  rv_Parents :: "hash list"

record tree_prims = trie_prims +
  ecf_EncodeErrorData :: "string \<Rightarrow> bytes result"
  ecf_DecodeGetRequest :: "bytes \<Rightarrow> GetRequestData result"
  ecf_DecodePutRequest :: "bytes \<Rightarrow> PutRequestData result"
  ecf_DecodeSnapshotRequest :: "bytes \<Rightarrow> SnapshotRequestData result"
  ecf_DecodeDiffRequest :: "bytes \<Rightarrow> DiffRequestData result"
  ecf_DecodeMergeRequest :: "bytes \<Rightarrow> MergeRequestData result"
  ecf_DecodeExtractRequest :: "bytes \<Rightarrow> ExtractRequestData result"
  ecf_DecodeEntity :: "bytes \<Rightarrow> entity result"
  ecf_DecodeRawMap :: "bytes \<Rightarrow> (string, bytes) gomap result"
  ecf_EncodeContentHash :: "bytes \<Rightarrow> bytes result"
  ecf_EncodeRemoved :: "bytes result"
  ecf_EncodeListing :: "ListingData \<Rightarrow> bytes result"
  ecf_EncodePartialResult :: "PartialResultData \<Rightarrow> bytes result"
  ecf_EncodeSnapshot :: "SnapshotData \<Rightarrow> bytes result"
  ecf_DecodeSnapshot :: "bytes \<Rightarrow> SnapshotData result"
  ecf_EncodeDiff :: "DiffData \<Rightarrow> bytes result"
  ecf_EncodeMergeResult :: "MergeResultData \<Rightarrow> bytes result"
  ecf_DecodeRevisionEntry :: "bytes \<Rightarrow> RevisionEntryData result"
  ecf_EncodeString :: "string \<Rightarrow> bytes result"

text \<open>An ECF value as an entity of a type: the \<^verbatim>\<open>ToEntity\<close> methods of the payloads.\<close>

definition to_entity :: "'p hash_prims_scheme \<Rightarrow> byte \<Rightarrow> string \<Rightarrow> bytes result \<Rightarrow> entity result" where
  "to_entity P dflt typ raw = (case raw of Inl err \<Rightarrow> Inl err | Inr data \<Rightarrow> NewEntity P dflt typ data)"

definition TypeTreeListing :: string where "TypeTreeListing = ''system/tree/listing''"

definition TypeTreeSnapshot :: string where "TypeTreeSnapshot = ''system/tree/snapshot''"

definition TypeTreeDiff :: string where "TypeTreeDiff = ''system/tree/diff''"

definition TypeTreeMergeResult :: string where "TypeTreeMergeResult = ''system/tree/merge-result''"

definition TypeTreePartialResult :: string where "TypeTreePartialResult = ''system/tree/partial-result''"

definition ListingData_ToEntity :: "'p tree_prims_scheme \<Rightarrow> byte \<Rightarrow> ListingData \<Rightarrow> entity result" where
  "ListingData_ToEntity P dflt d = to_entity P dflt TypeTreeListing (ecf_EncodeListing P d)"

definition PartialResultData_ToEntity :: "'p tree_prims_scheme \<Rightarrow> byte \<Rightarrow> PartialResultData \<Rightarrow> entity result" where
  "PartialResultData_ToEntity P dflt d = to_entity P dflt TypeTreePartialResult (ecf_EncodePartialResult P d)"

section \<open>Requests\<close>

record ('c, 'i) Request =
  req_Context :: "('c, 'i) HandlerContext option"
  req_Operation :: string
  req_Params :: entity

abbreviation fail :: "'p tree_prims_scheme \<Rightarrow> byte \<Rightarrow> nat \<Rightarrow> string \<Rightarrow> Response result" where
  "fail P dflt status code \<equiv> NewErrorResponse P dflt (ecf_EncodeErrorData P) status code"

abbreviation answer :: "nat \<Rightarrow> entity \<Rightarrow> Response" where
  "answer status ent \<equiv> \<lparr>resp_Status = status, resp_Result = ent, resp_Included = []\<rparr>"

text \<open>Empty parameters leave the request at its zero value.\<close>

definition decode_params :: "(bytes \<Rightarrow> 'r result) \<Rightarrow> 'r \<Rightarrow> bytes \<Rightarrow> 'r result" where
  "decode_params dec zero data = (if length data > 0 then dec data else Inr zero)"

definition zero_entity :: entity where
  "zero_entity = \<lparr>Type = '''', Data = [], ContentHash = zero_hash\<rparr>"

definition checkPathPerm ::
  "'p cap_prims_scheme \<Rightarrow> 'c ContentStore \<Rightarrow> ('c, 'i) HandlerContext \<Rightarrow> 'c \<Rightarrow> string \<Rightarrow> string \<Rightarrow> bool" where
  "checkPathPerm P C hctx cs basePermission path =
     (if IsZero (ContentHash (hc_CallerCapability hctx)) then True
      else (case CapabilityTokenDataFromEntity P (hc_CallerCapability hctx) of
              Inl _ \<Rightarrow> True
            | Inr capData \<Rightarrow>
                (case ResolveGranterPeerID P (ct_Granter capData) (\<lambda>h. cs_Get C h cs) (hc_LocalPeerID hctx) of
                   Inl _ \<Rightarrow> False
                 | Inr granterPeerID \<Rightarrow>
                     CheckPathPermission (hc_Clock hctx basePermission path) basePermission path capData
                       (hc_HandlerPattern hctx) (hc_LocalPeerID hctx) granterPeerID)))"

text \<open>The target of a request was named and excluded by the caller itself.\<close>

definition all_excluded :: "('c, 'i) HandlerContext \<Rightarrow> bool" where
  "all_excluded hctx =
     (length (hctx_EffectiveTargets hctx) = 0 \<and>
      (case hc_Resource hctx of None \<Rightarrow> False | Some r \<Rightarrow> length (rt_Targets r) > 0))"

section \<open>Listings\<close>

record childInfo =
  ci_hash :: "hash option"
  ci_hasChildren :: bool

definition child_of :: "(string, childInfo) gomap \<Rightarrow> string \<Rightarrow> childInfo" where
  "child_of children name =
     (case gm_get children name of None \<Rightarrow> \<lparr>ci_hash = None, ci_hasChildren = False\<rparr> | Some info \<Rightarrow> info)"

definition add_child :: "string \<Rightarrow> LocationEntry \<Rightarrow> (string, childInfo) gomap \<Rightarrow> (string, childInfo) gomap" where
  "add_child qualifiedPrefix e children =
     (let rel = TrimPrefix (le_Path e) qualifiedPrefix in
      if rel = '''' then children
      else (case cut_slash rel of
              None \<Rightarrow> gm_set children rel ((child_of children rel)\<lparr>ci_hash := Some (le_Hash e)\<rparr>)
            | Some (name, _) \<Rightarrow> gm_set children name ((child_of children name)\<lparr>ci_hasChildren := True\<rparr>)))"

text \<open>The loop over the children that takes the deletion markers out; it touches each entry alone.\<close>

definition drop_marker :: "'p hash_prims_scheme \<Rightarrow> string \<times> childInfo \<Rightarrow> (string \<times> childInfo) list" where
  "drop_marker P child =
     (case child of
        (name, info) \<Rightarrow>
          (case ci_hash info of
             None \<Rightarrow> [(name, info)]
           | Some h \<Rightarrow>
               if IsDeletionMarker P h then
                 (if ci_hasChildren info then [(name, info\<lparr>ci_hash := None\<rparr>)] else [])
               else [(name, info)]))"

definition listing_prefix :: "string \<Rightarrow> string \<Rightarrow> string" where
  "listing_prefix localPeerID pre =
     (if HasPrefix pre ''/'' then pre else QualifyPath localPeerID pre)"

definition visible_children ::
  "'p cap_prims_scheme \<Rightarrow> 'c ContentStore \<Rightarrow> 'i LocationIndex \<Rightarrow> ('c, 'i) HandlerContext \<Rightarrow> string \<Rightarrow>
     ('c, 'i) hstate \<Rightarrow> (string, childInfo) gomap" where
  "visible_children P C I hctx pre s =
     (let qualifiedPrefix = listing_prefix (hc_LocalPeerID hctx) pre;
          children = fold (add_child qualifiedPrefix) (li_List I pre (hs_index s)) [];
          unmarked = concat (map (drop_marker P) children)
      in filter (\<lambda>(name, _). checkPathPerm P C hctx (hs_store s) ''get'' (qualifiedPrefix @ name)) unmarked)"

definition page :: "u64 option \<Rightarrow> u64 option \<Rightarrow> string list \<Rightarrow> string list" where
  "page off limit names =
     (let offset = (case off of None \<Rightarrow> 0 | Some n \<Rightarrow> n);
          rest = (if unat offset > length names then [] else drop (unat offset) names)
      in (case limit of
            None \<Rightarrow> rest
          | Some l \<Rightarrow> if length rest > unat l then take (unat l) rest else rest))"

definition listing ::
  "'p cap_prims_scheme \<Rightarrow> 'c ContentStore \<Rightarrow> 'i LocationIndex \<Rightarrow> ('c, 'i) HandlerContext \<Rightarrow> string \<Rightarrow>
     GetRequestData \<Rightarrow> ('c, 'i) hstate \<Rightarrow> ListingData" where
  "listing P C I hctx pre getReq s =
     (let children = visible_children P C I hctx pre s;
          names = sort (map fst children);
          entry = (\<lambda>name. let info = child_of children name in
                     \<lparr>lst_hash = map_option hash_Bytes (ci_hash info), lst_has_children = ci_hasChildren info\<rparr>)
      in \<lparr>ld_Path = pre,
          ld_Entries = map (\<lambda>name. (name, entry name)) (page (gr_Offset getReq) (gr_Limit getReq) names),
          ld_Count = of_nat (length names),
          ld_Offset = (case gr_Offset getReq of None \<Rightarrow> 0 | Some n \<Rightarrow> n),
          ld_NextPage = None\<rparr>)"

definition handleListing ::
  "'p tree_prims_scheme \<Rightarrow> byte \<Rightarrow> 'c ContentStore \<Rightarrow> 'i LocationIndex \<Rightarrow> ('c, 'i) HandlerContext \<Rightarrow> string \<Rightarrow>
     GetRequestData \<Rightarrow> ('c, 'i) hstate \<Rightarrow> Response result" where
  "handleListing P dflt C I hctx pre getReq s =
     (case ListingData_ToEntity P dflt (listing P C I hctx pre getReq s) of
        Inl err \<Rightarrow> Inl err
      | Inr ent \<Rightarrow> Inr (answer 200 ent))"

section \<open>Get\<close>

text \<open>The stores of a context, or the answer 500 when one is missing.\<close>

definition with_stores ::
  "'p tree_prims_scheme \<Rightarrow> byte \<Rightarrow> ('c, 'i) Request \<Rightarrow>
     (('c, 'i) HandlerContext \<Rightarrow> 'c ContentStore \<Rightarrow> 'i LocationIndex \<Rightarrow> 'r) \<Rightarrow> (Response result \<Rightarrow> 'r) \<Rightarrow> 'r" where
  "with_stores P dflt req body refuse =
     (case req_Context req of
        None \<Rightarrow> refuse (fail P dflt 500 ''internal_error'')
      | Some hctx \<Rightarrow>
          (case (hc_Store hctx, hc_LocationIndex hctx) of
             (Some C, Some I) \<Rightarrow> body hctx C I
           | _ \<Rightarrow> refuse (fail P dflt 500 ''internal_error'')))"

definition get_path ::
  "'p tree_prims_scheme \<Rightarrow> byte \<Rightarrow> 'c ContentStore \<Rightarrow> 'i LocationIndex \<Rightarrow> string \<Rightarrow> string \<Rightarrow> ('c, 'i) hstate \<Rightarrow>
     Response result" where
  "get_path P dflt C I path mode s =
     (case li_Get I path (hs_index s) of
        None \<Rightarrow> fail P dflt 404 ''not_found''
      | Some contentHash \<Rightarrow>
          if mode = '''' \<or> mode = ''entity'' then
            (case cs_Get C contentHash (hs_store s) of
               None \<Rightarrow> fail P dflt 404 ''not_found''
             | Some ent \<Rightarrow> Inr (answer 200 ent))
          else if mode = ''hash'' then
            (case to_entity P dflt ''system/hash'' (ecf_EncodeContentHash P (hash_Bytes contentHash)) of
               Inl err \<Rightarrow> Inl err
             | Inr hashEntity \<Rightarrow> Inr (answer 200 hashEntity))
          else fail P dflt 400 ''invalid_mode'')"

definition handleGet ::
  "'p tree_prims_scheme \<Rightarrow> byte \<Rightarrow> ('c, 'i) Request \<Rightarrow> ('c, 'i) hstate \<Rightarrow> Response result" where
  "handleGet P dflt req s =
     with_stores P dflt req (\<lambda>hctx C I.
       (case decode_params (ecf_DecodeGetRequest P)
               \<lparr>gr_TreeID = '''', gr_Mode = '''', gr_Limit = None, gr_Offset = None\<rparr> (Data (req_Params req)) of
          Inl _ \<Rightarrow> fail P dflt 400 ''invalid_params''
        | Inr getReq \<Rightarrow>
            if all_excluded hctx then fail P dflt 400 ''path_required''
            else
              let path = ExtractResourcePath hctx in
              if \<not> checkPathPerm P C hctx (hs_store s) ''get'' path then fail P dflt 403 ''capability_denied''
              else if path = '''' \<or> HasSuffix path ''/'' then handleListing P dflt C I hctx path getReq s
              else get_path P dflt C I path (gr_Mode getReq) s)) (\<lambda>r. r)"

section \<open>Put\<close>

definition cascadeToPartialResponse ::
  "'p tree_prims_scheme \<Rightarrow> byte \<Rightarrow> CascadeResult \<Rightarrow> entity \<Rightarrow> Response result" where
  "cascadeToPartialResponse P dflt cr originalResult =
     (case PartialResultData_ToEntity P dflt
             \<lparr>pt_BindingCommitted = BindingCommitted cr,
              pt_ConsumersCompleted = Completed cr,
              pt_ConsumersHalted =
                map (\<lambda>h. \<lparr>ph_Name = halt_Name h,
                          ph_Error = \<lparr>pe_Code = Code (halt_Error h), pe_Message = Message (halt_Error h)\<rparr>\<rparr>) (Halted cr),
              pt_ConsumersSkipped = Skipped cr,
              pt_CascadeDepth = cr_CascadeDepth cr\<rparr> of
        Inl err \<Rightarrow> Inl err
      | Inr partialEnt \<Rightarrow>
          Inr \<lparr>resp_Status = StatusMultiStatus, resp_Result = partialEnt,
               resp_Included =
                 (if \<not> IsZero (ContentHash originalResult) then [(ContentHash originalResult, originalResult)] else [])\<rparr>)"

text \<open>The answer to a write: 200, or 207 with the cascade when it did not complete.\<close>

definition write_response ::
  "'p tree_prims_scheme \<Rightarrow> byte \<Rightarrow> CascadeResult option \<Rightarrow> entity \<Rightarrow> Response result" where
  "write_response P dflt cr resultEntity =
     (case cr of
        Some c \<Rightarrow> if \<not> IsComplete cr then cascadeToPartialResponse P dflt c resultEntity
                  else Inr (answer 200 resultEntity)
      | None \<Rightarrow> Inr (answer 200 resultEntity))"

text \<open>Errors of these two encodings are ignored: nil data makes no entity, and the zero entity is used.\<close>

definition put_result :: "'p tree_prims_scheme \<Rightarrow> byte \<Rightarrow> bytes result \<Rightarrow> entity" where
  "put_result P dflt raw =
     (case NewEntity P dflt ''system/tree/put-result'' (case raw of Inl _ \<Rightarrow> [] | Inr r \<Rightarrow> r) of
        Inl _ \<Rightarrow> zero_entity
      | Inr ent \<Rightarrow> ent)"

definition entityCarriesContentHash :: "'p tree_prims_scheme \<Rightarrow> bytes \<Rightarrow> bool result" where
  "entityCarriesContentHash P raw =
     (case ecf_DecodeRawMap P raw of
        Inl err \<Rightarrow> Inl err
      | Inr m \<Rightarrow>
          (case gm_get m ''content_hash'' of
             None \<Rightarrow> Inr False
           | Some v \<Rightarrow> Inr (\<not> (v = [0xf6] \<or> v = [0xf7]))))"

text \<open>The comparison with \<^verbatim>\<open>expected_hash\<close>: absent, zero (the path must be unbound) or a hash.\<close>

definition cas_refused :: "hash option \<Rightarrow> hash option \<Rightarrow> bool" where
  "cas_refused expected current =
     (case expected of
        None \<Rightarrow> False
      | Some x \<Rightarrow> if IsZero x then current \<noteq> None else current \<noteq> Some x)"

definition put_check ::
  "'p tree_prims_scheme \<Rightarrow> byte \<Rightarrow> 'c ContentStore \<Rightarrow> 'i LocationIndex \<Rightarrow> ('c, 'i) HandlerContext \<Rightarrow> bytes \<Rightarrow>
     ('c, 'i) hstate \<Rightarrow> Response result + PutRequestData \<times> string" where
  "put_check P dflt C I hctx params s =
     (case decode_params (ecf_DecodePutRequest P) \<lparr>pr_Entity = [], pr_ExpectedHash = None, pr_TreeID = ''''\<rparr> params of
        Inl _ \<Rightarrow> Inl (fail P dflt 400 ''invalid_params'')
      | Inr putReq \<Rightarrow>
          let path = ExtractResourcePath hctx in
          if path = '''' then Inl (fail P dflt 400 ''path_required'')
          else if ValidatePathChars path \<noteq> Inr () then Inl (fail P dflt 400 ''invalid_path'')
          else if \<not> checkPathPerm P C hctx (hs_store s) ''put'' path then Inl (fail P dflt 403 ''capability_denied'')
          else if cas_refused (pr_ExpectedHash putReq) (li_Get I path (hs_index s)) then Inl (fail P dflt 409 ''hash_mismatch'')
          else Inr (putReq, path))"

definition unsupported_format :: "error \<Rightarrow> bool" where
  "unsupported_format err \<longleftrightarrow> ErrUnknownAlgorithm \<in> set err \<or> ErrUnsupportedContentHashFormat \<in> set err"

text \<open>The admission ladder of a submitted entity.\<close>

definition admit :: "'p tree_prims_scheme \<Rightarrow> byte \<Rightarrow> bytes \<Rightarrow> Response result + entity" where
  "admit P dflt raw =
     (case ecf_DecodeEntity P raw of
        Inl err \<Rightarrow>
          Inl (if unsupported_format err then fail P dflt 400 ''unsupported_content_hash_format''
               else fail P dflt 400 ''invalid_request'')
      | Inr ent \<Rightarrow>
          (case entityCarriesContentHash P raw of
             Inl _ \<Rightarrow> Inl (fail P dflt 400 ''invalid_request'')
           | Inr False \<Rightarrow> Inl (fail P dflt 400 ''invalid_request'')
           | Inr True \<Rightarrow>
               (case Validate P ent of
                  Inl err \<Rightarrow>
                    Inl (if ErrHashMismatch \<in> set err then fail P dflt 400 ''hash_mismatch''
                         else if unsupported_format err then fail P dflt 400 ''unsupported_content_hash_format''
                         else fail P dflt 400 ''invalid_request'')
                | Inr _ \<Rightarrow> Inr ent)))"

definition put_remove ::
  "'p tree_prims_scheme \<Rightarrow> byte \<Rightarrow> 'i LocationIndex \<Rightarrow> ('c, 'i) HandlerContext \<Rightarrow> string \<Rightarrow> ('c, 'i) hstate \<Rightarrow>
     Response result \<times> ('c, 'i) hstate" where
  "put_remove P dflt I hctx path s =
     (case TreeRemove P I hctx path ''delete'' s of
        ((None, _), s1) \<Rightarrow> (fail P dflt 404 ''not_found'', s1)
      | ((Some _, cr), s1) \<Rightarrow> (write_response P dflt cr (put_result P dflt (ecf_EncodeRemoved P)), s1))"

definition put_bind ::
  "'p tree_prims_scheme \<Rightarrow> byte \<Rightarrow> 'c ContentStore \<Rightarrow> 'i LocationIndex \<Rightarrow> ('c, 'i) HandlerContext \<Rightarrow> string \<Rightarrow>
     entity \<Rightarrow> ('c, 'i) hstate \<Rightarrow> Response result \<times> ('c, 'i) hstate" where
  "put_bind P dflt C I hctx path ent s =
     (case cs_Put C ent (hs_store s) of
        (Inl _, cs) \<Rightarrow> (Inl [ErrNotFound], s\<lparr>hs_store := cs\<rparr>)
      | (Inr storedHash, cs) \<Rightarrow>
          (case TreeSet P I hctx path storedHash ''put'' (s\<lparr>hs_store := cs\<rparr>) of
             ((_, Inl err), s1) \<Rightarrow> (Inl err, s1)
           | ((cr, Inr _), s1) \<Rightarrow>
               (write_response P dflt cr (put_result P dflt (ecf_EncodeContentHash P (hash_Bytes storedHash))), s1)))"

definition put_commit ::
  "'p tree_prims_scheme \<Rightarrow> byte \<Rightarrow> 'c ContentStore \<Rightarrow> 'i LocationIndex \<Rightarrow> ('c, 'i) HandlerContext \<Rightarrow>
     PutRequestData \<times> string \<Rightarrow> ('c, 'i) hstate \<Rightarrow> Response result \<times> ('c, 'i) hstate" where
  "put_commit P dflt C I hctx checked s =
     (case checked of
        (putReq, path) \<Rightarrow>
          if length (pr_Entity putReq) = 0 then put_remove P dflt I hctx path s
          else (case admit P dflt (pr_Entity putReq) of
                  Inl refused \<Rightarrow> (refused, s)
                | Inr ent \<Rightarrow> put_bind P dflt C I hctx path ent s))"

definition handlePut ::
  "'p tree_prims_scheme \<Rightarrow> byte \<Rightarrow> ('c, 'i) Request \<Rightarrow> ('c, 'i) hstate \<Rightarrow> Response result \<times> ('c, 'i) hstate" where
  "handlePut P dflt req s =
     with_stores P dflt req (\<lambda>hctx C I.
       (case put_check P dflt C I hctx (Data (req_Params req)) s of
          Inl refused \<Rightarrow> (refused, s)
        | Inr checked \<Rightarrow> put_commit P dflt C I hctx checked s)) (\<lambda>r. (r, s))"

end
