(* ===== verification/Tree_Operations.thy ===== *)
theory Tree_Operations
  imports Tree_Handler
begin

text \<open>
  The operations of the handler \<^verbatim>\<open>system/tree\<close> on whole prefixes: \<^verbatim>\<open>core/tree/operations.go\<close>, and the
  dispatch of \<^verbatim>\<open>handler.go\<close>. The walks along links take fuel, with \<open>None\<close> for a run that needs more.
  \<open>tracker\<close> is the method \<^verbatim>\<open>Root\<close> of the root tracker, when one is set. The set of hashes that a walk
  has seen is a list.

  \<^verbatim>\<open>handleSnapshot\<close> and \<^verbatim>\<open>handleDiff\<close> test only one of the two stores of the context for nil. A snapshot
  without a content store is the error \<open>Panic\<close> here, at the point where the permission of the
  prefix is read.
\<close>

section \<open>Helpers\<close>

definition validatePrefix :: "string \<Rightarrow> bool" where
  "validatePrefix pre \<longleftrightarrow> pre = '''' \<or> HasSuffix pre ''/''"

definition SnapshotDataFromEntity :: "'p tree_prims_scheme \<Rightarrow> entity \<Rightarrow> SnapshotData result" where
  "SnapshotDataFromEntity P e = ecf_DecodeSnapshot P (Data e)"

definition SnapshotData_ToEntity :: "'p tree_prims_scheme \<Rightarrow> byte \<Rightarrow> SnapshotData \<Rightarrow> entity result" where
  "SnapshotData_ToEntity P dflt d = to_entity P dflt TypeTreeSnapshot (ecf_EncodeSnapshot P d)"

definition as_snapshot :: "'p tree_prims_scheme \<Rightarrow> entity option \<Rightarrow> SnapshotData option" where
  "as_snapshot P found =
     (case found of
        None \<Rightarrow> None
      | Some ent \<Rightarrow>
          if Type ent = TypeTreeSnapshot then
            (case SnapshotDataFromEntity P ent of Inl _ \<Rightarrow> None | Inr snap \<Rightarrow> Some snap)
          else None)"

definition resolveSnapshot ::
  "'p tree_prims_scheme \<Rightarrow> 'c ContentStore \<Rightarrow> ('c, 'i) HandlerContext \<Rightarrow> 'c \<Rightarrow> hash \<Rightarrow> SnapshotData option" where
  "resolveSnapshot P C hctx cs h =
     (case as_snapshot P (cs_Get C h cs) of
        Some snap \<Rightarrow> Some snap
      | None \<Rightarrow> as_snapshot P (gm_get (hc_Included hctx) h))"

definition remap :: "string \<Rightarrow> string \<Rightarrow> string \<Rightarrow> string" where
  "remap fullPath sourcePrefix targetPrefix =
     (if sourcePrefix = '''' \<or> targetPrefix = '''' then fullPath
      else if HasPrefix fullPath sourcePrefix then targetPrefix @ drop (length sourcePrefix) fullPath
      else fullPath)"

definition applyPrefix :: "string \<Rightarrow> string \<Rightarrow> string \<Rightarrow> string" where
  "applyPrefix relPath sourcePrefix targetPrefix =
     (if targetPrefix \<noteq> '''' then targetPrefix @ relPath
      else if sourcePrefix \<noteq> '''' then sourcePrefix @ relPath
      else relPath)"

text \<open>
  The loop that snapshot, extract and the materialization share: the listed entries, relative to the
  qualified prefix, that a predicate on their paths lets through.
\<close>

definition relative_bindings :: "(string \<Rightarrow> bool) \<Rightarrow> string \<Rightarrow> LocationEntry list \<Rightarrow> Binding list" where
  "relative_bindings ok qualifiedPrefix entries =
     map (\<lambda>e. (TrimPrefix (le_Path e) qualifiedPrefix, le_Hash e))
       (filter (\<lambda>e. TrimPrefix (le_Path e) qualifiedPrefix \<noteq> '''' \<and> ok (le_Path e)) entries)"

text \<open>The prefix of a request: the first effective target, or the one of the parameters.\<close>

definition request_prefix :: "('c, 'i) HandlerContext \<Rightarrow> string \<Rightarrow> string" where
  "request_prefix hctx pre = (case hctx_EffectiveTargets hctx of [] \<Rightarrow> pre | t # _ \<Rightarrow> t)"

section \<open>Snapshot\<close>

definition snapshot_root ::
  "'p trie_prims_scheme \<Rightarrow> byte \<Rightarrow> (string \<Rightarrow> hash option) option \<Rightarrow> 'c ContentStore \<Rightarrow> 'i LocationIndex \<Rightarrow>
     ('c, 'i) HandlerContext \<Rightarrow> string \<Rightarrow> ('c, 'i) hstate \<Rightarrow> hash result \<times> ('c, 'i) hstate" where
  "snapshot_root P dflt tracker C I hctx pre s =
     (let capScoped = (\<not> IsZero (ContentHash (hc_CallerCapability hctx)));
          root = (case tracker of
                    Some rootOf \<Rightarrow> if \<not> capScoped then (case rootOf pre of Some r \<Rightarrow> r | None \<Rightarrow> zero_hash) else zero_hash
                  | None \<Rightarrow> zero_hash)
      in
      if IsZero root then
        let bindings = relative_bindings (checkPathPerm P C hctx (hs_store s) ''get'')
              (QualifyPath (hc_LocalPeerID hctx) pre) (li_List I pre (hs_index s))
        in (case BuildTrie P dflt C bindings (hs_store s) of (r, cs) \<Rightarrow> (r, s\<lparr>hs_store := cs\<rparr>))
      else (Inr root, s))"

definition handleSnapshot ::
  "'p tree_prims_scheme \<Rightarrow> byte \<Rightarrow> (string \<Rightarrow> hash option) option \<Rightarrow> ('c, 'i) Request \<Rightarrow> ('c, 'i) hstate \<Rightarrow>
     Response result \<times> ('c, 'i) hstate" where
  "handleSnapshot P dflt tracker req s =
     (case req_Context req of
        None \<Rightarrow> (fail P dflt 500 ''internal_error'', s)
      | Some hctx \<Rightarrow>
          (case hc_LocationIndex hctx of
             None \<Rightarrow> (fail P dflt 500 ''internal_error'', s)
           | Some I \<Rightarrow>
               (case decode_params (ecf_DecodeSnapshotRequest P) \<lparr>sr_Prefix = '''', sr_TreeID = ''''\<rparr> (Data (req_Params req)) of
                  Inl _ \<Rightarrow> (fail P dflt 400 ''invalid_params'', s)
                | Inr snapReq \<Rightarrow>
                    if all_excluded hctx then (fail P dflt 400 ''path_required'', s)
                    else
                      let pre = request_prefix hctx (sr_Prefix snapReq) in
                      if \<not> validatePrefix pre then (fail P dflt 400 ''invalid_prefix'', s)
                      else (case hc_Store hctx of
                              None \<Rightarrow> (Inl [Panic], s)
                            | Some C \<Rightarrow>
                                if \<not> checkPathPerm P C hctx (hs_store s) ''get'' pre then
                                  (fail P dflt 403 ''capability_denied'', s)
                                else (case snapshot_root P dflt tracker C I hctx pre s of
                                        (Inl _, s1) \<Rightarrow> (fail P dflt 500 ''internal_error'', s1)
                                      | (Inr root, s1) \<Rightarrow>
                                          (case SnapshotData_ToEntity P dflt \<lparr>sn_Root = root\<rparr> of
                                             Inl err \<Rightarrow> (Inl err, s1)
                                           | Inr snapEntity \<Rightarrow> (Inr (answer 200 snapEntity), s1)))))))"

section \<open>Diff\<close>

definition DiffData_ToEntity :: "'p tree_prims_scheme \<Rightarrow> byte \<Rightarrow> DiffData \<Rightarrow> entity result" where
  "DiffData_ToEntity P dflt d = to_entity P dflt TypeTreeDiff (ecf_EncodeDiff P d)"

definition handleDiff ::
  "nat \<Rightarrow> 'p tree_prims_scheme \<Rightarrow> byte \<Rightarrow> ('c, 'i) Request \<Rightarrow> ('c, 'i) hstate \<Rightarrow> Response result option" where
  "handleDiff fuel P dflt req s =
     (case req_Context req of
        None \<Rightarrow> Some (fail P dflt 500 ''internal_error'')
      | Some hctx \<Rightarrow>
          (case hc_Store hctx of
             None \<Rightarrow> Some (fail P dflt 500 ''internal_error'')
           | Some C \<Rightarrow>
               (case decode_params (ecf_DecodeDiffRequest P) \<lparr>dr_Base = zero_hash, dr_Target = zero_hash\<rparr> (Data (req_Params req)) of
                  Inl _ \<Rightarrow> Some (fail P dflt 400 ''invalid_params'')
                | Inr diffReq \<Rightarrow>
                    if IsZero (dr_Base diffReq) \<or> IsZero (dr_Target diffReq) then Some (fail P dflt 400 ''invalid_params'')
                    else (case (resolveSnapshot P C hctx (hs_store s) (dr_Base diffReq),
                                resolveSnapshot P C hctx (hs_store s) (dr_Target diffReq)) of
                            (Some baseSnap, Some targetSnap) \<Rightarrow>
                              (case TrieDiff fuel P C (hs_store s) (sn_Root baseSnap) (sn_Root targetSnap) of
                                 None \<Rightarrow> None
                               | Some (Inl err) \<Rightarrow> Some (Inl err)
                               | Some (Inr d) \<Rightarrow>
                                   Some (case DiffData_ToEntity P dflt
                                                \<lparr>df_Base = dr_Base diffReq, df_Target = dr_Target diffReq,
                                                 df_Added = added d, df_Removed = removed d, df_Changed = changed d,
                                                 df_Unchanged = unchanged d\<rparr> of
                                           Inl err \<Rightarrow> Inl err
                                         | Inr diffEntity \<Rightarrow> Inr (answer 200 diffEntity)))
                          | _ \<Rightarrow> Some (fail P dflt 404 ''snapshot_not_found'')))))"

section \<open>Merge\<close>

fun ingest :: "'c ContentStore \<Rightarrow> entity list \<Rightarrow> 'c \<Rightarrow> unit result \<times> 'c" where
  "ingest C [] cs = (Inr (), cs)"
| "ingest C (ent # ents) cs =
     (case cs_Put C ent cs of
        (Inl err, cs1) \<Rightarrow> (Inl err, cs1)
      | (Inr _, cs1) \<Rightarrow> ingest C ents cs1)"

text \<open>An envelope, or an entity that wraps one.\<close>

definition decode_source :: "'p tree_prims_scheme \<Rightarrow> bytes \<Rightarrow> envelope option" where
  "decode_source P raw =
     (case ecf_DecodeEntity P raw of
        Inr ent \<Rightarrow>
          if Type ent \<noteq> '''' then
            (case ecf_DecodeEnvelope P (Data ent) of Inl _ \<Rightarrow> None | Inr env \<Rightarrow> Some env)
          else (case ecf_DecodeEnvelope P raw of
                  Inl _ \<Rightarrow> None
                | Inr env \<Rightarrow> if Type (Root env) = '''' then None else Some env)
      | Inl _ \<Rightarrow>
          (case ecf_DecodeEnvelope P raw of
             Inl _ \<Rightarrow> None
           | Inr env \<Rightarrow> if Type (Root env) = '''' then None else Some env))"

definition merge_source ::
  "'p tree_prims_scheme \<Rightarrow> byte \<Rightarrow> 'c ContentStore \<Rightarrow> MergeRequestData \<Rightarrow> 'c \<Rightarrow> (Response result + hash) \<times> 'c" where
  "merge_source P dflt C mergeReq cs =
     (if length (mq_SourceEnvelope mergeReq) > 0 then
        (case decode_source P (mq_SourceEnvelope mergeReq) of
           None \<Rightarrow> (Inl (fail P dflt 400 ''invalid_params''), cs)
         | Some env \<Rightarrow>
             (case VerifyIncludedKeyBinding P (Included env) of
                Inl _ \<Rightarrow> (Inl (fail P dflt 400 ''invalid_params''), cs)
              | Inr _ \<Rightarrow>
                  (case ingest C (map snd (Included env)) cs of
                     (Inl _, cs1) \<Rightarrow> (Inl (fail P dflt 400 ''invalid_params''), cs1)
                   | (Inr _, cs1) \<Rightarrow>
                       (case cs_Put C (Root env) cs1 of
                          (Inl _, cs2) \<Rightarrow> (Inl (fail P dflt 500 ''internal_error''), cs2)
                        | (Inr rootHash, cs2) \<Rightarrow> (Inr rootHash, cs2)))))
      else (Inr (mq_Source mergeReq), cs))"

text \<open>The pre-check over all target paths: the first refusal, if there is one.\<close>

fun merge_precheck ::
  "'p tree_prims_scheme \<Rightarrow> byte \<Rightarrow> 'c ContentStore \<Rightarrow> ('c, 'i) HandlerContext \<Rightarrow> (string \<Rightarrow> string) \<Rightarrow> 'c \<Rightarrow>
     string list \<Rightarrow> Response result option" where
  "merge_precheck P dflt C hctx target cs [] = None"
| "merge_precheck P dflt C hctx target cs (rel # rels) =
     (if ValidateAbsolutePath (Canonicalize (target rel) (hc_LocalPeerID hctx)) \<noteq> Inr () then
        Some (fail P dflt 400 ''invalid_path'')
      else if \<not> checkPathPerm P C hctx cs ''put'' (target rel) then
        Some (fail P dflt 403 ''capability_denied'')
      else merge_precheck P dflt C hctx target cs rels)"

record merge_state =
  ms_applied :: u64
  ms_skipped :: u64
  ms_conflicts :: "(string, MergeConflictData) gomap"
  ms_incomplete :: "CascadeResult list"

definition merge_set ::
  "'p cap_prims_scheme \<Rightarrow> 'i LocationIndex \<Rightarrow> ('c, 'i) HandlerContext \<Rightarrow> bool \<Rightarrow> string \<Rightarrow> hash \<Rightarrow> merge_state \<Rightarrow>
     ('c, 'i) hstate \<Rightarrow> merge_state result \<times> ('c, 'i) hstate" where
  "merge_set P I hctx dryRun targetPath incoming m s =
     (if dryRun then (Inr m, s)
      else (case TreeSet P I hctx targetPath incoming ''merge'' s of
              ((_, Inl err), s1) \<Rightarrow> (Inl err, s1)
            | ((cr, Inr _), s1) \<Rightarrow>
                (Inr (case cr of
                        Some c \<Rightarrow> if \<not> IsComplete cr then m\<lparr>ms_incomplete := ms_incomplete m @ [c]\<rparr> else m
                      | None \<Rightarrow> m), s1)))"

definition note_conflict :: "string \<Rightarrow> hash \<Rightarrow> hash \<Rightarrow> string \<Rightarrow> merge_state \<Rightarrow> merge_state" where
  "note_conflict targetPath existing incoming resolution m =
     m\<lparr>ms_conflicts := gm_set (ms_conflicts m) targetPath
         \<lparr>mc_ExistingHash = existing, mc_IncomingHash = incoming, mc_Resolution = resolution\<rparr>\<rparr>"

definition merge_binding ::
  "'p cap_prims_scheme \<Rightarrow> 'i LocationIndex \<Rightarrow> ('c, 'i) HandlerContext \<Rightarrow> string \<Rightarrow> bool \<Rightarrow> string \<Rightarrow> hash \<Rightarrow>
     merge_state \<Rightarrow> ('c, 'i) hstate \<Rightarrow> merge_state result \<times> ('c, 'i) hstate" where
  "merge_binding P I hctx strategy dryRun targetPath incoming m s =
     (case li_Get I targetPath (hs_index s) of
        None \<Rightarrow>
          (case merge_set P I hctx dryRun targetPath incoming m s of
             (Inl err, s1) \<Rightarrow> (Inl err, s1)
           | (Inr m1, s1) \<Rightarrow> (Inr (m1\<lparr>ms_applied := ms_applied m1 + 1\<rparr>), s1))
      | Some existing \<Rightarrow>
          if existing = incoming then (Inr (m\<lparr>ms_skipped := ms_skipped m + 1\<rparr>), s)
          else if strategy = ''source-wins'' then
            (case merge_set P I hctx dryRun targetPath incoming m s of
               (Inl err, s1) \<Rightarrow> (Inl err, s1)
             | (Inr m1, s1) \<Rightarrow>
                 (Inr (note_conflict targetPath existing incoming ''used-incoming''
                         (m1\<lparr>ms_applied := ms_applied m1 + 1\<rparr>)), s1))
          else if strategy = ''target-wins'' then
            (Inr (note_conflict targetPath existing incoming ''kept-existing''
                    (m\<lparr>ms_skipped := ms_skipped m + 1\<rparr>)), s)
          else
            (Inr (note_conflict targetPath existing incoming ''unresolved''
                    (m\<lparr>ms_skipped := ms_skipped m + 1\<rparr>)), s))"

fun merge_loop ::
  "'p cap_prims_scheme \<Rightarrow> 'i LocationIndex \<Rightarrow> ('c, 'i) HandlerContext \<Rightarrow> string \<Rightarrow> bool \<Rightarrow> (string \<Rightarrow> string) \<Rightarrow>
     (string \<times> hash) list \<Rightarrow> merge_state \<Rightarrow> ('c, 'i) hstate \<Rightarrow> merge_state result \<times> ('c, 'i) hstate" where
  "merge_loop P I hctx strategy dryRun target [] m s = (Inr m, s)"
| "merge_loop P I hctx strategy dryRun target ((rel, incoming) # bs) m s =
     (case merge_binding P I hctx strategy dryRun (target rel) incoming m s of
        (Inl err, s1) \<Rightarrow> (Inl err, s1)
      | (Inr m1, s1) \<Rightarrow> merge_loop P I hctx strategy dryRun target bs m1 s1)"

definition MergeResultData_ToEntity :: "'p tree_prims_scheme \<Rightarrow> byte \<Rightarrow> MergeResultData \<Rightarrow> entity result" where
  "MergeResultData_ToEntity P dflt d = to_entity P dflt TypeTreeMergeResult (ecf_EncodeMergeResult P d)"

text \<open>The answer of a merge that ran to its end.\<close>

definition merge_response ::
  "'p tree_prims_scheme \<Rightarrow> byte \<Rightarrow> string \<Rightarrow> merge_state \<Rightarrow> Response result" where
  "merge_response P dflt strategy m =
     (case MergeResultData_ToEntity P dflt
             \<lparr>mr_Applied = ms_applied m, mr_Skipped = ms_skipped m, mr_Conflicts = ms_conflicts m, mr_Strategy = strategy\<rparr> of
        Inl err \<Rightarrow> Inl err
      | Inr resultEntity \<Rightarrow>
          (case ms_incomplete m of
             cr # _ \<Rightarrow> cascadeToPartialResponse P dflt cr resultEntity
           | [] \<Rightarrow> Inr (answer 200 resultEntity)))"

text \<open>The part of \<^verbatim>\<open>handleMerge\<close> after the source is known.\<close>

definition merge_into ::
  "nat \<Rightarrow> 'p tree_prims_scheme \<Rightarrow> byte \<Rightarrow> 'c ContentStore \<Rightarrow> 'i LocationIndex \<Rightarrow> ('c, 'i) HandlerContext \<Rightarrow>
     MergeRequestData \<Rightarrow> hash \<Rightarrow> ('c, 'i) hstate \<Rightarrow> (Response result \<times> ('c, 'i) hstate) option" where
  "merge_into fuel P dflt C I hctx mergeReq source s =
     (if IsZero source then Some (fail P dflt 400 ''invalid_params'', s)
      else
        let strategy = (if mq_Strategy mergeReq = '''' then ''no-overwrite'' else mq_Strategy mergeReq);
            dryRun = (mq_DryRun mergeReq = Some True);
            target = (\<lambda>rel. applyPrefix rel (mq_SourcePrefix mergeReq) (mq_TargetPrefix mergeReq))
        in
        if strategy \<notin> {''no-overwrite'', ''source-wins'', ''target-wins''} then Some (fail P dflt 400 ''invalid_params'', s)
        else (case resolveSnapshot P C hctx (hs_store s) source of
                None \<Rightarrow> Some (fail P dflt 404 ''snapshot_not_found'', s)
              | Some sourceSnap \<Rightarrow>
                  (case CollectAllBindings fuel P C (hs_store s) (sn_Root sourceSnap) '''' of
                     None \<Rightarrow> None
                   | Some sourceBindings \<Rightarrow>
                       (case merge_precheck P dflt C hctx target (hs_store s) (map fst sourceBindings) of
                          Some refused \<Rightarrow> Some (refused, s)
                        | None \<Rightarrow>
                            Some (case merge_loop P I hctx strategy dryRun target sourceBindings
                                         \<lparr>ms_applied = 0, ms_skipped = 0, ms_conflicts = [], ms_incomplete = []\<rparr> s of
                                    (Inl err, s1) \<Rightarrow> (Inl err, s1)
                                  | (Inr m, s1) \<Rightarrow> (merge_response P dflt strategy m, s1))))))"

definition handleMerge ::
  "nat \<Rightarrow> 'p tree_prims_scheme \<Rightarrow> byte \<Rightarrow> ('c, 'i) Request \<Rightarrow> ('c, 'i) hstate \<Rightarrow>
     (Response result \<times> ('c, 'i) hstate) option" where
  "handleMerge fuel P dflt req s =
     with_stores P dflt req (\<lambda>hctx C I.
       (case decode_params (ecf_DecodeMergeRequest P)
               \<lparr>mq_Source = zero_hash, mq_SourceEnvelope = [], mq_TargetTree = '''', mq_Strategy = '''',
                mq_SourcePrefix = '''', mq_TargetPrefix = '''', mq_DryRun = None\<rparr> (Data (req_Params req)) of
          Inl _ \<Rightarrow> Some (fail P dflt 400 ''invalid_params'', s)
        | Inr mergeReq \<Rightarrow>
            (case merge_source P dflt C mergeReq (hs_store s) of
               (Inl refused, cs) \<Rightarrow> Some (refused, s\<lparr>hs_store := cs\<rparr>)
             | (Inr source, cs) \<Rightarrow> merge_into fuel P dflt C I hctx mergeReq source (s\<lparr>hs_store := cs\<rparr>))))
       (\<lambda>r. Some (r, s))"

section \<open>Extract\<close>

fun collectTrieEntities ::
  "nat \<Rightarrow> 'p trie_prims_scheme \<Rightarrow> 'c ContentStore \<Rightarrow> 'c \<Rightarrow> NodeEntry list \<Rightarrow> included_map \<Rightarrow> included_map option" where
  "collectTrieEntities fuel P C cs [] collected = Some collected"
| "collectTrieEntities fuel P C cs (Bucket b # es) collected = collectTrieEntities fuel P C cs es collected"
| "collectTrieEntities 0 P C cs (Link h # es) collected = None"
| "collectTrieEntities (Suc fuel) P C cs (Link h # es) collected =
     (case cs_Get C h cs of
        None \<Rightarrow> collectTrieEntities (Suc fuel) P C cs es collected
      | Some ent \<Rightarrow>
          (case ecf_DecodeNode P (Data ent) of
             Inl _ \<Rightarrow> collectTrieEntities (Suc fuel) P C cs es (gm_set collected h ent)
           | Inr node \<Rightarrow>
               (case collectTrieEntities fuel P C cs (node_Data node) (gm_set collected h ent) of
                  None \<Rightarrow> None
                | Some collected1 \<Rightarrow> collectTrieEntities (Suc fuel) P C cs es collected1)))"

fun reachable_entries ::
  "nat \<Rightarrow> 'p trie_prims_scheme \<Rightarrow> 'c ContentStore \<Rightarrow> 'c \<Rightarrow> NodeEntry list \<Rightarrow> hash list \<Rightarrow> hash list option" where
  "reachable_entries fuel P C cs [] collected = Some collected"
| "reachable_entries fuel P C cs (Bucket b # es) collected =
     reachable_entries fuel P C cs es (rev (map ValueHash b) @ collected)"
| "reachable_entries 0 P C cs (Link h # es) collected = None"
| "reachable_entries (Suc fuel) P C cs (Link h # es) collected =
     (if h \<in> set collected then reachable_entries (Suc fuel) P C cs es collected
      else (case cs_Get C h cs of
              None \<Rightarrow> reachable_entries (Suc fuel) P C cs es (h # collected)
            | Some ent \<Rightarrow>
                (case ecf_DecodeNode P (Data ent) of
                   Inl _ \<Rightarrow> reachable_entries (Suc fuel) P C cs es (h # collected)
                 | Inr node \<Rightarrow>
                     (case reachable_entries fuel P C cs (node_Data node) (h # collected) of
                        None \<Rightarrow> None
                      | Some collected1 \<Rightarrow> reachable_entries (Suc fuel) P C cs es collected1))))"

definition CollectReachableHashes ::
  "nat \<Rightarrow> 'p trie_prims_scheme \<Rightarrow> 'c ContentStore \<Rightarrow> 'c \<Rightarrow> hash \<Rightarrow> hash list option" where
  "CollectReachableHashes fuel P C cs nodeHash = reachable_entries fuel P C cs [Link nodeHash] []"

text \<open>A value of a bucket is bundled unless the receiver has it.\<close>

definition bundle_value ::
  "'c ContentStore \<Rightarrow> 'c \<Rightarrow> hash list \<Rightarrow> BucketTuple \<Rightarrow> included_map \<Rightarrow> included_map" where
  "bundle_value C cs skip t collected =
     (if ValueHash t \<in> set skip then collected
      else (case cs_Get C (ValueHash t) cs of
              None \<Rightarrow> collected
            | Some bindEnt \<Rightarrow> gm_set collected (ValueHash t) bindEnt))"

fun except_entries ::
  "nat \<Rightarrow> 'p trie_prims_scheme \<Rightarrow> 'c ContentStore \<Rightarrow> 'c \<Rightarrow> hash list \<Rightarrow> NodeEntry list \<Rightarrow> included_map \<Rightarrow>
     included_map option" where
  "except_entries fuel P C cs skip [] collected = Some collected"
| "except_entries fuel P C cs skip (Bucket b # es) collected =
     except_entries fuel P C cs skip es (fold (bundle_value C cs skip) b collected)"
| "except_entries 0 P C cs skip (Link h # es) collected = None"
| "except_entries (Suc fuel) P C cs skip (Link h # es) collected =
     (if h \<in> set skip \<or> gm_get collected h \<noteq> None then except_entries (Suc fuel) P C cs skip es collected
      else (case cs_Get C h cs of
              None \<Rightarrow> except_entries (Suc fuel) P C cs skip es collected
            | Some ent \<Rightarrow>
                (case ecf_DecodeNode P (Data ent) of
                   Inl _ \<Rightarrow> except_entries (Suc fuel) P C cs skip es (gm_set collected h ent)
                 | Inr node \<Rightarrow>
                     (case except_entries fuel P C cs skip (node_Data node) (gm_set collected h ent) of
                        None \<Rightarrow> None
                      | Some collected1 \<Rightarrow> except_entries (Suc fuel) P C cs skip es collected1))))"

definition CollectTrieEntitiesExcept ::
  "nat \<Rightarrow> 'p trie_prims_scheme \<Rightarrow> 'c ContentStore \<Rightarrow> 'c \<Rightarrow> hash \<Rightarrow> hash list \<Rightarrow> included_map option" where
  "CollectTrieEntitiesExcept fuel P C cs nodeHash skip = except_entries fuel P C cs skip [Link nodeHash] []"

subsection \<open>Since a root\<close>

text \<open>Errors of the two encodings are ignored: the path is then built from the zero hash.\<close>

definition revisionHeadPath :: "'p tree_prims_scheme \<Rightarrow> string \<Rightarrow> string" where
  "revisionHeadPath P absPrefix =
     (let data = (case ecf_EncodeString P absPrefix of Inl _ \<Rightarrow> [] | Inr d \<Rightarrow> d);
          h = (case Compute P ''system/tree/path'' data of Inl _ \<Rightarrow> zero_hash | Inr h \<Rightarrow> h)
      in ''system/revision/'' @ hex_EncodeToString (hash_Bytes h) @ ''/head'')"

definition resolveAbsolutePrefix :: "string \<Rightarrow> string \<Rightarrow> string" where
  "resolveAbsolutePrefix pre localPeerID =
     (if HasPrefix pre ''/'' then pre else ''/'' @ localPeerID @ ''/'' @ pre)"

definition RevisionEntryDataFromEntity :: "'p tree_prims_scheme \<Rightarrow> entity \<Rightarrow> RevisionEntryData result" where
  "RevisionEntryDataFromEntity P e = ecf_DecodeRevisionEntry P (Data e)"

definition resolveCurrentTrieRoot ::
  "'p tree_prims_scheme \<Rightarrow> byte \<Rightarrow> 'c ContentStore \<Rightarrow> 'i LocationIndex \<Rightarrow> ('c, 'i) HandlerContext \<Rightarrow> string \<Rightarrow>
     ('c, 'i) hstate \<Rightarrow> (hash \<times> bool) result \<times> ('c, 'i) hstate" where
  "resolveCurrentTrieRoot P dflt C I hctx pre s =
     (case li_Get I (revisionHeadPath P (resolveAbsolutePrefix pre (hc_LocalPeerID hctx))) (hs_index s) of
        Some headHash \<Rightarrow>
          (case cs_Get C headHash (hs_store s) of
             Some ent \<Rightarrow>
               (case RevisionEntryDataFromEntity P ent of
                  Inr version \<Rightarrow> (Inr (rv_Root version, True), s)
                | Inl _ \<Rightarrow> (Inl [], s))
           | None \<Rightarrow> (Inl [], s))
      | None \<Rightarrow>
          let bindings = relative_bindings (\<lambda>_. True) (QualifyPath (hc_LocalPeerID hctx) pre) (li_List I pre (hs_index s)) in
          if length bindings = 0 then (Inr (zero_hash, False), s)
          else (case BuildTrie P dflt C bindings (hs_store s) of
                  (Inl err, cs) \<Rightarrow> (Inl err, s\<lparr>hs_store := cs\<rparr>)
                | (Inr root, cs) \<Rightarrow> (Inr (root, False), s\<lparr>hs_store := cs\<rparr>)))"

text \<open>One level of the walk over the versions: \<open>Inl\<close> is the answer true, \<open>Inr\<close> the visited set and the next level.\<close>

fun visit_versions ::
  "'p tree_prims_scheme \<Rightarrow> 'c ContentStore \<Rightarrow> 'c \<Rightarrow> hash \<Rightarrow> hash list \<Rightarrow> hash list \<Rightarrow> hash list \<Rightarrow>
     unit + hash list \<times> hash list" where
  "visit_versions P C cs since visited next [] = Inr (visited, next)"
| "visit_versions P C cs since visited next (vh # queue) =
     (if vh \<in> set visited then visit_versions P C cs since visited next queue
      else (case cs_Get C vh cs of
              None \<Rightarrow> visit_versions P C cs since (vh # visited) next queue
            | Some ent \<Rightarrow>
                (case RevisionEntryDataFromEntity P ent of
                   Inl _ \<Rightarrow> visit_versions P C cs since (vh # visited) next queue
                 | Inr version \<Rightarrow>
                     if rv_Root version = since then Inl ()
                     else visit_versions P C cs since (vh # visited) (next @ rv_Parents version) queue)))"

fun search_versions ::
  "nat \<Rightarrow> 'p tree_prims_scheme \<Rightarrow> 'c ContentStore \<Rightarrow> 'c \<Rightarrow> hash \<Rightarrow> hash list \<Rightarrow> hash list \<Rightarrow> bool" where
  "search_versions 0 P C cs since visited queue = False"
| "search_versions (Suc depth) P C cs since visited queue =
     (if queue = [] then False
      else (case visit_versions P C cs since visited [] queue of
              Inl _ \<Rightarrow> True
            | Inr (visited1, next) \<Rightarrow> search_versions depth P C cs since visited1 next))"

definition revisionDAGContainsRoot ::
  "'p tree_prims_scheme \<Rightarrow> 'c ContentStore \<Rightarrow> 'i LocationIndex \<Rightarrow> ('c, 'i) HandlerContext \<Rightarrow> string \<Rightarrow>
     hash \<Rightarrow> hash \<Rightarrow> ('c, 'i) hstate \<Rightarrow> bool" where
  "revisionDAGContainsRoot P C I hctx pre since currentRoot s =
     (if since = currentRoot then True
      else (case li_Get I (revisionHeadPath P (resolveAbsolutePrefix pre (hc_LocalPeerID hctx))) (hs_index s) of
              None \<Rightarrow> False
            | Some headHash \<Rightarrow> search_versions 1000 P C (hs_store s) since [] [headHash]))"

text \<open>A snapshot of a root with the entities that come with it, as the result of a response.\<close>

definition envelope_response ::
  "'p tree_prims_scheme \<Rightarrow> byte \<Rightarrow> hash \<Rightarrow> included_map \<Rightarrow> Response result" where
  "envelope_response P dflt root included =
     (case SnapshotData_ToEntity P dflt \<lparr>sn_Root = root\<rparr> of
        Inl err \<Rightarrow> Inl err
      | Inr snapEntity \<Rightarrow>
          (case envelope_ToEntity P dflt \<lparr>Root = snapEntity, Included = included\<rparr> of
             Inl err \<Rightarrow> Inl err
           | Inr envEntity \<Rightarrow> Inr (answer 200 envEntity)))"

definition handleExtractSince ::
  "nat \<Rightarrow> 'p tree_prims_scheme \<Rightarrow> byte \<Rightarrow> 'c ContentStore \<Rightarrow> 'i LocationIndex \<Rightarrow> ('c, 'i) HandlerContext \<Rightarrow>
     string \<Rightarrow> hash \<Rightarrow> ('c, 'i) hstate \<Rightarrow> (Response result \<times> ('c, 'i) hstate) option" where
  "handleExtractSince fuel P dflt C I hctx pre sinceRoot s =
     (case resolveCurrentTrieRoot P dflt C I hctx pre s of
        (Inl _, s1) \<Rightarrow> Some (fail P dflt 500 ''internal_error'', s1)
      | (Inr (currentRoot, hasCanonicalRoot), s1) \<Rightarrow>
          if IsZero currentRoot then Some (fail P dflt 404 ''no_local_state'', s1)
          else if cs_Get C sinceRoot (hs_store s1) = None then Some (fail P dflt 404 ''since_not_found'', s1)
          else if hasCanonicalRoot \<and> \<not> revisionDAGContainsRoot P C I hctx pre sinceRoot currentRoot s1 then
            Some (fail P dflt 400 ''scope_mismatch'', s1)
          else (case CollectReachableHashes fuel P C (hs_store s1) sinceRoot of
                  None \<Rightarrow> None
                | Some skip \<Rightarrow>
                    (case CollectTrieEntitiesExcept fuel P C (hs_store s1) currentRoot skip of
                       None \<Rightarrow> None
                     | Some included \<Rightarrow> Some (envelope_response P dflt currentRoot included, s1))))"

subsection \<open>The bindings of a prefix\<close>

text \<open>The bindings to extract: those of the named paths, or all under the prefix.\<close>

definition extract_bindings ::
  "'p tree_prims_scheme \<Rightarrow> 'c ContentStore \<Rightarrow> 'i LocationIndex \<Rightarrow> ('c, 'i) HandlerContext \<Rightarrow> string \<Rightarrow>
     string list \<Rightarrow> ('c, 'i) hstate \<Rightarrow> Binding list" where
  "extract_bindings P C I hctx pre relPaths s =
     (if length relPaths > 0 then
        concat (map (\<lambda>relPath.
          if \<not> checkPathPerm P C hctx (hs_store s) ''get'' (pre @ relPath) then []
          else (case li_Get I (pre @ relPath) (hs_index s) of None \<Rightarrow> [] | Some h \<Rightarrow> [(relPath, h)])) relPaths)
      else relative_bindings (checkPathPerm P C hctx (hs_store s) ''get'')
             (QualifyPath (hc_LocalPeerID hctx) pre) (li_List I pre (hs_index s)))"

definition bundle_binding :: "'c ContentStore \<Rightarrow> 'c \<Rightarrow> Binding \<Rightarrow> included_map \<Rightarrow> included_map" where
  "bundle_binding C cs b included =
     (case cs_Get C (snd b) cs of None \<Rightarrow> included | Some ent \<Rightarrow> gm_set included (snd b) ent)"

definition extract_bundle ::
  "nat \<Rightarrow> 'p tree_prims_scheme \<Rightarrow> byte \<Rightarrow> 'c ContentStore \<Rightarrow> Binding list \<Rightarrow> ('c, 'i) hstate \<Rightarrow>
     (Response result \<times> ('c, 'i) hstate) option" where
  "extract_bundle fuel P dflt C bindings s =
     (case BuildTrie P dflt C bindings (hs_store s) of
        (Inl _, cs) \<Rightarrow> Some (fail P dflt 500 ''internal_error'', s\<lparr>hs_store := cs\<rparr>)
      | (Inr root, cs) \<Rightarrow>
          (case collectTrieEntities fuel P C cs [Link root] [] of
             None \<Rightarrow> None
           | Some nodes \<Rightarrow>
               Some (envelope_response P dflt root (fold (bundle_binding C cs) bindings nodes), s\<lparr>hs_store := cs\<rparr>)))"

definition handleExtract ::
  "nat \<Rightarrow> 'p tree_prims_scheme \<Rightarrow> byte \<Rightarrow> ('c, 'i) Request \<Rightarrow> ('c, 'i) hstate \<Rightarrow>
     (Response result \<times> ('c, 'i) hstate) option" where
  "handleExtract fuel P dflt req s =
     with_stores P dflt req (\<lambda>hctx C I.
       (case decode_params (ecf_DecodeExtractRequest P)
               \<lparr>xr_Prefix = '''', xr_TreeID = '''', xr_Paths = [], xr_Since = zero_hash\<rparr> (Data (req_Params req)) of
          Inl _ \<Rightarrow> Some (fail P dflt 400 ''invalid_params'', s)
        | Inr extractReq \<Rightarrow>
            if all_excluded hctx then Some (fail P dflt 400 ''path_required'', s)
            else
              let pre = request_prefix hctx (xr_Prefix extractReq) in
              if \<not> validatePrefix pre then Some (fail P dflt 400 ''invalid_prefix'', s)
              else if \<not> checkPathPerm P C hctx (hs_store s) ''get'' pre then Some (fail P dflt 403 ''capability_denied'', s)
              else if \<not> IsZero (xr_Since extractReq) then
                (if length (xr_Paths extractReq) > 0 then Some (fail P dflt 400 ''conflicting_filters'', s)
                 else handleExtractSince fuel P dflt C I hctx pre (xr_Since extractReq) s)
              else if list_ex (\<lambda>relPath. ValidateAbsolutePath (Canonicalize (pre @ relPath) (hc_LocalPeerID hctx)) \<noteq> Inr ())
                        (xr_Paths extractReq) then
                Some (fail P dflt 400 ''invalid_path'', s)
              else extract_bundle fuel P dflt C (extract_bindings P C I hctx pre (xr_Paths extractReq) s) s))
       (\<lambda>r. Some (r, s))"

section \<open>Dispatch\<close>

definition tree_Handle ::
  "nat \<Rightarrow> 'p tree_prims_scheme \<Rightarrow> byte \<Rightarrow> (string \<Rightarrow> hash option) option \<Rightarrow> ('c, 'i) Request \<Rightarrow> ('c, 'i) hstate \<Rightarrow>
     (Response result \<times> ('c, 'i) hstate) option" where
  "tree_Handle fuel P dflt tracker req s =
     (if req_Operation req = ''get'' then Some (handleGet P dflt req s, s)
      else if req_Operation req = ''put'' then Some (handlePut P dflt req s)
      else if req_Operation req = ''snapshot'' then Some (handleSnapshot P dflt tracker req s)
      else if req_Operation req = ''diff'' then map_option (\<lambda>r. (r, s)) (handleDiff fuel P dflt req s)
      else if req_Operation req = ''merge'' then handleMerge fuel P dflt req s
      else if req_Operation req = ''extract'' then handleExtract fuel P dflt req s
      else Some (fail P dflt 501 ''unsupported_operation'', s))"

end
