(* ===== verification/Tree_Writes.thy ===== *)
theory Tree_Writes
  imports Tree_Operations
begin

text \<open>
  The writes of the tree handler to single paths. \<open>plain_index\<close> is an index without consumers: a
  write with a context is the write itself. Its client lemmas give the effect of \<^verbatim>\<open>TreeSet\<close>, \<^verbatim>\<open>TreeRemove\<close> and
  \<^verbatim>\<open>handlePut\<close>; the in-memory index and its namespaced view, which is what a handler of a peer gets, interpret it.
\<close>

section \<open>Responses\<close>

lemma NewErrorResponse_status: "NewErrorResponse P dflt enc status code = Inr r \<Longrightarrow> resp_Status r = status"
  by (auto simp: NewErrorResponse_def NewResponse_def split: sum.splits)

lemma write_response_plain [simp]: "write_response P dflt None ent = Inr (answer 200 ent)"
  by (simp add: write_response_def)

section \<open>Indexes without consumers\<close>

locale plain_index = location_index I inv abs key view
  for I :: "'i LocationIndex" and inv abs key view +
  assumes ctx_set: "li_Contextual I = Some cw \<Longrightarrow>
      cw_SetWithContext cw p h c i = (case li_Set I p h i of (r, i') \<Rightarrow> ((None, r), i'))"
    and ctx_remove: "li_Contextual I = Some cw \<Longrightarrow>
      cw_RemoveWithContext cw p c i = (case li_Remove I p i of (r, i') \<Rightarrow> ((r, None), i'))"
    and set_accepts: "inv i \<Longrightarrow> key p \<noteq> None \<Longrightarrow> fst (li_Set I p h i) = Inr ()"
begin

lemma TreeSet_plain:
  "TreeSet P I hctx p h op s =
     (case li_Set I p h (hs_index s) of
        (Inr _, i') \<Rightarrow> ((None, Inr ()), recordCapBinding (hc_Store hctx) p h (s\<lparr>hs_index := i'\<rparr>))
      | (Inl err, i') \<Rightarrow> ((None, Inl err), s\<lparr>hs_index := i'\<rparr>))"
  by (auto simp: TreeSet_def ctx_set split: option.splits prod.splits sum.splits)

lemma TreeRemove_plain:
  "TreeRemove P I hctx p op s =
     (case li_Remove I p (hs_index s) of
        (Some h, i') \<Rightarrow> ((Some h, None), forgetCapBinding (hc_Store hctx) h (s\<lparr>hs_index := i'\<rparr>))
      | (None, i') \<Rightarrow> ((None, None), s\<lparr>hs_index := i'\<rparr>))"
  by (auto simp: TreeRemove_def ctx_remove split: option.splits prod.splits)

lemma record_keeps [simp]:
  "hs_index (recordCapBinding C p h s) = hs_index s" "hs_store (recordCapBinding C p h s) = hs_store s"
  "hs_index (forgetCapBinding C h s) = hs_index s" "hs_store (forgetCapBinding C h s) = hs_store s"
  by (auto simp: recordCapBinding_def forgetCapBinding_def split: option.splits prod.splits)

text \<open>The effect of the two tree writes on the bindings.\<close>

lemma TreeSet_effect:
  assumes "inv (hs_index s)"
  obtains s' where "TreeSet P I hctx p h op s = ((None, Inr ()), s')" "\<exists>k. key p = Some k \<and> abs (hs_index s') = (abs (hs_index s))(k \<mapsto> h)"
      "inv (hs_index s')" "hs_store s' = hs_store s"
  | err s' where "TreeSet P I hctx p h op s = ((None, Inl err), s')" "key p = None" "s' = s"
proof (cases "key p")
  case None
  then obtain e where "li_Set I p h (hs_index s) = (Inl e, hs_index s)" using set_refused [OF assms] by blast
  with that(2) None show ?thesis by (simp add: TreeSet_plain)
next
  case (Some k)
  obtain i' where i': "li_Set I p h (hs_index s) = (Inr (), i')"
    using set_accepts [OF assms, of p h] Some by (cases "li_Set I p h (hs_index s)") auto
  then have "TreeSet P I hctx p h op s = ((None, Inr ()), recordCapBinding (hc_Store hctx) p h (s\<lparr>hs_index := i'\<rparr>))"
    by (simp add: TreeSet_plain)
  from that(1) [OF this] set_ok [OF assms i'] show ?thesis by simp
qed

lemma TreeRemove_effect:
  assumes "inv (hs_index s)"
  obtains k h s' where "TreeRemove P I hctx p op s = ((Some h, None), s')" "key p = Some k" "abs (hs_index s) k = Some h"
      "abs (hs_index s') = (abs (hs_index s))(k := None)" "inv (hs_index s')" "hs_store s' = hs_store s"
  | s' where "TreeRemove P I hctx p op s = ((None, None), s')" "Option.bind (key p) (abs (hs_index s)) = None"
      "abs (hs_index s') = abs (hs_index s)" "inv (hs_index s')" "hs_store s' = hs_store s" "hs_capidx s' = hs_capidx s"
proof -
  obtain r i' where r: "li_Remove I p (hs_index s) = (r, i')" by (cases "li_Remove I p (hs_index s)")
  note eff = remove_abs [OF assms r] get_abs [OF assms, of p]
  show ?thesis
  proof (cases r)
    case None
    then have "abs i' = abs (hs_index s)"
      using eff by (cases "key p") (auto simp: fun_eq_iff)
    moreover have "TreeRemove P I hctx p op s = ((None, None), s\<lparr>hs_index := i'\<rparr>)" using None r by (simp add: TreeRemove_plain)
    ultimately show ?thesis using that(2) None eff by simp
  next
    case (Some h)
    with eff obtain k where "key p = Some k" "abs (hs_index s) k = Some h" by (cases "key p") auto
    moreover have "TreeRemove P I hctx p op s = ((Some h, None), forgetCapBinding (hc_Store hctx) h (s\<lparr>hs_index := i'\<rparr>))"
      using Some r by (simp add: TreeRemove_plain)
    ultimately show ?thesis using that(1) eff by simp
  qed
qed

subsection \<open>Put\<close>

lemma put_remove_effect:
  assumes "inv (hs_index s)" and "put_remove P dflt I hctx p s = (x, s')"
  shows "hs_store s' = hs_store s \<and> inv (hs_index s') \<and>
    (if Option.bind (key p) (abs (hs_index s)) = None
     then x = fail P dflt 404 ''not_found'' \<and> abs (hs_index s') = abs (hs_index s)
     else (\<exists>r. x = Inr r \<and> resp_Status r = 200) \<and> abs (hs_index s') = (abs (hs_index s))(the (key p) := None))"
  using assms(2)
  by (cases rule: TreeRemove_effect [OF assms(1), of P hctx p "''delete''"]) (auto simp: put_remove_def)

text \<open>What is known of an admitted entity: it is stored under the hash it claims.\<close>

lemma admit_valid: "admit P dflt raw = Inr ent \<Longrightarrow> Validate P ent = Inr ()"
  by (auto simp: admit_def split: sum.splits bool.splits)

lemma put_bind_effect:
  assumes "inv (hs_index s)" and "cs_Put C ent (hs_store s) = (Inr h, cs)"
  shows "\<exists>x s'. put_bind P dflt C I hctx p ent s = (x, s') \<and> hs_store s' = cs \<and> inv (hs_index s') \<and>
    (case key p of
       None \<Rightarrow> (\<exists>err. x = Inl err) \<and> abs (hs_index s') = abs (hs_index s)
     | Some k \<Rightarrow> (\<exists>r. x = Inr r \<and> resp_Status r = 200) \<and> abs (hs_index s') = (abs (hs_index s))(k \<mapsto> h))"
proof -
  have "inv (hs_index (s\<lparr>hs_store := cs\<rparr>))" using assms(1) by simp
  then show ?thesis
    by (cases rule: TreeSet_effect [of "s\<lparr>hs_store := cs\<rparr>" P hctx p h "''put''"])
      (use assms in \<open>auto simp: put_bind_def split: option.splits\<close>)
qed

end

interpretation pmem: plain_index MemoryLocationIndex_iface mli_inv mli_abs Some Some
  by unfold_locales (auto simp: mli_ops)

interpretation pns: plain_index "NamespacedIndex_iface (mem_ns ns)" mli_inv mli_abs
  "canonicalizeChecked (mem_ns ns)" "ns_view (mem_ns ns)" for ns
  by unfold_locales
    (auto simp: NamespacedIndex_iface_def ns_SetWithContext_def ns_RemoveWithContext_def ns_Set_def ns_Remove_def
      NewNamespacedIndex_def MemoryLocationIndex_iface_def mli_Set_def split: option.splits prod.splits)

section \<open>What a put does\<close>

abbreviation put_request :: "'p tree_prims_scheme \<Rightarrow> bytes \<Rightarrow> PutRequestData result" where
  "put_request P params \<equiv>
     decode_params (ecf_DecodePutRequest P) \<lparr>pr_Entity = [], pr_ExpectedHash = None, pr_TreeID = []\<rparr> params"

lemma put_check_Inr:
  "put_check P dflt C I hctx params s = Inr (q, path) \<longleftrightarrow>
     put_request P params = Inr q \<and>
     path = ExtractResourcePath hctx \<and> path \<noteq> [] \<and> ValidatePathChars path = Inr () \<and>
     checkPathPerm P C hctx (hs_store s) ''put'' path \<and>
     \<not> cas_refused (pr_ExpectedHash q) (li_Get I path (hs_index s))"
  by (auto simp: put_check_def Let_def split: sum.splits)

lemma put_check_Inl: "put_check P dflt C I hctx params s = Inl x \<Longrightarrow> x = Inr r \<Longrightarrow> resp_Status r \<noteq> 200"
  by (auto simp: put_check_def Let_def split: sum.splits if_splits dest!: NewErrorResponse_status)

lemma admit_Inl: "admit P dflt raw = Inl x \<Longrightarrow> x = Inr r \<Longrightarrow> resp_Status r \<noteq> 200"
  by (auto simp: admit_def split: sum.splits if_splits bool.splits dest!: NewErrorResponse_status)

lemma put_admitted:
  assumes "Validate P ent = Inr ()"
  obtains cs where "cs_Put (MemoryContentStore_iface P) ent c = (Inr (ContentHash ent), cs)"
    "mcs_Get (ContentHash ent) cs = Some ent"
  using assms by (auto simp: Validate_iff mcs_ops)

lemma put_outcome:
  assumes inv: "mli_inv (hs_index s)"
    and run: "put_commit P dflt (MemoryContentStore_iface P) (NamespacedIndex_iface (mem_ns ns)) hctx (q, path) s = (x, s')"
  defines "m \<equiv> mli_abs (hs_index s)" and "k \<equiv> canonicalizeChecked (mem_ns ns) path"
  shows "mli_inv (hs_index s') \<and>
    (if k \<noteq> None \<and> (if pr_Entity q = [] then m (the k) \<noteq> None else \<exists>ent. admit P dflt (pr_Entity q) = Inr ent)
     then (\<exists>r. x = Inr r \<and> resp_Status r = 200) \<and>
       (if pr_Entity q = [] then mli_abs (hs_index s') = m(the k := None) \<and> hs_store s' = hs_store s
        else \<exists>ent. admit P dflt (pr_Entity q) = Inr ent \<and> Validate P ent = Inr () \<and>
          mcs_Get (ContentHash ent) (hs_store s') = Some ent \<and> mli_abs (hs_index s') = m(the k \<mapsto> ContentHash ent))
     else (\<forall>r. x = Inr r \<longrightarrow> resp_Status r \<noteq> 200) \<and> mli_abs (hs_index s') = m)"
proof (cases "pr_Entity q = []")
  case True
  then show ?thesis
    using pns.put_remove_effect [OF inv, of P dflt ns hctx path x s'] run
    by (cases k) (auto simp: put_commit_def m_def k_def dest!: NewErrorResponse_status)
next
  case entity: False
  show ?thesis
  proof (cases "admit P dflt (pr_Entity q)")
    case (Inl r)
    then show ?thesis using entity run inv admit_Inl [OF Inl] by (auto simp: put_commit_def m_def)
  next
    case (Inr ent)
    obtain cs where cs: "cs_Put (MemoryContentStore_iface P) ent (hs_store s) = (Inr (ContentHash ent), cs)"
      "mcs_Get (ContentHash ent) cs = Some ent"
      by (rule put_admitted [OF pns.admit_valid [OF Inr]])
    show ?thesis
      using pns.put_bind_effect [OF inv cs(1), of P dflt ns hctx path] pns.admit_valid [OF Inr] cs(2) Inr run entity
      by (cases k) (auto simp: put_commit_def m_def k_def)
  qed
qed


section \<open>Check and commit are two steps\<close>

text \<open>
  C22. The comparison with \<^verbatim>\<open>expected_hash\<close> does not protect a binding against concurrent requests. Two
  puts of different entities to one path that expect the same binding and are both checked before
  either commits are both answered 200; the second replaces the first without a notice. Checked
  after the first commit, the second is refused, and so is the second of two conditional swaps of
  the index, which \<^verbatim>\<open>handlePut\<close> does not use.
\<close>

theorem put_cas_race:
  fixes P :: "'p tree_prims_scheme" and ns
  defines "C \<equiv> MemoryContentStore_iface P" and "I \<equiv> NamespacedIndex_iface (mem_ns ns)"
  assumes inv: "mli_inv (hs_index s)" and k: "canonicalizeChecked (mem_ns ns) path = Some k"
    and checks: "put_check P dflt C I hctxA paramsA s = Inr (a, path)" "put_check P dflt C I hctxB paramsB s = Inr (b, path)"
    and expect: "pr_ExpectedHash a = Some x" "pr_ExpectedHash b = Some x"
    and ents: "pr_Entity a \<noteq> []" "admit P dflt (pr_Entity a) = Inr eA" "pr_Entity b \<noteq> []" "admit P dflt (pr_Entity b) = Inr eB"
    and new: "ContentHash eA \<noteq> x"
    and commits: "put_commit P dflt C I hctxA (a, path) s = (rA, s1)" "put_commit P dflt C I hctxB (b, path) s1 = (rB, s2)"
  shows "(\<exists>r. rA = Inr r \<and> resp_Status r = 200) \<and> (\<exists>r. rB = Inr r \<and> resp_Status r = 200) \<and>
    mli_abs (hs_index s1) k = Some (ContentHash eA) \<and> mli_abs (hs_index s2) k = Some (ContentHash eB) \<and>
    (\<exists>refused. put_check P dflt C I hctxB paramsB s1 = Inl refused) \<and>
    (\<exists>e. fst (li_CompareAndSwap I path x (ContentHash eB) (hs_index s1)) = Inl e)"
proof -
  have 1: "mli_inv (hs_index s1)" "\<exists>r. rA = Inr r \<and> resp_Status r = 200" "mli_abs (hs_index s1) k = Some (ContentHash eA)"
    using put_outcome [OF inv commits(1) [unfolded C_def I_def]] k ents by auto
  have 2: "\<exists>r. rB = Inr r \<and> resp_Status r = 200" "mli_abs (hs_index s2) k = Some (ContentHash eB)"
    using put_outcome [OF 1(1) commits(2) [unfolded C_def I_def]] k ents by auto
  have get: "li_Get I path (hs_index s1) = Some (ContentHash eA)"
    using nsmem.wrapped.get_abs [OF 1(1), of ns path] k 1(3) by (simp add: I_def)
  have "put_check P dflt C I hctxB paramsB s1 \<noteq> Inr (q, p)" for q p
    using checks(2) expect get new unfolding put_check_Inr by (auto simp: cas_refused_def)
  then have "\<exists>refused. put_check P dflt C I hctxB paramsB s1 = Inl refused"
    by (cases "put_check P dflt C I hctxB paramsB s1") auto
  moreover have "fst (li_CompareAndSwap I path x (ContentHash eB) (hs_index s1)) \<noteq> Inr ()"
    using nsmem.wrapped.cas_iff [OF 1(1), of ns path x] get new by (simp add: I_def)
  then have "\<exists>e. fst (li_CompareAndSwap I path x (ContentHash eB) (hs_index s1)) = Inl e"
    by (cases "fst (li_CompareAndSwap I path x (ContentHash eB) (hs_index s1))") auto
  ultimately show ?thesis using 1 2 by blast
qed

end
