(* ===== verification/Tree_Reads.thy ===== *)
theory Tree_Reads
  imports Tree_Writes
begin

text \<open>
  The reads of the tree handler. A listing is shown to consist of exactly the visible children of
  its prefix, a snapshot to commit to exactly the bindings that the caller may read.
\<close>

section \<open>The children of a prefix\<close>

text \<open>The binding of a child, without deletion markers, and whether something is bound below it.\<close>

definition bound_child :: "'p hash_prims_scheme \<Rightarrow> (string \<rightharpoonup> hash) \<Rightarrow> string \<Rightarrow> string \<Rightarrow> hash option" where
  "bound_child P m q name =
     (if name = [] then None
      else (case m (q @ name) of None \<Rightarrow> None | Some h \<Rightarrow> if IsDeletionMarker P h then None else Some h))"

definition has_nested :: "(string \<rightharpoonup> hash) \<Rightarrow> string \<Rightarrow> string \<Rightarrow> bool" where
  "has_nested m q name \<longleftrightarrow> (\<exists>rest. m (q @ name @ ''/'' @ rest) \<noteq> None)"

text \<open>The same of a list of entries, as the loop of \<^verbatim>\<open>handleListing\<close> collects it.\<close>

definition direct :: "string \<Rightarrow> string \<Rightarrow> LocationEntry \<Rightarrow> bool" where
  "direct q name e \<longleftrightarrow> TrimPrefix (le_Path e) q = name \<and> name \<noteq> [] \<and> slash \<notin> set name"

definition nested :: "string \<Rightarrow> string \<Rightarrow> LocationEntry \<Rightarrow> bool" where
  "nested q name e \<longleftrightarrow> (\<exists>rest. TrimPrefix (le_Path e) q = name @ slash # rest \<and> slash \<notin> set name)"

definition collected :: "string \<Rightarrow> LocationEntry list \<Rightarrow> string \<Rightarrow> childInfo option" where
  "collected q es name =
     (let h = map_option le_Hash (List.find (direct q name) (rev es)); n = list_ex (nested q name) es
      in if h = None \<and> \<not> n then None else Some \<lparr>ci_hash = h, ci_hasChildren = n\<rparr>)"

lemma find_SomeD: "List.find P xs = Some x \<Longrightarrow> x \<in> set xs \<and> P x"
  by (induction xs) (auto split: if_splits)

lemma add_child_get:
  "gm_get (add_child q e children) name =
     (if direct q name e then Some ((child_of children name)\<lparr>ci_hash := Some (le_Hash e)\<rparr>)
      else if nested q name e then Some ((child_of children name)\<lparr>ci_hasChildren := True\<rparr>)
      else gm_get children name)"
proof (cases "cut_slash (TrimPrefix (le_Path e) q)")
  case None
  then have "slash \<notin> set (TrimPrefix (le_Path e) q)" by (simp add: cut_slash_None)
  then show ?thesis using None by (auto simp: add_child_def direct_def nested_def Let_def)
next
  case (Some c)
  obtain a b where c: "c = (a, b)" by (cases c)
  with Some have "TrimPrefix (le_Path e) q = a @ slash # b" "slash \<notin> set a" by (simp_all add: cut_slash_Some)
  then show ?thesis using Some c by (auto simp: add_child_def direct_def nested_def Let_def dest: split_slash_unique)
qed

lemma children_get: "gm_get (fold (add_child q) es []) name = collected q es name"
proof (induction es rule: rev_induct)
  case (snoc e es)
  have ex: "\<not> (direct q name e \<and> nested q name e)" by (auto simp: direct_def nested_def)
  show ?case
    using ex by (auto simp: add_child_get child_of_def snoc.IH collected_def Let_def split: option.splits if_splits)
qed (simp add: collected_def)

lemma children_wf: "gm_wf children \<Longrightarrow> gm_wf (fold (add_child q) es children)"
  by (induction es arbitrary: children) (simp_all add: add_child_def Let_def split: option.splits prod.splits)

text \<open>For a complete listing of a map the two views agree.\<close>

lemma collected_map:
  assumes "lists_under es q m"
  shows "collected q es name =
    (if slash \<in> set name \<or> (name = [] \<or> m (q @ name) = None) \<and> \<not> has_nested m q name then None
     else Some \<lparr>ci_hash = (if name = [] then None else m (q @ name)), ci_hasChildren = has_nested m q name\<rparr>)"
proof -
  have mem: "\<lparr>le_Path = p, le_Hash = h\<rparr> \<in> set es \<longleftrightarrow> m p = Some h \<and> HasPrefix p q" for p h
    using assms by (simp add: lists_under_def)
  have path: "le_Path e = q @ TrimPrefix (le_Path e) q" "m (le_Path e) = Some (le_Hash e)" if "e \<in> set es" for e
    using mem [of "le_Path e" "le_Hash e"] that by (cases e; auto simp: HasPrefix_iff)+
  have n: "list_ex (nested q name) es \<longleftrightarrow> slash \<notin> set name \<and> has_nested m q name"
  proof
    assume "list_ex (nested q name) es"
    then show "slash \<notin> set name \<and> has_nested m q name"
      using path by (fastforce simp: list_ex_iff nested_def has_nested_def)
  next
    assume "slash \<notin> set name \<and> has_nested m q name"
    then obtain rest h where "m (q @ name @ slash # rest) = Some h" "slash \<notin> set name" by (auto simp: has_nested_def)
    then have "\<lparr>le_Path = q @ name @ slash # rest, le_Hash = h\<rparr> \<in> set es"
      "nested q name \<lparr>le_Path = q @ name @ slash # rest, le_Hash = h\<rparr>"
      using mem by (auto simp: nested_def)
    then show "list_ex (nested q name) es" by (auto simp: list_ex_iff)
  qed
  have d: "map_option le_Hash (List.find (direct q name) (rev es)) =
      (if name = [] \<or> slash \<in> set name then None else m (q @ name))"
  proof (cases "List.find (direct q name) (rev es)")
    case None
    then have no: "\<not> direct q name e" if "e \<in> set es" for e using that by (auto simp: find_None_iff)
    have "m (q @ name) = None" if "name \<noteq> []" "slash \<notin> set name"
      using no [of "\<lparr>le_Path = q @ name, le_Hash = the (m (q @ name))\<rparr>"] mem [of "q @ name"] that
      by (cases "m (q @ name)") (auto simp: direct_def)
    then show ?thesis using None by auto
  next
    case (Some e)
    then have "e \<in> set es" "direct q name e" using find_SomeD [OF Some] by simp_all
    then show ?thesis using Some path [of e] by (auto simp: direct_def)
  qed
  show ?thesis unfolding collected_def Let_def n d by auto
qed

definition unmark :: "'p hash_prims_scheme \<Rightarrow> childInfo \<Rightarrow> childInfo option" where
  "unmark P info =
     (case ci_hash info of
        None \<Rightarrow> Some info
      | Some h \<Rightarrow>
          if \<not> IsDeletionMarker P h then Some info
          else if ci_hasChildren info then Some (info\<lparr>ci_hash := None\<rparr>) else None)"

lemma drop_marker_unmark:
  "drop_marker P (n, info) = (case unmark P info of None \<Rightarrow> [] | Some i \<Rightarrow> [(n, i)])"
  by (simp add: drop_marker_def unmark_def split: option.split)

lemma drop_markers:
  assumes "gm_wf children"
  shows "gm_wf (concat (map (drop_marker P) children))"
    and "gm_get (concat (map (drop_marker P) children)) name = Option.bind (gm_get children name) (unmark P)"
proof -
  from assms show "gm_wf (concat (map (drop_marker P) children))"
    by (induction children) (force simp: gm_wf_def drop_marker_unmark split: option.splits)+
  have none: "gm_get cs n = None \<Longrightarrow> gm_get (concat (map (drop_marker P) cs)) n = None" for cs n
    by (induction cs) (auto simp: gm_get_def drop_marker_unmark split: option.splits if_splits)
  show "gm_get (concat (map (drop_marker P) children)) name = Option.bind (gm_get children name) (unmark P)"
    using assms
  proof (induction children)
    case (Cons c children)
    obtain n info where c: "c = (n, info)" by (cases c)
    have "gm_get children n = None" using Cons.prems c by (simp add: gm_get_def gm_wf_def map_of_eq_None_iff)
    then have "gm_get (concat (map (drop_marker P) children)) n = None" by (rule none)
    with Cons c show ?case
      by (auto simp: drop_marker_unmark gm_wf_def gm_get_def split: option.splits)
  qed simp
qed

lemma gm_filter_keys:
  "gm_wf m \<Longrightarrow> gm_wf (filter (\<lambda>(k, v). Q k) m)"
  "gm_get (filter (\<lambda>(k, v). Q k) m) k = (if Q k then gm_get m k else None)"
  by (induction m) (auto simp: gm_wf_def gm_get_def image_iff)

section \<open>Listings are exact\<close>

definition visible_names :: "'p hash_prims_scheme \<Rightarrow> (string \<Rightarrow> bool) \<Rightarrow> (string \<rightharpoonup> hash) \<Rightarrow> string \<Rightarrow> string set" where
  "visible_names P ok m q =
     {name. slash \<notin> set name \<and> ok (q @ name) \<and> (bound_child P m q name \<noteq> None \<or> has_nested m q name)}"

lemma visible_children_get:
  assumes "lists_under (li_List I pre (hs_index s)) q m" and "listing_prefix (hc_LocalPeerID hctx) pre = q"
  shows "gm_wf (visible_children P C I hctx pre s)"
    and "gm_get (visible_children P C I hctx pre s) name =
      (if name \<in> visible_names P (checkPathPerm P C hctx (hs_store s) ''get'') m q
       then Some \<lparr>ci_hash = bound_child P m q name, ci_hasChildren = has_nested m q name\<rparr> else None)"
proof -
  let ?ch = "fold (add_child q) (li_List I pre (hs_index s)) []"
  have wf: "gm_wf ?ch" by (simp add: children_wf)
  show "gm_wf (visible_children P C I hctx pre s)"
    unfolding visible_children_def Let_def assms(2) by (intro gm_filter_keys(1) drop_markers(1) wf)
  show "gm_get (visible_children P C I hctx pre s) name =
      (if name \<in> visible_names P (checkPathPerm P C hctx (hs_store s) ''get'') m q
       then Some \<lparr>ci_hash = bound_child P m q name, ci_hasChildren = has_nested m q name\<rparr> else None)"
    unfolding visible_children_def Let_def assms(2) gm_filter_keys(2) drop_markers(2) [OF wf] children_get
      collected_map [OF assms(1)]
    by (auto simp: visible_names_def bound_child_def unmark_def split: option.splits if_splits)
qed

lemma sort_keys:
  assumes "gm_wf m"
  shows "sort (map fst m) = sorted_list_of_set (dom (gm_get m))"
proof -
  have "dom (gm_get m) = set (map fst m)" by (auto simp: gm_get_def [abs_def] dom_map_of_conv_image_fst)
  moreover have "sorted_list_of_set (set (map fst m)) = sort (map fst m)"
    using assms sorted_list_of_set_sort_remdups [of "map fst m"] unfolding gm_wf_def by (simp only: distinct_remdups_id)
  ultimately show ?thesis by simp
qed

lemma listing_spec:
  fixes P :: "'p cap_prims_scheme" and C :: "'c ContentStore" and getReq :: GetRequestData
  assumes "lists_under (li_List I pre (hs_index s)) q m" and "listing_prefix (hc_LocalPeerID hctx) pre = q"
  defines "V \<equiv> visible_names P (checkPathPerm P C hctx (hs_store s) ''get'') m q"
    and "L \<equiv> listing P C I hctx pre getReq s"
  shows "finite V" and "ld_Count L = of_nat (card V)"
    and "map fst (ld_Entries L) = page (gr_Offset getReq) (gr_Limit getReq) (sorted_list_of_set V)"
    and "(name, e) \<in> set (ld_Entries L) \<Longrightarrow>
      e = \<lparr>lst_hash = map_option hash_Bytes (bound_child P m q name), lst_has_children = has_nested m q name\<rparr>"
proof -
  let ?ch = "visible_children P C I hctx pre s"
  note ch = visible_children_get [OF assms(1,2), of P C, folded V_def]
  have dom: "dom (gm_get ?ch) = V" using ch(2) by (auto split: if_splits)
  show fin: "finite V" using gm_dom [OF ch(1)] dom by simp
  have names: "sort (map fst ?ch) = sorted_list_of_set V" using sort_keys [OF ch(1)] dom by simp
  have len: "length (map fst ?ch) = card V" using gm_dom [OF ch(1)] dom by simp
  show "ld_Count L = of_nat (card V)" using len by (simp add: L_def listing_def Let_def)
  show "map fst (ld_Entries L) = page (gr_Offset getReq) (gr_Limit getReq) (sorted_list_of_set V)"
    by (simp add: L_def listing_def Let_def names comp_def)
  assume mem: "(name, e) \<in> set (ld_Entries L)"
  have "set (page a b ns) \<subseteq> set ns" for a b and ns :: "string list"
    by (auto simp: page_def Let_def split: option.splits if_splits dest: in_set_takeD in_set_dropD)
  with mem have "name \<in> V" using fin unfolding L_def listing_def Let_def names by fastforce
  then have "child_of ?ch name = \<lparr>ci_hash = bound_child P m q name, ci_hasChildren = has_nested m q name\<rparr>"
    using ch(2) by (simp add: child_of_def)
  with mem show "e = \<lparr>lst_hash = map_option hash_Bytes (bound_child P m q name), lst_has_children = has_nested m q name\<rparr>"
    by (auto simp: L_def listing_def Let_def)
qed

lemma ns_lists_under:
  assumes "mli_inv i" and "canonicalizeChecked (mem_ns ns) pre = Some q" and "pre \<noteq> []"
  shows "lists_under (li_List (NamespacedIndex_iface (mem_ns ns)) pre i) q (mli_abs i)" and "listing_prefix ns pre = q"
proof -
  have "ValidateAbsolutePath ''/'' \<noteq> Inr ()" by (simp add: ValidateAbsolutePath_def split: sum.splits)
  then have "pre \<noteq> ''/''" using assms(2) by (auto simp: canonicalizeChecked_Some canonicalize_def)
  then show "lists_under (li_List (NamespacedIndex_iface (mem_ns ns)) pre i) q (mli_abs i)"
    using nsmem.wrapped.list_abs [OF assms(1), of ns pre q] assms(2,3) by (simp add: ns_view_def)
  show "listing_prefix ns pre = q"
    using assms(2) by (auto simp: canonicalizeChecked_Some canonicalize_def listing_prefix_def QualifyPath_def NewNamespacedIndex_def)
qed

abbreviation get_request :: "'p tree_prims_scheme \<Rightarrow> bytes \<Rightarrow> GetRequestData result" where
  "get_request P params \<equiv>
     decode_params (ecf_DecodeGetRequest P) \<lparr>gr_TreeID = [], gr_Mode = [], gr_Limit = None, gr_Offset = None\<rparr> params"


section \<open>Snapshots commit to what the caller may read\<close>

definition readable :: "(string \<Rightarrow> bool) \<Rightarrow> (string \<rightharpoonup> hash) \<Rightarrow> string \<Rightarrow> (string \<rightharpoonup> hash)" where
  "readable ok m q = (\<lambda>k. if k = [] \<or> \<not> ok (q @ k) then None else m (q @ k))"

lemma relative_bindings_map:
  assumes "lists_under es q m"
  shows "map_of (rev (relative_bindings ok q es)) = readable ok m q"
    and "(k, v) \<in> set (relative_bindings ok q es) \<longleftrightarrow> readable ok m q k = Some v"
proof -
  have mem: "\<lparr>le_Path = p, le_Hash = h\<rparr> \<in> set es \<longleftrightarrow> m p = Some h \<and> HasPrefix p q" for p h
    using assms by (simp add: lists_under_def)
  have sorted: "sorted_wrt (<) (map le_Path es)" using assms by (simp add: lists_under_def)
  have path: "le_Path e = q @ TrimPrefix (le_Path e) q" "m (le_Path e) = Some (le_Hash e)" if "e \<in> set es" for e
    using mem [of "le_Path e" "le_Hash e"] that by (cases e; auto simp: HasPrefix_iff)+
  show set: "(k, v) \<in> set (relative_bindings ok q es) \<longleftrightarrow> readable ok m q k = Some v" for k v
  proof
    assume "(k, v) \<in> set (relative_bindings ok q es)"
    then obtain e where "e \<in> set es" "k = TrimPrefix (le_Path e) q" "v = le_Hash e" "k \<noteq> []" "ok (le_Path e)"
      by (auto simp: relative_bindings_def)
    then show "readable ok m q k = Some v" using path [of e] by (simp add: readable_def)
  next
    assume "readable ok m q k = Some v"
    then have "m (q @ k) = Some v" "k \<noteq> []" "ok (q @ k)" by (auto simp: readable_def split: if_splits)
    then have "\<lparr>le_Path = q @ k, le_Hash = v\<rparr> \<in> set es" using mem by simp
    then show "(k, v) \<in> set (relative_bindings ok q es)"
      using \<open>k \<noteq> []\<close> \<open>ok (q @ k)\<close> by (force simp: relative_bindings_def)
  qed
  have inj: "inj_on (\<lambda>e. TrimPrefix (le_Path e) q) (set es)"
    using path sorted by (auto simp: inj_on_def) (metis distinct_map inj_on_eq_iff strict_sorted_iff)
  have "distinct es" using sorted by (metis distinct_map strict_sorted_iff)
  then have "distinct (map fst (relative_bindings ok q es))"
    by (auto simp: relative_bindings_def comp_def distinct_map intro: inj_on_subset [OF inj])
  then have "distinct (map fst (rev (relative_bindings ok q es)))" by (simp add: rev_map [symmetric])
  from map_of_eq_Some_iff [OF this] set show "map_of (rev (relative_bindings ok q es)) = readable ok m q"
    by (intro ext option.expand) (metis option.collapse option.distinct(1) set_rev)+
qed

text \<open>The prefix of a listing in the qualified form that \<^verbatim>\<open>handleSnapshot\<close> trims.\<close>

lemma relative_prefix:
  assumes "canonicalizeChecked (mem_ns ns) pre = Some q" and "\<not> HasPrefix pre ''/''"
  shows "QualifyPath ns pre = q"
  using assms by (auto simp: canonicalizeChecked_Some canonicalize_def QualifyPath_def NewNamespacedIndex_def)

abbreviation snapshot_request :: "'p tree_prims_scheme \<Rightarrow> bytes \<Rightarrow> SnapshotRequestData result" where
  "snapshot_request P params \<equiv> decode_params (ecf_DecodeSnapshotRequest P) \<lparr>sr_Prefix = [], sr_TreeID = []\<rparr> params"

text \<open>
  C19. A snapshot commits to exactly the bindings that the caller may read. Of a relative prefix, taken
  under a capability or without a tracker, the root that is answered stands in the content store
  for the map of the bindings under the prefix that the capability covers, with their relative keys;
  the index is left alone. With the exact difference of two roots this is why \<^verbatim>\<open>diff\<close> needs no check of paths.
\<close>

theorem handleSnapshot_confined:
  assumes prims: "trie_prims_ok P good"
    and ctx: "req_Context req = Some hctx" "hc_Store hctx = Some (MemoryContentStore_iface P)"
      "hc_LocationIndex hctx = Some (NamespacedIndex_iface (mem_ns ns))" "hc_LocalPeerID hctx = ns"
    and inv: "mli_inv (hs_index s)"
    and scoped: "tracker = None \<or> \<not> IsZero (ContentHash (hc_CallerCapability hctx))"
    and pre: "snapshot_request P (Data (req_Params req)) = Inr snapReq" "request_prefix hctx (sr_Prefix snapReq) = pre"
      "pre \<noteq> []" "\<not> HasPrefix pre ''/''" "canonicalizeChecked (mem_ns ns) pre = Some q"
    and good: "\<forall>k v. mli_abs (hs_index s) (q @ k) = Some v \<longrightarrow> good k \<and> hash_good v"
    and run: "handleSnapshot P dflt tracker req s = (Inr r, s')" "resp_Status r = 200"
    and no_collision: "BuildTrie P dflt (guarded (MemoryContentStore_iface P))
        (relative_bindings (checkPathPerm P (MemoryContentStore_iface P) hctx (hs_store s) ''get'') q
           (li_List (NamespacedIndex_iface (mem_ns ns)) pre (hs_index s))) (hs_store s) = (Inr root, c)"
  shows "SnapshotData_ToEntity P dflt \<lparr>sn_Root = root\<rparr> = Inr (resp_Result r) \<and> s' = s\<lparr>hs_store := c\<rparr> \<and>
    trie_root P dflt (MemoryContentStore_iface P) (hs_store s') root
      (readable (checkPathPerm P (MemoryContentStore_iface P) hctx (hs_store s) ''get'') (mli_abs (hs_index s)) q)"
proof -
  let ?C = "MemoryContentStore_iface P"
  let ?bs = "relative_bindings (checkPathPerm P ?C hctx (hs_store s) ''get'') q
     (li_List (NamespacedIndex_iface (mem_ns ns)) pre (hs_index s))"
  note ls = ns_lists_under(1) [OF inv pre(5) pre(3)]
  have "good k \<and> hash_good v" if "(k, v) \<in> set ?bs" for k v
    using that good unfolding relative_bindings_map(2) [OF ls] by (auto simp: readable_def split: if_splits)
  note built = BuildTrie_root [OF prims this no_collision]
  have root: "snapshot_root P dflt tracker ?C (NamespacedIndex_iface (mem_ns ns)) hctx pre s = (Inr root, s\<lparr>hs_store := c\<rparr>)"
    using scoped built(1) ctx(4) relative_prefix [OF pre(5,4)]
    by (auto simp: snapshot_root_def Let_def IsZero_def split: option.splits)
  have "SnapshotData_ToEntity P dflt \<lparr>sn_Root = root\<rparr> = Inr (resp_Result r) \<and> s' = s\<lparr>hs_store := c\<rparr>"
    using run pre(1,2) ctx(1-3) root
    by (auto simp: handleSnapshot_def Let_def split: if_splits sum.splits dest!: NewErrorResponse_status)
  then show ?thesis using built(2) relative_bindings_map(1) [OF ls] by simp
qed

text \<open>
  An absolute prefix is trimmed by its relative form, which no entry starts with: the keys of such a
  snapshot are the absolute paths. \<^verbatim>\<open>handleListing\<close> and \<^verbatim>\<open>BuildTrieForPrefix\<close> tell the two apart.
\<close>

lemma Contains_middle: "Contains (a @ sub @ b) sub"
proof (induction a)
  case Nil
  have "HasPrefix (sub @ b) sub" by (simp add: HasPrefix_iff)
  then show ?case by (cases "sub @ b") auto
next
  case (Cons c a)
  then show ?case by simp
qed

lemma absolute_prefix_untrimmed:
  assumes "HasPrefix pre ''/''" and "\<And>e. e \<in> set es \<Longrightarrow> ValidateAbsolutePath (le_Path e) = Inr ()"
  shows "relative_bindings ok (QualifyPath ns pre) es = map (\<lambda>e. (le_Path e, le_Hash e)) (filter (\<lambda>e. ok (le_Path e)) es)"
proof -
  have "\<not> HasPrefix p (QualifyPath ns pre) \<and> p \<noteq> []" if "ValidateAbsolutePath p = Inr ()" for p
  proof -
    have "\<not> Contains (drop 1 p) ''//''" "HasPrefix p ''/''"
      using that by (auto simp: ValidateAbsolutePath_def Let_def split: if_splits sum.splits)
    then show ?thesis
      using assms(1) Contains_middle [of ns "''//''"] by (fastforce simp: QualifyPath_def HasPrefix_iff)
  qed
  then have "TrimPrefix (le_Path e) (QualifyPath ns pre) = le_Path e \<and> le_Path e \<noteq> []" if "e \<in> set es" for e
    using assms(2) [OF that] by (simp add: TrimPrefix_def)
  then show ?thesis unfolding relative_bindings_def by (induction es) auto
qed

section \<open>The root listing\<close>

text \<open>
  The listing of the root trims every entry by the local namespace although the index lists all
  namespaces: as soon as one path of another peer is bound, the listing shows a child with the
  empty name, which claims to have children.
\<close>

theorem root_listing_empty_name:
  assumes inv: "mli_inv (hs_index s)" and ns: "hc_LocalPeerID hctx = ns"
    and foreign: "mli_abs (hs_index s) (''/'' @ p) = Some h" "\<not> HasPrefix (''/'' @ p) (''/'' @ ns @ ''/'')"
    and perm: "checkPathPerm P C hctx (hs_store s) ''get'' (''/'' @ ns @ ''/'')"
    and all: "gr_Offset getReq = None" "gr_Limit getReq = None"
  shows "\<exists>e. ([], e) \<in> set (ld_Entries (listing P C (NamespacedIndex_iface (mem_ns ns)) hctx [] getReq s)) \<and> lst_has_children e"
proof -
  let ?I = "NamespacedIndex_iface (mem_ns ns)" and ?q = "''/'' @ ns @ ''/''"
  let ?es = "li_List ?I [] (hs_index s)" and ?ch = "visible_children P C (NamespacedIndex_iface (mem_ns ns)) hctx [] s"
  have "lists_under ?es [] (mli_abs (hs_index s))"
    using nsmem.wrapped.list_abs [OF inv, of ns "[]" "[]"] by (simp add: ns_view_def)
  then have "\<lparr>le_Path = ''/'' @ p, le_Hash = h\<rparr> \<in> set ?es" using foreign by (simp add: lists_under_def)
  moreover have "nested ?q [] \<lparr>le_Path = ''/'' @ p, le_Hash = h\<rparr>"
    using foreign(2) by (simp add: nested_def TrimPrefix_def)
  ultimately have "list_ex (nested ?q []) ?es" by (auto simp: list_ex_iff)
  then obtain info where info: "collected ?q ?es [] = Some info" "ci_hasChildren info" by (auto simp: collected_def Let_def)
  have wf: "gm_wf (fold (add_child ?q) ?es [])" by (simp add: children_wf)
  have q: "listing_prefix (hc_LocalPeerID hctx) [] = ?q" using ns by (simp add: listing_prefix_def QualifyPath_def HasPrefix_def)
  have "\<exists>info'. unmark P info = Some info' \<and> ci_hasChildren info'"
    using info(2) by (auto simp: unmark_def split: option.split)
  then have "\<exists>info'. gm_get ?ch [] = Some info' \<and> ci_hasChildren info'"
    unfolding visible_children_def Let_def q gm_filter_keys(2) drop_markers(2) [OF wf] children_get
    using info(1) perm by simp
  then obtain info' where get: "gm_get ?ch [] = Some info'" "ci_hasChildren info'" by blast
  then have "[] \<in> fst ` set ?ch" by (force dest: gm_get_mem)
  moreover have "ci_hasChildren (child_of ?ch [])" using get by (simp add: child_of_def)
  ultimately show ?thesis using all by (auto simp: listing_def Let_def page_def image_iff)
qed

end
