(* ===== verification/Tree_Merge.thy ===== *)
theory Tree_Merge
  imports Tree_Reads
begin

text \<open>
  The merge of a snapshot into the tree: what it writes under each strategy, that it is checked as a
  whole before it writes, and that a dry run tells what the real run does.
\<close>

section \<open>One binding\<close>

definition merged :: "string \<Rightarrow> hash option \<Rightarrow> hash \<Rightarrow> hash" where
  "merged strategy existing incoming =
     (case existing of
        None \<Rightarrow> incoming
      | Some e \<Rightarrow> if strategy = ''source-wins'' then incoming else e)"

text \<open>What a merge notes of a binding, given the binding it meets.\<close>

definition merge_note :: "string \<Rightarrow> string \<Rightarrow> hash option \<Rightarrow> hash \<Rightarrow> merge_state \<Rightarrow> merge_state" where
  "merge_note strategy targetPath existing incoming m =
     (case existing of
        None \<Rightarrow> m\<lparr>ms_applied := ms_applied m + 1\<rparr>
      | Some e \<Rightarrow>
          if e = incoming then m\<lparr>ms_skipped := ms_skipped m + 1\<rparr>
          else if strategy = ''source-wins'' then
            note_conflict targetPath e incoming ''used-incoming'' (m\<lparr>ms_applied := ms_applied m + 1\<rparr>)
          else if strategy = ''target-wins'' then
            note_conflict targetPath e incoming ''kept-existing'' (m\<lparr>ms_skipped := ms_skipped m + 1\<rparr>)
          else note_conflict targetPath e incoming ''unresolved'' (m\<lparr>ms_skipped := ms_skipped m + 1\<rparr>))"

abbreviation merge_notes ::
  "string \<Rightarrow> (string \<Rightarrow> hash option) \<Rightarrow> (string \<Rightarrow> string) \<Rightarrow> (string \<times> hash) list \<Rightarrow> merge_state \<Rightarrow> merge_state" where
  "merge_notes strategy existing target bs \<equiv>
     fold (\<lambda>(rel, incoming). merge_note strategy (target rel) (existing (target rel)) incoming) bs"

lemma merge_dry:
  "merge_loop P I hctx strategy True target bs m s =
     (Inr (merge_notes strategy (\<lambda>p. li_Get I p (hs_index s)) target bs m), s)"
  by (induction bs arbitrary: m)
    (auto simp: merge_binding_def merge_set_def merge_note_def split: option.splits)

section \<open>The loop\<close>

context plain_index
begin

lemma merge_binding_effect:
  assumes inv: "inv (hs_index s)" and key: "key p = Some k"
  obtains s' where
    "merge_binding P I hctx strategy False p incoming m s =
       (Inr (merge_note strategy p (abs (hs_index s) k) incoming m), s')"
    "abs (hs_index s') = (abs (hs_index s))(k \<mapsto> merged strategy (abs (hs_index s) k) incoming)"
    "inv (hs_index s')" "hs_store s' = hs_store s"
proof -
  have get: "li_Get I p (hs_index s) = abs (hs_index s) k" using get_abs [OF inv, of p] key by simp
  show ?thesis
  proof (cases "abs (hs_index s) k = None \<or> strategy = ''source-wins'' \<and> abs (hs_index s) k \<noteq> Some incoming")
    case True
    show ?thesis
    proof (cases rule: TreeSet_effect [OF inv, of P hctx p incoming "''merge''"])
      case (1 s')
      with True get key show ?thesis
        by (intro that [of s']) (auto simp: merge_binding_def merge_set_def merge_note_def merged_def split: option.splits)
    qed (use key in simp)
  next
    case False
    then have "(abs (hs_index s))(k \<mapsto> merged strategy (abs (hs_index s) k) incoming) = abs (hs_index s)"
      by (auto simp: merged_def fun_eq_iff)
    with False get inv show ?thesis
      by (intro that [of s]) (auto simp: merge_binding_def merge_note_def split: option.splits)
  qed
qed

text \<open>
  With valid targets that name different keys the loop runs to its end. It notes what the dry run
  notes, and every key is bound to what the strategy says of the old binding and the incoming one.
\<close>

lemma merge_loop_effect:
  assumes "inv (hs_index s)" and "\<forall>(rel, h) \<in> set bs. key (target rel) \<noteq> None"
    and "distinct (map (\<lambda>(rel, h). key (target rel)) bs)"
  shows "\<exists>s'. merge_loop P I hctx strategy False target bs m s =
       (Inr (merge_notes strategy (\<lambda>p. li_Get I p (hs_index s)) target bs m), s') \<and>
     (\<forall>(rel, h) \<in> set bs. abs (hs_index s') (the (key (target rel))) =
        Some (merged strategy (abs (hs_index s) (the (key (target rel)))) h)) \<and>
     (\<forall>k. Some k \<notin> (\<lambda>(rel, h). key (target rel)) ` set bs \<longrightarrow> abs (hs_index s') k = abs (hs_index s) k) \<and>
     inv (hs_index s') \<and> hs_store s' = hs_store s"
  using assms
proof (induction bs arbitrary: m s)
  case Nil
  then show ?case by simp
next
  case (Cons b bs)
  obtain rel incoming where b: "b = (rel, incoming)" by (cases b)
  obtain k where k: "key (target rel) = Some k" using Cons.prems(2) b by auto
  obtain s1 where s1: "merge_binding P I hctx strategy False (target rel) incoming m s =
       (Inr (merge_note strategy (target rel) (abs (hs_index s) k) incoming m), s1)"
    "abs (hs_index s1) = (abs (hs_index s))(k \<mapsto> merged strategy (abs (hs_index s) k) incoming)"
    "inv (hs_index s1)" "hs_store s1 = hs_store s"
    by (rule merge_binding_effect [OF Cons.prems(1) k])
  have fresh: "key (target r) \<noteq> Some k" if "(r, h) \<in> set bs" for r h
    using Cons.prems(3) that k b by (force simp: image_iff)
  let ?m1 = "merge_note strategy (target rel) (abs (hs_index s) k) incoming m"
  obtain s2 where s2: "merge_loop P I hctx strategy False target bs ?m1 s1 =
       (Inr (merge_notes strategy (\<lambda>p. li_Get I p (hs_index s1)) target bs ?m1), s2)"
    and set2: "\<forall>(rel, h) \<in> set bs. abs (hs_index s2) (the (key (target rel))) =
       Some (merged strategy (abs (hs_index s1) (the (key (target rel)))) h)"
    and rest2: "\<And>k. Some k \<notin> (\<lambda>(rel, h). key (target rel)) ` set bs \<Longrightarrow> abs (hs_index s2) k = abs (hs_index s1) k"
    and inv2: "inv (hs_index s2)" "hs_store s2 = hs_store s1"
    using Cons.IH [OF s1(3), of ?m1] Cons.prems(2,3) b by auto
  have key: "\<exists>k'. key (target r) = Some k' \<and> k' \<noteq> k" if "(r, h) \<in> set bs" for r h
    using fresh [OF that] Cons.prems(2) that by (cases "key (target r)") auto
  have same: "abs (hs_index s1) (the (key (target r))) = abs (hs_index s) (the (key (target r)))"
    "li_Get I (target r) (hs_index s1) = li_Get I (target r) (hs_index s)" if "(r, h) \<in> set bs" for r h
    using key [OF that] s1(2) get_abs [OF s1(3), of "target r"] get_abs [OF Cons.prems(1), of "target r"] by auto
  have noted: "merge_notes strategy (\<lambda>p. li_Get I p (hs_index s1)) target bs m' =
      merge_notes strategy (\<lambda>p. li_Get I p (hs_index s)) target bs m'" for m'
    by (rule fold_cong) (auto simp: same)
  have head: "li_Get I (target rel) (hs_index s) = abs (hs_index s) k" using get_abs [OF Cons.prems(1), of "target rel"] k by simp
  show ?case
  proof (intro exI [of _ s2] conjI)
    show "merge_loop P I hctx strategy False target (b # bs) m s =
       (Inr (merge_notes strategy (\<lambda>p. li_Get I p (hs_index s)) target (b # bs) m), s2)"
      using s1(1) s2 by (simp add: b noted head)
    show "inv (hs_index s2)" "hs_store s2 = hs_store s" using inv2 s1 by simp_all
    have "Some k \<notin> (\<lambda>(rel, h). key (target rel)) ` set bs" using fresh by fastforce
    then have "abs (hs_index s2) k = Some (merged strategy (abs (hs_index s) k) incoming)" using rest2 s1(2) by simp
    moreover have "\<forall>(r, h) \<in> set bs. abs (hs_index s2) (the (key (target r))) =
        Some (merged strategy (abs (hs_index s) (the (key (target r)))) h)"
      using set2 same(1) by fastforce
    ultimately show "\<forall>(r, h) \<in> set (b # bs). abs (hs_index s2) (the (key (target r))) =
        Some (merged strategy (abs (hs_index s) (the (key (target r)))) h)"
      using b k by simp
    show "\<forall>k'. Some k' \<notin> (\<lambda>(rel, h). key (target rel)) ` set (b # bs) \<longrightarrow> abs (hs_index s2) k' = abs (hs_index s) k'"
      using rest2 s1(2) k b by auto
  qed
qed

end

section \<open>The notes of a merge\<close>

definition applies :: "string \<Rightarrow> hash option \<Rightarrow> hash \<Rightarrow> bool" where
  "applies strategy existing incoming \<longleftrightarrow>
     existing = None \<or> strategy = ''source-wins'' \<and> existing \<noteq> Some incoming"

definition resolution :: "string \<Rightarrow> string" where
  "resolution strategy =
     (if strategy = ''source-wins'' then ''used-incoming''
      else if strategy = ''target-wins'' then ''kept-existing'' else ''unresolved'')"

definition conflict :: "string \<Rightarrow> hash option \<Rightarrow> hash \<Rightarrow> MergeConflictData option" where
  "conflict strategy existing incoming =
     (case existing of
        None \<Rightarrow> None
      | Some e \<Rightarrow>
          if e = incoming then None
          else Some \<lparr>mc_ExistingHash = e, mc_IncomingHash = incoming, mc_Resolution = resolution strategy\<rparr>)"

lemma merge_note_fields:
  "ms_applied (merge_note strategy p e h m) = ms_applied m + (if applies strategy e h then 1 else 0)"
  "ms_skipped (merge_note strategy p e h m) = ms_skipped m + (if applies strategy e h then 0 else 1)"
  "ms_incomplete (merge_note strategy p e h m) = ms_incomplete m"
  "gm_get (ms_conflicts (merge_note strategy p e h m)) p' =
     (if p' = p \<and> conflict strategy e h \<noteq> None then conflict strategy e h else gm_get (ms_conflicts m) p')"
  by (auto simp: merge_note_def applies_def note_conflict_def conflict_def resolution_def split: option.split)

lemma merge_notes_fields:
  "ms_applied (merge_notes strategy existing target bs m) =
     ms_applied m + of_nat (length (filter (\<lambda>(rel, h). applies strategy (existing (target rel)) h) bs))"
  "ms_skipped (merge_notes strategy existing target bs m) =
     ms_skipped m + of_nat (length (filter (\<lambda>(rel, h). \<not> applies strategy (existing (target rel)) h) bs))"
  "ms_incomplete (merge_notes strategy existing target bs m) = ms_incomplete m"
  by (induction bs arbitrary: m) (auto simp: merge_note_fields)

lemma merge_notes_other:
  "p \<notin> target ` fst ` set bs \<Longrightarrow>
     gm_get (ms_conflicts (merge_notes strategy existing target bs m)) p = gm_get (ms_conflicts m) p"
  by (induction bs arbitrary: m) (auto simp: merge_note_fields)

lemma merge_notes_conflict:
  assumes "distinct (map (target \<circ> fst) bs)" and "(rel, h) \<in> set bs" and "gm_get (ms_conflicts m) (target rel) = None"
  shows "gm_get (ms_conflicts (merge_notes strategy existing target bs m)) (target rel) =
    conflict strategy (existing (target rel)) h"
  using assms
proof (induction bs arbitrary: m)
  case (Cons b bs)
  obtain r i where b: "b = (r, i)" by (cases b)
  let ?m1 = "merge_note strategy (target r) (existing (target r)) i m"
  show ?case
  proof (cases "(rel, h) \<in> set bs")
    case True
    then have "target rel \<noteq> target r" using Cons.prems(1) b by (force simp: image_iff)
    then have "gm_get (ms_conflicts ?m1) (target rel) = None" using Cons.prems(3) by (simp add: merge_note_fields)
    with Cons True b show ?thesis by simp
  next
    case False
    then have "rel = r" "h = i" using Cons.prems(2) b by auto
    moreover have "target r \<notin> target ` fst ` set bs" using Cons.prems(1) b by (simp add: image_comp)
    ultimately show ?thesis using Cons.prems(3) b by (simp add: merge_notes_other merge_note_fields)
  qed
qed simp

section \<open>The pre-check\<close>

lemma merge_precheck_None:
  "merge_precheck P dflt C hctx target cs rels = None \<longleftrightarrow>
     (\<forall>rel \<in> set rels. ValidateAbsolutePath (Canonicalize (target rel) (hc_LocalPeerID hctx)) = Inr () \<and>
        checkPathPerm P C hctx cs ''put'' (target rel))"
  by (induction rels) auto

lemma merge_precheck_Some:
  "merge_precheck P dflt C hctx target cs rels = Some x \<Longrightarrow> x = Inr r \<Longrightarrow> resp_Status r \<in> {400, 403}"
  by (induction rels) (auto split: if_splits dest!: NewErrorResponse_status)

section \<open>Merges are checked as a whole and exact\<close>

lemma source_bindings:
  assumes "trie_root P dflt C c h m" and "MaxLevel \<le> fuel + 1"
  obtains bs where "CollectAllBindings fuel P C c h [] = Some bs" "gm_get bs = m" "gm_wf bs"
proof -
  obtain bs where bs: "CollectAllBindings fuel P C c h [] = Some bs" "gm_get bs = m"
    by (rule CollectAllBindings_correct [OF assms])
  moreover have "gm_wf bs"
    using bs(1) by (rule CollectAllBindings_wf)
  ultimately show ?thesis by (rule that)
qed

text \<open>Sizes of parts of a Go map as sizes of parts of its domain.\<close>

lemma gm_filter_card:
  assumes "gm_wf bs"
  shows "length (filter (\<lambda>(k, v). Q k v) bs) = card {k. \<exists>v. gm_get bs k = Some v \<and> Q k v}"
proof -
  have "{k. \<exists>v. gm_get bs k = Some v \<and> Q k v} = set (map fst (filter (\<lambda>(k, v). Q k v) bs))"
    using gm_get_iff [OF assms] by force
  moreover have "distinct (map fst (filter (\<lambda>(k, v). Q k v) bs))" using assms by (simp add: gm_wf_def distinct_map_filter)
  ultimately show ?thesis by (metis distinct_card length_map)
qed

abbreviation merge_request :: "'p tree_prims_scheme \<Rightarrow> bytes \<Rightarrow> MergeRequestData result" where
  "merge_request P params \<equiv> decode_params (ecf_DecodeMergeRequest P)
     \<lparr>mq_Source = zero_hash, mq_SourceEnvelope = [], mq_TargetTree = [], mq_Strategy = [],
      mq_SourcePrefix = [], mq_TargetPrefix = [], mq_DryRun = None\<rparr> params"

abbreviation merge_target :: "MergeRequestData \<Rightarrow> string \<Rightarrow> string" where
  "merge_target mq rel \<equiv> applyPrefix rel (mq_SourcePrefix mq) (mq_TargetPrefix mq)"

abbreviation merge_strategy :: "MergeRequestData \<Rightarrow> string" where
  "merge_strategy mq \<equiv> (if mq_Strategy mq = [] then ''no-overwrite'' else mq_Strategy mq)"

lemma inj_applyPrefix: "inj (\<lambda>rel. applyPrefix rel a b)"
  by (auto simp: inj_on_def applyPrefix_def)

text \<open>The run of the loop over the bindings of the source, real or dry.\<close>

lemma merge_run:
  fixes target
  assumes inv: "mli_inv (hs_index s)" and bs: "gm_get bs = m" "gm_wf bs"
    and targets: "\<forall>rel \<in> dom m. canonicalizeChecked (mem_ns ns) (target rel) \<noteq> None"
      "inj_on (\<lambda>rel. canonicalizeChecked (mem_ns ns) (target rel)) (dom m)"
  defines "k \<equiv> \<lambda>rel. the (canonicalizeChecked (mem_ns ns) (target rel))" and "b \<equiv> mli_abs (hs_index s)"
  shows "\<exists>M s'. merge_loop P (NamespacedIndex_iface (mem_ns ns)) hctx strategy dry target bs
        \<lparr>ms_applied = 0, ms_skipped = 0, ms_conflicts = [], ms_incomplete = []\<rparr> s = (Inr M, s') \<and>
    ms_applied M = of_nat (card {rel. \<exists>h. m rel = Some h \<and> applies strategy (b (k rel)) h}) \<and>
    ms_skipped M = of_nat (card {rel. \<exists>h. m rel = Some h \<and> \<not> applies strategy (b (k rel)) h}) \<and>
    (\<forall>rel h. m rel = Some h \<longrightarrow> gm_get (ms_conflicts M) (target rel) = conflict strategy (b (k rel)) h) \<and>
    ms_incomplete M = [] \<and> hs_store s' = hs_store s \<and> mli_inv (hs_index s') \<and>
    (if dry then s' = s
     else (\<forall>rel h. m rel = Some h \<longrightarrow> mli_abs (hs_index s') (k rel) = Some (merged strategy (b (k rel)) h)) \<and>
       (\<forall>p. p \<notin> k ` dom m \<longrightarrow> mli_abs (hs_index s') p = b p))"
proof -
  let ?I = "NamespacedIndex_iface (mem_ns ns)" and ?m0 = "\<lparr>ms_applied = 0, ms_skipped = 0, ms_conflicts = [], ms_incomplete = []\<rparr>"
  let ?M = "merge_notes strategy (\<lambda>p. li_Get ?I p (hs_index s)) target bs ?m0"
  have mem: "(rel, h) \<in> set bs \<longleftrightarrow> m rel = Some h" for rel h using gm_get_iff [OF bs(2)] bs(1) by metis
  have dom: "dom m = fst ` set bs" using mem by force
  have key: "canonicalizeChecked (mem_ns ns) (target rel) = Some (k rel)" if "m rel = Some h" for rel h
    using targets(1) that unfolding k_def by (metis domI option.collapse)
  have get: "li_Get ?I (target rel) (hs_index s) = b (k rel)" if "m rel = Some h" for rel h
    using nsmem.wrapped.get_abs [OF inv, of ns "target rel"] key [OF that] by (simp add: b_def)
  have "distinct (map (\<lambda>rel. canonicalizeChecked (mem_ns ns) (target rel)) (map fst bs))"
    using bs(2) targets(2) unfolding distinct_map [of _ "map fst bs"] by (simp add: gm_wf_def dom)
  then have keys: "distinct (map (\<lambda>(rel, h). canonicalizeChecked (mem_ns ns) (target rel)) bs)"
    by (simp add: comp_def case_prod_unfold)
  have "inj_on target (fst ` set bs)" using targets(2) dom by (auto simp: inj_on_def)
  then have paths: "distinct (map (target \<circ> fst) bs)"
    using bs(2) by (simp add: gm_wf_def distinct_map [of target] flip: map_map)
  have counts: "length (filter (\<lambda>(rel, h). Q (li_Get ?I (target rel) (hs_index s)) h) bs) =
      card {rel. \<exists>h. m rel = Some h \<and> Q (b (k rel)) h}" for Q
    using gm_filter_card [OF bs(2), of "\<lambda>rel h. Q (li_Get ?I (target rel) (hs_index s)) h"] bs(1) get
    by (simp add: conj_commute cong: conj_cong)
  have conflicts: "gm_get (ms_conflicts ?M) (target rel) = conflict strategy (b (k rel)) h" if "m rel = Some h" for rel h
    using merge_notes_conflict [OF paths, of rel h ?m0 strategy "\<lambda>p. li_Get ?I p (hs_index s)"] mem that get [OF that] by simp
  have M: "ms_applied ?M = of_nat (card {rel. \<exists>h. m rel = Some h \<and> applies strategy (b (k rel)) h})"
    "ms_skipped ?M = of_nat (card {rel. \<exists>h. m rel = Some h \<and> \<not> applies strategy (b (k rel)) h})" "ms_incomplete ?M = []"
    using counts [of "applies strategy"] counts [of "\<lambda>e h. \<not> applies strategy e h"] by (simp_all add: merge_notes_fields [where existing = "\<lambda>p. li_Get ?I p (hs_index s)"])
  have "\<exists>s'. merge_loop P ?I hctx strategy dry target bs ?m0 s = (Inr ?M, s') \<and> hs_store s' = hs_store s \<and> mli_inv (hs_index s') \<and>
    (if dry then s' = s
     else (\<forall>rel h. m rel = Some h \<longrightarrow> mli_abs (hs_index s') (k rel) = Some (merged strategy (b (k rel)) h)) \<and>
       (\<forall>p. p \<notin> k ` dom m \<longrightarrow> mli_abs (hs_index s') p = b p))"
  proof (cases dry)
    case True
    then show ?thesis using inv by (simp add: merge_dry)
  next
    case False
    have "\<forall>(rel, h) \<in> set bs. canonicalizeChecked (mem_ns ns) (target rel) \<noteq> None" using mem key by auto
    from pns.merge_loop_effect [OF inv this keys, of P hctx strategy ?m0]
    obtain s' where s': "merge_loop P ?I hctx strategy False target bs ?m0 s = (Inr ?M, s')"
      "\<forall>(rel, h) \<in> set bs. mli_abs (hs_index s') (k rel) = Some (merged strategy (b (k rel)) h)"
      "\<forall>p. Some p \<notin> (\<lambda>(rel, h). canonicalizeChecked (mem_ns ns) (target rel)) ` set bs \<longrightarrow> mli_abs (hs_index s') p = b p"
      "mli_inv (hs_index s')" "hs_store s' = hs_store s"
      unfolding k_def b_def by blast
    have "Some p \<notin> (\<lambda>(rel, h). canonicalizeChecked (mem_ns ns) (target rel)) ` set bs" if "p \<notin> k ` dom m" for p
      using that mem key by (force simp: image_iff)
    with s' False mem show ?thesis by (intro exI [of _ s']) auto
  qed
  with M conflicts show ?thesis by blast
qed


section \<open>A gap of the pre-check\<close>

text \<open>
  The pre-check reads a target path as capabilities do, where an entity URI is a path; the index
  does not, and refuses it.
\<close>

lemma uri_target:
  assumes "ValidateAbsolutePath (''/'' @ peer @ ''/'' @ p) = Inr ()" and "slash \<notin> set peer" "peer \<noteq> []" "p \<noteq> []"
  shows "ValidateAbsolutePath (Canonicalize (Scheme @ peer @ ''/'' @ p) ns) = Inr ()"
    and "canonicalizeChecked (mem_ns ns) (Scheme @ peer @ ''/'' @ p) = None"
proof -
  have "ParseURI (Scheme @ peer @ ''/'' @ p) = Inr \<lparr>PeerID = peer, Path = p\<rparr>"
    using ParseURI_String [of "\<lparr>PeerID = peer, Path = p\<rparr>"] assms by (simp add: uri_wf_def URI_String_def)
  then have "Canonicalize (Scheme @ peer @ ''/'' @ p) ns = ''/'' @ peer @ ''/'' @ p"
    using assms(3,4) by (simp add: Canonicalize_def Scheme_def HasPrefix_def)
  with assms(1) show "ValidateAbsolutePath (Canonicalize (Scheme @ peer @ ''/'' @ p) ns) = Inr ()" by simp
  have "Contains (drop 1 (''/'' @ ns @ ''/'' @ Scheme @ peer @ ''/'' @ p)) ''//''"
    using Contains_middle [of "ns @ ''/entity:''" "''//''" "peer @ ''/'' @ p"] by (simp add: Scheme_def)
  then have "ValidateAbsolutePath (''/'' @ ns @ ''/'' @ Scheme @ peer @ ''/'' @ p) \<noteq> Inr ()"
    by (auto simp: ValidateAbsolutePath_def Let_def split: sum.splits)
  then show "canonicalizeChecked (mem_ns ns) (Scheme @ peer @ ''/'' @ p) = None"
    by (simp add: canonicalizeChecked_def canonicalize_def NewNamespacedIndex_def Scheme_def HasPrefix_def)
qed

text \<open>
  C23. The pre-check of a merge does not make it atomic: of a source with a plain key and a key in the
  form of an entity URI, merged without prefixes, it accepts both target paths, the loop writes the
  first one and then fails, and the first write stays.
\<close>

theorem merge_uri_not_atomic:
  assumes inv: "mli_inv (hs_index s)" and ns: "hc_LocalPeerID hctx = ns"
    and plain: "ValidateAbsolutePath (Canonicalize rel ns) = Inr ()" "canonicalizeChecked (mem_ns ns) rel = Some k"
      "mli_abs (hs_index s) k = None"
    and uri: "ValidateAbsolutePath (''/'' @ peer @ ''/'' @ p) = Inr ()" "slash \<notin> set peer" "peer \<noteq> []" "p \<noteq> []"
    and perm: "checkPathPerm P C hctx (hs_store s) ''put'' rel" "checkPathPerm P C hctx (hs_store s) ''put'' (Scheme @ peer @ ''/'' @ p)"
  shows "merge_precheck P dflt C hctx (\<lambda>r. applyPrefix r [] []) (hs_store s) [rel, Scheme @ peer @ ''/'' @ p] = None \<and>
    (\<exists>err s'. merge_loop P (NamespacedIndex_iface (mem_ns ns)) hctx strategy False (\<lambda>r. applyPrefix r [] [])
        [(rel, h1), (Scheme @ peer @ ''/'' @ p, h2)] m s = (Inl err, s') \<and>
      mli_abs (hs_index s') = (mli_abs (hs_index s))(k \<mapsto> h1))"
proof
  let ?I = "NamespacedIndex_iface (mem_ns ns)" and ?u = "Scheme @ peer @ ''/'' @ p"
  show "merge_precheck P dflt C hctx (\<lambda>r. applyPrefix r [] []) (hs_store s) [rel, ?u] = None"
    unfolding merge_precheck_None using plain perm uri_target(1) [OF uri] ns by (simp add: applyPrefix_def)
  obtain s1 where s1: "merge_binding P ?I hctx strategy False rel h1 m s =
      (Inr (merge_note strategy rel (mli_abs (hs_index s) k) h1 m), s1)"
    "mli_abs (hs_index s1) = (mli_abs (hs_index s))(k \<mapsto> merged strategy (mli_abs (hs_index s) k) h1)" "mli_inv (hs_index s1)"
    by (rule pns.merge_binding_effect [OF inv plain(2)])
  let ?m1 = "merge_note strategy rel (mli_abs (hs_index s) k) h1 m"
  have get: "li_Get ?I ?u (hs_index s1) = None"
    using nsmem.wrapped.get_abs [OF s1(3), of ns ?u] uri_target(2) [OF uri] by simp
  obtain err where "TreeSet P ?I hctx ?u h2 ''merge'' s1 = ((None, Inl err), s1)"
    using uri_target(2) [OF uri, of ns] by (cases rule: pns.TreeSet_effect [OF s1(3), of P ns hctx ?u h2 "''merge''"]) auto
  with get have "merge_binding P ?I hctx strategy False ?u h2 ?m1 s1 = (Inl err, s1)"
    by (simp add: merge_binding_def merge_set_def)
  with s1 plain(3) show "\<exists>err s'. merge_loop P ?I hctx strategy False (\<lambda>r. applyPrefix r [] []) [(rel, h1), (?u, h2)] m s = (Inl err, s') \<and>
      mli_abs (hs_index s') = (mli_abs (hs_index s))(k \<mapsto> h1)"
    by (simp add: applyPrefix_def merged_def)
qed

end
