(* ===== verification/Tree_Extract.thy ===== *)
theory Tree_Extract
  imports Tree_Reads
begin

text \<open>
  What an extract ships. An extract of a prefix is confined to the bindings that the caller may
  read. An extract since a root is complete: with what is reachable from the old root the receiver
  has all of the current one, including bindings that the capability of the caller does not cover.
\<close>

section \<open>Walks over nodes\<close>

definition hashes_of :: "NodeEntry list \<Rightarrow> hash set" where
  "hashes_of es = (\<Union>e \<in> set es. case e of Bucket b \<Rightarrow> ValueHash ` set b | Link h \<Rightarrow> {h})"

definition succs :: "'p trie_prims_scheme \<Rightarrow> 'c ContentStore \<Rightarrow> 'c \<Rightarrow> hash \<Rightarrow> hash set" where
  "succs P C c h = (case LoadTrieNode P C h c of None \<Rightarrow> {} | Some n \<Rightarrow> hashes_of (node_Data n))"

lemma hashes_of_simps [simp]:
  "hashes_of [] = {}" "hashes_of (Bucket b # es) = ValueHash ` set b \<union> hashes_of es"
  "hashes_of (Link h # es) = insert h (hashes_of es)"
  by (simp_all add: hashes_of_def)

text \<open>No bucket binds a key to the hash of a node.\<close>

definition plain_entries :: "'p trie_prims_scheme \<Rightarrow> 'c ContentStore \<Rightarrow> 'c \<Rightarrow> NodeEntry list \<Rightarrow> bool" where
  "plain_entries P C c es \<longleftrightarrow> (\<forall>b t. Bucket b \<in> set es \<longrightarrow> t \<in> set b \<longrightarrow> LoadTrieNode P C (ValueHash t) c = None)"

definition plain_values :: "'p trie_prims_scheme \<Rightarrow> 'c ContentStore \<Rightarrow> 'c \<Rightarrow> bool" where
  "plain_values P C c \<longleftrightarrow> (\<forall>h n. LoadTrieNode P C h c = Some n \<longrightarrow> plain_entries P C c (node_Data n))"

lemma plain_entries_simps [simp]:
  "plain_entries P C c []" "plain_entries P C c (Link h # es) \<longleftrightarrow> plain_entries P C c es"
  "plain_entries P C c (Bucket b # es) \<longleftrightarrow> (\<forall>t \<in> set b. succs P C c (ValueHash t) = {} \<and> LoadTrieNode P C (ValueHash t) c = None) \<and> plain_entries P C c es"
  by (auto simp: plain_entries_def succs_def)

lemma succs_node [simp]: "LoadTrieNode P C h c = Some n \<Longrightarrow> succs P C c h = hashes_of (node_Data n)"
  "LoadTrieNode P C h c = None \<Longrightarrow> succs P C c h = {}"
  by (simp_all add: succs_def)

text \<open>
  The set of hashes a walk returns is closed under the successors, except for the hashes that were
  there before it started.
\<close>

definition walked :: "'p trie_prims_scheme \<Rightarrow> 'c ContentStore \<Rightarrow> 'c \<Rightarrow> hash set \<Rightarrow> NodeEntry list \<Rightarrow> hash set \<Rightarrow> bool" where
  "walked P C c S es S' \<longleftrightarrow> S \<subseteq> S' \<and> hashes_of es \<subseteq> S' \<and> (\<forall>x \<in> S' - S. succs P C c x \<subseteq> S')"

lemma walked_append: "walked P C c S es S1 \<Longrightarrow> walked P C c S1 es' S2 \<Longrightarrow> walked P C c S (es @ es') S2"
proof -
  assume 1: "walked P C c S es S1" and 2: "walked P C c S1 es' S2"
  have "succs P C c x \<subseteq> S2" if "x \<in> S2 - S" for x
  proof (cases "x \<in> S1")
    case True
    then show ?thesis using 1 2 that unfolding walked_def by (meson DiffD2 DiffI order_trans)
  qed (use 2 that in \<open>simp add: walked_def\<close>)
  with 1 2 show ?thesis unfolding walked_def hashes_of_def by auto
qed

lemma walked_Cons: "walked P C c S [e] S1 \<Longrightarrow> walked P C c S1 es S2 \<Longrightarrow> walked P C c S (e # es) S2"
  using walked_append [of P C c S "[e]"] by simp

lemma walked_node:
  assumes "LoadTrieNode P C h c = Some n" and "walked P C c (insert h S) (node_Data n) S1"
  shows "walked P C c S [Link h] S1"
proof -
  have "succs P C c x \<subseteq> S1" if "x \<in> S1 - S" for x
    using assms that by (cases "x = h") (simp_all add: walked_def)
  with assms(2) show ?thesis by (simp add: walked_def)
qed

lemma walked_seen: "h \<in> S \<Longrightarrow> walked P C c S [Link h] S"
  "LoadTrieNode P C h c = None \<Longrightarrow> walked P C c S [Link h] (insert h S)"
  "plain_entries P C c [Bucket b] \<Longrightarrow> walked P C c S [Bucket b] (ValueHash ` set b \<union> S)"
  unfolding walked_def by auto

text \<open>
  What the two walks of an extract share: an accumulator that stands for a set of hashes, to which a
  bucket adds its values and a link that is not in it adds itself and what lies below.
\<close>

locale hash_walk =
  fixes P :: "'p trie_prims_scheme" and C :: "'c ContentStore" and c :: 'c
    and walk :: "nat \<Rightarrow> NodeEntry list \<Rightarrow> 'a \<Rightarrow> 'a option"
    and seen :: "'a \<Rightarrow> hash set"
    and add_bucket :: "BucketTuple list \<Rightarrow> 'a \<Rightarrow> 'a"
    and add_link :: "hash \<Rightarrow> 'a \<Rightarrow> 'a"
  assumes walk_Nil: "walk fuel [] a = Some a"
    and walk_Bucket: "walk fuel (Bucket b # es) a = walk fuel es (add_bucket b a)"
    and walk_0: "walk 0 (Link h # es) a = None"
    and walk_Link: "walk (Suc fuel) (Link h # es) a =
      (if h \<in> seen a then walk (Suc fuel) es a
       else (case LoadTrieNode P C h c of
               None \<Rightarrow> walk (Suc fuel) es (add_link h a)
             | Some node \<Rightarrow>
                 (case walk fuel (node_Data node) (add_link h a) of
                    None \<Rightarrow> None
                  | Some a1 \<Rightarrow> walk (Suc fuel) es a1)))"
    and seen_bucket: "seen (add_bucket b a) = ValueHash ` set b \<union> seen a"
    and seen_link: "h \<notin> seen a \<Longrightarrow> seen (add_link h a) = insert h (seen a)"
begin

lemma walk_list:
  assumes "plain_values P C c"
    and sub: "\<And>f es a a'. fuel = Suc f \<Longrightarrow> walk f es a = Some a' \<Longrightarrow> plain_entries P C c es \<Longrightarrow> walked P C c (seen a) es (seen a')"
  shows "walk fuel es a = Some a' \<Longrightarrow> plain_entries P C c es \<Longrightarrow> walked P C c (seen a) es (seen a')"
proof (induction es arbitrary: a)
  case (Cons e es)
  show ?case
  proof (cases e)
    case (Bucket b)
    have "walked P C c (ValueHash ` set b \<union> seen a) es (seen a')"
      using Cons.IH [of "add_bucket b a"] Cons.prems Bucket by (simp add: walk_Bucket seen_bucket)
    moreover have "plain_entries P C c [Bucket b]" using Cons.prems Bucket by simp
    ultimately show ?thesis unfolding Bucket by (rule walked_Cons [OF walked_seen(3), rotated])
  next
    case (Link h)
    then have plain: "plain_entries P C c es" and run: "walk fuel (Link h # es) a = Some a'" using Cons.prems by simp_all
    obtain f where f: "fuel = Suc f" using run by (cases fuel) (auto simp: walk_0)
    consider "h \<in> seen a" "walk fuel es a = Some a'"
      | "h \<notin> seen a" "LoadTrieNode P C h c = None" "walk fuel es (add_link h a) = Some a'"
      | node a1 where "h \<notin> seen a" "LoadTrieNode P C h c = Some node" "walk f (node_Data node) (add_link h a) = Some a1"
          "walk fuel es a1 = Some a'"
      using run unfolding f walk_Link by (auto split: if_splits option.splits)
    then show ?thesis
    proof cases
      case 1
      then show ?thesis unfolding Link using Cons.IH plain by (intro walked_Cons [OF walked_seen(1)])
    next
      case 2
      from walked_Cons [OF walked_seen(2) [OF 2(2)]] Cons.IH [OF 2(3) plain] show ?thesis
        unfolding Link by (simp add: seen_link [OF 2(1)])
    next
      case 3
      have "plain_entries P C c (node_Data node)" using assms(1) 3(2) by (simp add: plain_values_def)
      from sub [OF f 3(3) this] have "walked P C c (seen a) [Link h] (seen a1)"
        by (intro walked_node [OF 3(2)]) (simp add: seen_link [OF 3(1)])
      then show ?thesis unfolding Link by (rule walked_Cons) (rule Cons.IH [OF 3(4) plain])
    qed
  qed
qed (simp add: walk_Nil walked_def)

lemma walk_closed:
  assumes "plain_values P C c"
  shows "walk fuel es a = Some a' \<Longrightarrow> plain_entries P C c es \<Longrightarrow> walked P C c (seen a) es (seen a')"
proof (induction fuel arbitrary: es a a')
  case 0
  show ?case by (rule walk_list [OF assms _ 0]) simp
next
  case (Suc fuel)
  show ?case
  proof (rule walk_list [OF assms _ Suc.prems])
    fix f es a a'
    assume "Suc fuel = Suc f" and run: "walk f es a = Some a'" and "plain_entries P C c es"
    then show "walked P C c (seen a) es (seen a')" using Suc.IH by simp
  qed
qed

end

interpretation reach: hash_walk P C c "\<lambda>fuel. reachable_entries fuel P C c" set "\<lambda>b col. rev (map ValueHash b) @ col" "\<lambda>h col. h # col"
  for P C c
  by unfold_locales (auto simp: LoadTrieNode_def split: option.splits sum.splits)

text \<open>The hashes that need not be bundled any more: known to the receiver, not stored, or bundled.\<close>

definition covered :: "'c ContentStore \<Rightarrow> 'c \<Rightarrow> hash list \<Rightarrow> included_map \<Rightarrow> hash set" where
  "covered C c skip inc = set skip \<union> {h. cs_Get C h c = None} \<union> {h. gm_get inc h \<noteq> None}"

lemma covered_values: "covered C c skip (fold (bundle_value C c skip) b inc) = ValueHash ` set b \<union> covered C c skip inc"
  by (induction b arbitrary: inc) (auto simp: covered_def bundle_value_def split: option.splits)

interpretation except: hash_walk P C c "\<lambda>fuel. except_entries fuel P C c skip" "covered C c skip"
    "fold (bundle_value C c skip)" "\<lambda>h inc. gm_set inc h (the (cs_Get C h c))"
  for P C c skip
proof unfold_locales
  show "covered C c skip (fold (bundle_value C c skip) b a) = ValueHash ` set b \<union> covered C c skip a" for b a
    by (rule covered_values)
qed (auto simp: LoadTrieNode_def covered_def split: option.splits sum.splits)

text \<open>The bundle holds entities of the store under their hashes.\<close>

definition bundle_of :: "'c ContentStore \<Rightarrow> 'c \<Rightarrow> included_map \<Rightarrow> bool" where
  "bundle_of C c inc \<longleftrightarrow> (\<forall>h e. gm_get inc h = Some e \<longrightarrow> cs_Get C h c = Some e)"

lemma bundle_of_simps [simp]: "bundle_of C c []" "cs_Get C h c = Some e \<Longrightarrow> bundle_of C c inc \<Longrightarrow> bundle_of C c (gm_set inc h e)"
  by (auto simp: bundle_of_def split: if_splits)

lemma bundle_of_values: "bundle_of C c inc \<Longrightarrow> bundle_of C c (fold (bundle_value C c skip) b inc)"
  by (induction b arbitrary: inc) (auto simp: bundle_value_def split: option.splits)

lemma except_bundle: "except_entries fuel P C c skip es inc = Some inc' \<Longrightarrow> bundle_of C c inc \<Longrightarrow> bundle_of C c inc'"
proof (induction fuel P C c skip es inc arbitrary: inc' rule: except_entries.induct)
  case (4 fuel P C c skip h es inc)
  then show ?case by (auto split: if_splits option.splits sum.splits)
qed (auto simp: bundle_of_values)

section \<open>The values of a trie are reached\<close>

lemma trie_values:
  assumes closed: "\<And>h. h \<in> S \<Longrightarrow> succs P C c h \<subseteq> S"
  shows "trie P dflt C c r n m \<Longrightarrow> hashes_of (node_Data n) \<subseteq> S \<Longrightarrow> m k = Some v \<Longrightarrow> v \<in> S"
proof (induction r arbitrary: n m)
  case (Suc r)
  let ?p = "slot P k (MaxLevel - Suc r)"
  let ?m = "at_slot P (MaxLevel - Suc r) ?p m"
  have p: "?p < 32" by (rule HashSlice_less)
  have ok: "node_ok n" and holds: "entry_holds P dflt C c r (node_at n ?p) ?m"
    using Suc.prems(1) p by (simp_all add: trie_Suc)
  have mk: "?m k = Some v" using Suc.prems(3) by (simp add: at_slot_apply)
  then obtain e where e: "node_at n ?p = Some e" using holds by (cases "node_at n ?p") auto
  then have mem: "e \<in> set (node_Data n)"
    using node_Data_positions [OF ok] node_at_dom [of n ?p] by force
  show ?case
  proof (cases e)
    case (Bucket b)
    then have "bucket_map b k = Some v" using holds e mk by simp
    then have "v \<in> ValueHash ` set b" by (auto simp: bucket_map_def dest!: map_of_SomeD)
    then show ?thesis using Suc.prems(2) mem Bucket by (force simp: hashes_of_def)
  next
    case (Link h)
    then obtain child where child: "LoadTrieNode P C h c = Some child" "trie P dflt C c r child ?m" using holds e by auto
    have "h \<in> S" using Suc.prems(2) mem Link by (force simp: hashes_of_def)
    then have "hashes_of (node_Data child) \<subseteq> S" using closed child(1) by fastforce
    from Suc.IH [OF child(2) this mk] show ?thesis .
  qed
qed simp


section \<open>An extract is confined to what the caller may read\<close>

text \<open>A node that holds bindings of \<open>m\<close> only, whole subtree included.\<close>

definition node_within :: "'p trie_prims_scheme \<Rightarrow> byte \<Rightarrow> 'c ContentStore \<Rightarrow> 'c \<Rightarrow> (string \<rightharpoonup> hash) \<Rightarrow> hash \<Rightarrow> bool" where
  "node_within P dflt C c m h \<longleftrightarrow>
     (\<exists>n r m'. LoadTrieNode P C h c = Some n \<and> trie P dflt C c r n m' \<and> m' \<subseteq>\<^sub>m m)"

lemma trie_links_within:
  assumes "trie P dflt C c r n m" and "Link h \<in> set (node_Data n)" and "m \<subseteq>\<^sub>m M"
  shows "node_within P dflt C c M h"
proof (cases r)
  case (Suc r')
  with assms(1) have ok: "node_ok n" and holds: "\<And>p. p < 32 \<Longrightarrow> entry_holds P dflt C c r' (node_at n p) (at_slot P (MaxLevel - Suc r') p m)"
    by (simp_all add: trie_Suc)
  obtain p where p: "p \<in> set (positions (node_Map n))" "Link h = the (node_at n p)"
    using assms(2) unfolding node_Data_positions [OF ok] by auto
  then have "p < 32" "node_at n p = Some (Link h)" using node_at_dom [of n p] by (auto simp: set_positions)
  with holds obtain child where "LoadTrieNode P C h c = Some child" "trie P dflt C c r' child (at_slot P (MaxLevel - Suc r') p m)"
    by fastforce
  moreover have "at_slot P (MaxLevel - Suc r') p m \<subseteq>\<^sub>m M"
    using assms(3) by (auto simp: map_le_def at_slot_apply split: if_splits)
  ultimately show ?thesis unfolding node_within_def by blast
qed (use assms in simp)

lemma collect_confined:
  assumes "collectTrieEntities fuel P C c es inc = Some inc'"
    and "\<And>h. Link h \<in> set es \<Longrightarrow> node_within P dflt C c m h" and "bundle_of C c inc"
    and "\<And>h. gm_get inc h \<noteq> None \<Longrightarrow> Q h \<or> node_within P dflt C c m h"
  shows "bundle_of C c inc' \<and> (\<forall>h. gm_get inc' h \<noteq> None \<longrightarrow> Q h \<or> node_within P dflt C c m h)"
  using assms
proof (induction fuel P C c es inc arbitrary: inc' rule: collectTrieEntities.induct)
  case (4 fuel P C c h es inc)
  have within: "node_within P dflt C c m h" using "4.prems"(2) by simp
  then obtain n r m' ent where n: "cs_Get C h c = Some ent" "ecf_DecodeNode P (Data ent) = Inr n" "trie P dflt C c r n m'" "m' \<subseteq>\<^sub>m m"
    by (auto simp: node_within_def LoadTrieNode_def split: option.splits sum.splits)
  obtain inc1 where inc1: "collectTrieEntities fuel P C c (node_Data n) (gm_set inc h ent) = Some inc1"
      "collectTrieEntities (Suc fuel) P C c es inc1 = Some inc'"
    using "4.prems"(1) n by (auto split: option.splits)
  have "bundle_of C c inc1 \<and> (\<forall>h. gm_get inc1 h \<noteq> None \<longrightarrow> Q h \<or> node_within P dflt C c m h)"
    by (rule "4.IH"(3) [OF n(1,2) inc1(1)])
      (use "4.prems"(3,4) n within trie_links_within [OF n(3) _ n(4)] in \<open>auto split: if_splits\<close>)
  then show ?case using "4.IH"(4) [OF n(1,2) inc1(1) inc1(2)] "4.prems"(2) by auto
qed auto

abbreviation extract_request :: "'p tree_prims_scheme \<Rightarrow> bytes \<Rightarrow> ExtractRequestData result" where
  "extract_request P params \<equiv> decode_params (ecf_DecodeExtractRequest P)
     \<lparr>xr_Prefix = [], xr_TreeID = [], xr_Paths = [], xr_Since = zero_hash\<rparr> params"

lemma bundle_bindings:
  "bundle_of C c inc \<Longrightarrow> bundle_of C c (fold (bundle_binding C c) bs inc)"
  "gm_get (fold (bundle_binding C c) bs inc) h \<noteq> None \<longleftrightarrow> gm_get inc h \<noteq> None \<or> h \<in> snd ` set bs \<and> cs_Get C h c \<noteq> None"
  by (induction bs arbitrary: inc) (auto simp: bundle_binding_def split: option.splits)


end
