(* ===== verification/Tree_Demo.thy ===== *)
theory Tree_Demo
  imports Tree_Merge Tree_Extract
begin

text \<open>
  Concrete requests for the witnesses of the handler \<^verbatim>\<open>system/tree\<close>. The codec of the payloads extends
  the one of the trie: a put carries the data of an entity, a merge names one stored snapshot.
\<close>

definition demo_ns :: string where
  "demo_ns = replicate 46 CHR ''a''"

definition demo_entity :: "bytes \<Rightarrow> entity" where
  "demo_entity d = \<lparr>Type = ''t'', Data = d, ContentHash = demo_hash_of ''t'' d\<rparr>"

definition demo_snapshot :: entity where
  "demo_snapshot = \<lparr>Type = TypeTreeSnapshot, Data = [1], ContentHash = demo_hash_of TypeTreeSnapshot [1]\<rparr>"

definition demo_tree_prims :: tree_prims where
  "demo_tree_prims = trie_prims.extend (demo_trie_prims\<lparr>ecf_EncodeEnvelope := \<lambda>_. Inr [1]\<rparr>)
     (tree_prims.fields (\<lambda>_. Inr [1])
        (\<lambda>_. Inl [])
        (\<lambda>d. Inr \<lparr>pr_Entity = d, pr_ExpectedHash = Some zero_hash, pr_TreeID = ''''\<rparr>)
        (\<lambda>_. Inl []) (\<lambda>_. Inl [])
        (\<lambda>d. Inr \<lparr>mq_Source = ContentHash demo_snapshot, mq_SourceEnvelope = [], mq_TargetTree = '''', mq_Strategy = '''',
               mq_SourcePrefix = '''', mq_TargetPrefix = ''y/'', mq_DryRun = None\<rparr>)
        (\<lambda>_. Inl [])
        (\<lambda>d. Inr (demo_entity d))
        (\<lambda>_. Inr [(''content_hash'', [1])])
        Inr (Inr [1]) (\<lambda>_. Inr [1]) (\<lambda>_. Inr [1]) (\<lambda>_. Inr [1])
        (\<lambda>_. Inr \<lparr>sn_Root = demo_node_hash [97]\<rparr>)
        (\<lambda>_. Inr [1]) (\<lambda>_. Inr [1]) (\<lambda>_. Inl []) (\<lambda>_. Inr [1]))"

lemma demo_tree_prims_sel [simp]:
  "sha256_Sum256 demo_tree_prims = demo_pad 32" "sha512_Sum384 demo_tree_prims = demo_pad 48"
  "ecf_EncodeHashable demo_tree_prims = (\<lambda>t d. Inr (map of_char t @ d))"
  "ecf_EncodeNode demo_tree_prims = demo_encode" "ecf_DecodeNode demo_tree_prims = demo_decode"
  "ecf_EncodeEnvelope demo_tree_prims = (\<lambda>_. Inr [1])"
  "ecf_DecodePutRequest demo_tree_prims = (\<lambda>d. Inr \<lparr>pr_Entity = d, pr_ExpectedHash = Some zero_hash, pr_TreeID = ''''\<rparr>)"
  "ecf_DecodeMergeRequest demo_tree_prims =
     (\<lambda>d. Inr \<lparr>mq_Source = ContentHash demo_snapshot, mq_SourceEnvelope = [], mq_TargetTree = '''', mq_Strategy = '''',
               mq_SourcePrefix = '''', mq_TargetPrefix = ''y/'', mq_DryRun = None\<rparr>)"
  "ecf_DecodeEntity demo_tree_prims = (\<lambda>d. Inr (demo_entity d))"
  "ecf_DecodeRawMap demo_tree_prims = (\<lambda>_. Inr [(''content_hash'', [1])])"
  "ecf_EncodeListing demo_tree_prims = (\<lambda>_. Inr [1])"
  "ecf_EncodeSnapshot demo_tree_prims = (\<lambda>_. Inr [1])"
  "ecf_DecodeSnapshot demo_tree_prims = (\<lambda>_. Inr \<lparr>sn_Root = demo_node_hash [97]\<rparr>)"
  "ecf_EncodeString demo_tree_prims = (\<lambda>_. Inr [1])"
  by (simp_all add: demo_tree_prims_def demo_trie_prims_def demo_cap_prims_def cap_prims.defs trie_prims.defs tree_prims.defs)

section \<open>The trie under the extended codec\<close>

lemma demo_tree_same:
  "ComputeFormat demo_tree_prims = ComputeFormat demo_trie_prims"
  "Compute demo_tree_prims = Compute demo_trie_prims"
  "HashKey demo_tree_prims = HashKey demo_trie_prims"
  by (intro ext; simp add: ComputeFormat_def Compute_def HashKey_def OfBytes_def)+

lemma demo_tree_entities:
  "NewEntity demo_tree_prims = NewEntity demo_trie_prims"
  "Validate demo_tree_prims = Validate demo_trie_prims"
  by (intro ext; simp add: NewEntity_def NewEntityFormat_def Validate_def hash_Validate_def demo_tree_same)+

lemma demo_tree_store: "MemoryContentStore_iface demo_tree_prims = demo_store"
  by (simp add: MemoryContentStore_iface_def mcs_Put_def demo_tree_entities demo_tree_same fun_eq_iff)

lemma demo_tree_nodes:
  "StoreTrieNode demo_tree_prims = StoreTrieNode demo_trie_prims"
  "LoadTrieNode demo_tree_prims = LoadTrieNode demo_trie_prims"
  "loadOrEmpty demo_tree_prims = loadOrEmpty demo_trie_prims"
  by (intro ext; simp add: StoreTrieNode_def LoadTrieNode_def loadOrEmpty_def demo_tree_entities split: sum.split option.split)+

lemma demo_tree_put_a:
  "putAtNode demo_tree_prims 0 C EmptyNode (HashKey demo_tree_prims ''a'') 0 ''a'' (demo_v CHR ''a'') c =
   (Inr (demo_flat ''a''), c)"
  by (simp add: demo_put demo_tree_same EmptyNode_demo demo_flat_def demo_tuples_def)

lemma demo_tree_prims_ok: "trie_prims_ok demo_tree_prims demo_good"
  using demo_trie_prims_ok by (simp add: trie_prims_ok_def node_codec_def digest_sizes_def)

definition demo_nodes :: MemoryContentStore where
  "demo_nodes = demo_content [[1], [97]]"

lemma demo_tree_build:
  "BuildTrie demo_tree_prims 0 (guarded demo_store) (demo_bindings ''a'') demo_nodes = (Inr (demo_node_hash [97]), demo_nodes)"
  by (simp add: BuildTrie_def demo_bindings_def demo_nodes_def demo_tree_nodes demo_run demo_tree_put_a [unfolded demo_tree_same]
      demo_tree_same)

section \<open>The requests\<close>

abbreviation demo_index :: "MemoryLocationIndex LocationIndex" where
  "demo_index \<equiv> NamespacedIndex_iface (mem_ns demo_ns)"

definition demo_tree_hctx :: "string \<Rightarrow> (MemoryContentStore, MemoryLocationIndex) HandlerContext" where
  "demo_tree_hctx target =
     \<lparr>hc_AuthorHash = zero_hash, hc_LocalPeerID = demo_ns, hc_CallerCapability = zero_entity,
      hc_HandlerGrant = zero_entity, hc_Resource = Some \<lparr>rt_Targets = [target], rt_Exclude = []\<rparr>,
      hc_Store = Some (MemoryContentStore_iface demo_tree_prims), hc_LocationIndex = Some demo_index,
      hc_HandlerPattern = ''system/tree'', hc_Bounds = None,
      hc_Included = [(ContentHash demo_snapshot, demo_snapshot)], hc_Clock = (\<lambda>_ _. 0)\<rparr>"

definition demo_request :: "string \<Rightarrow> bytes \<Rightarrow> (MemoryContentStore, MemoryLocationIndex) Request" where
  "demo_request target d =
     \<lparr>req_Context = Some (demo_tree_hctx target), req_Operation = '''',
      req_Params = \<lparr>Type = '''', Data = d, ContentHash = zero_hash\<rparr>\<rparr>"

definition demo_q :: string where
  "demo_q = ''/'' @ demo_ns @ ''/x/''"

definition demo_key_a :: string where
  "demo_key_a = ''/'' @ demo_ns @ ''/x/a''"

definition demo_tree_state :: "(MemoryContentStore, MemoryLocationIndex) hstate" where
  "demo_tree_state = \<lparr>hs_store = demo_nodes, hs_index = \<lparr>paths = [(demo_key_a, demo_v CHR ''a'')]\<rparr>, hs_capidx = None\<rparr>"

lemma demo_request_ctx [simp]:
  "req_Context (demo_request t d) = Some (demo_tree_hctx t)" "Data (req_Params (demo_request t d)) = d"
  "hc_Store (demo_tree_hctx t) = Some (MemoryContentStore_iface demo_tree_prims)"
  "hc_LocationIndex (demo_tree_hctx t) = Some demo_index" "hc_LocalPeerID (demo_tree_hctx t) = demo_ns"
  "hc_Included (demo_tree_hctx t) = [(ContentHash demo_snapshot, demo_snapshot)]"
  by (simp_all add: demo_request_def demo_tree_hctx_def)

lemma demo_state_sel [simp]:
  "hs_store demo_tree_state = demo_nodes" "hs_index demo_tree_state = \<lparr>paths = [(demo_key_a, demo_v CHR ''a'')]\<rparr>"
  "mli_inv \<lparr>paths = [(demo_key_a, demo_v CHR ''a'')]\<rparr>"
  by (simp_all add: demo_tree_state_def mli_inv_def gm_wf_def)

lemma demo_abs: "mli_abs \<lparr>paths = [(demo_key_a, demo_v CHR ''a'')]\<rparr> = [demo_key_a \<mapsto> demo_v CHR ''a'']"
  by (auto simp: mli_abs_def gm_get_def)

lemma demo_perm [simp]: "checkPathPerm P C (demo_tree_hctx t) c perm path"
  by (simp add: checkPathPerm_def demo_tree_hctx_def zero_entity_def IsZero_def)

lemma demo_targets [simp]: "hctx_EffectiveTargets (demo_tree_hctx t) = [t]"
  by (simp add: hctx_EffectiveTargets_def EffectiveTargets_def demo_tree_hctx_def IsCoveredBy_def)

lemma demo_target [simp]:
  "ExtractResourcePath (demo_tree_hctx t) = t" "request_prefix (demo_tree_hctx t) pre = t" "\<not> all_excluded (demo_tree_hctx t)"
  by (simp_all add: ExtractResourcePath_def request_prefix_def all_excluded_def)

lemma demo_canonical:
  "canonicalizeChecked (mem_ns demo_ns) ''x/'' = Some demo_q"
  "canonicalizeChecked (mem_ns demo_ns) ''x/b'' = Some (''/'' @ demo_ns @ ''/x/b'')"
  "canonicalizeChecked (mem_ns demo_ns) ''y/a'' = Some (''/'' @ demo_ns @ ''/y/a'')"
  by code_simp+

section \<open>Writes\<close>

lemma demo_admit: "admit demo_tree_prims 0 [7] = Inr (demo_entity [7])" "admit demo_tree_prims 0 [8] = Inr (demo_entity [8])"
  by (simp_all add: admit_def entityCarriesContentHash_def gm_get_def Validate_def hash_Validate_def ComputeFormat_def
      OfBytes_def demo_entity_def demo_hash_of_def demo_pad_def copy_into_def zero_digest_def)

lemma demo_check:
  "d \<noteq> [] \<Longrightarrow> put_check demo_tree_prims 0 (MemoryContentStore_iface demo_tree_prims) demo_index (demo_tree_hctx ''x/b'') d demo_tree_state =
     Inr (\<lparr>pr_Entity = d, pr_ExpectedHash = Some zero_hash, pr_TreeID = ''''\<rparr>, ''x/b'')"
proof -
  have "ValidatePathChars ''x/b'' = Inr ()" by code_simp
  moreover have "li_Get demo_index ''x/b'' \<lparr>paths = [(demo_key_a, demo_v CHR ''a'')]\<rparr> = None"
    by (simp add: NamespacedIndex_iface_def ns_Get_def demo_canonical)
       (simp add: NewNamespacedIndex_def MemoryLocationIndex_iface_def mli_Get_def gm_get_def demo_key_a_def)
  ultimately show "d \<noteq> [] \<Longrightarrow> ?thesis"
    by (simp add: put_check_def decode_params_def cas_refused_def Let_def IsZero_def)
qed


theorem put_cas_race_witness:
  "\<exists>rA s1 rB s2. put_commit demo_tree_prims 0 (MemoryContentStore_iface demo_tree_prims) demo_index (demo_tree_hctx ''x/b'')
        (\<lparr>pr_Entity = [7], pr_ExpectedHash = Some zero_hash, pr_TreeID = ''''\<rparr>, ''x/b'') demo_tree_state = (rA, s1) \<and>
     put_commit demo_tree_prims 0 (MemoryContentStore_iface demo_tree_prims) demo_index (demo_tree_hctx ''x/b'')
        (\<lparr>pr_Entity = [8], pr_ExpectedHash = Some zero_hash, pr_TreeID = ''''\<rparr>, ''x/b'') s1 = (rB, s2) \<and>
     mli_abs (hs_index s2) (''/'' @ demo_ns @ ''/x/b'') = Some (ContentHash (demo_entity [8]))"
proof -
  let ?C = "MemoryContentStore_iface demo_tree_prims" and ?h = "demo_tree_hctx ''x/b''"
  let ?a = "\<lambda>d. \<lparr>pr_Entity = d, pr_ExpectedHash = Some zero_hash, pr_TreeID = ''''\<rparr>"
  obtain rA s1 where A: "put_commit demo_tree_prims 0 ?C demo_index ?h (?a [7], ''x/b'') demo_tree_state = (rA, s1)"
    by (meson surj_pair)
  obtain rB s2 where B: "put_commit demo_tree_prims 0 ?C demo_index ?h (?a [8], ''x/b'') s1 = (rB, s2)"
    by (meson surj_pair)
  have "hd (Digest (ContentHash (demo_entity [7]))) = 116" "hd (Digest zero_hash) = 0"
    by (simp_all add: demo_entity_def demo_hash_of_def zero_hash_def zero_digest_def demo_pad_def)
  then have "ContentHash (demo_entity [7]) \<noteq> zero_hash" by auto
  then show ?thesis
    using put_cas_race [OF _ demo_canonical(2) demo_check [OF list.distinct(2), of 7 "[]"]
        demo_check [OF list.distinct(2), of 8 "[]"] _ _ _ _ _ _ _ A B,
        of zero_hash "demo_entity [7]" "demo_entity [8]"] A B demo_admit by simp
qed

section \<open>Reads\<close>

lemma demo_qualified: "QualifyPath demo_ns ''x/'' = demo_q"
  by code_simp

lemma demo_list: "li_List demo_index ''x/'' \<lparr>paths = [(demo_key_a, demo_v CHR ''a'')]\<rparr> = [\<lparr>le_Path = demo_key_a, le_Hash = demo_v CHR ''a''\<rparr>]"
  by (simp add: NamespacedIndex_iface_def ns_List_def demo_canonical)
     (simp add: NewNamespacedIndex_def MemoryLocationIndex_iface_def mli_List_def demo_key_a_def demo_q_def HasPrefix_def)

lemma demo_relative:
  "relative_bindings (checkPathPerm P C (demo_tree_hctx t) c perm) demo_q
     (li_List demo_index ''x/'' \<lparr>paths = [(demo_key_a, demo_v CHR ''a'')]\<rparr>) = demo_bindings ''a''"
  unfolding demo_list by (simp add: relative_bindings_def demo_key_a_def demo_q_def TrimPrefix_def HasPrefix_def demo_bindings_def)

lemma demo_below: "\<forall>k v. [demo_key_a \<mapsto> demo_v CHR ''a''] (demo_q @ k) = Some v \<longrightarrow> demo_good k \<and> hash_good v"
  using demo_good_bindings [of "''a''" "demo_v CHR ''a''" "''a''"]
  by (auto simp: demo_key_a_def demo_q_def demo_bindings_def split: if_splits)

lemma demo_readable:
  "readable (checkPathPerm P C (demo_tree_hctx t) c perm) [demo_key_a \<mapsto> demo_v CHR ''a''] demo_q =
     [''a'' \<mapsto> demo_v CHR ''a'']"
  by (rule ext) (simp add: readable_def demo_key_a_def demo_q_def)

lemma demo_marker: "\<not> IsDeletionMarker demo_tree_prims (demo_v CHR ''a'')"
proof -
  have "replicate 32 (97::byte) = 97 # replicate 31 97" by (subst replicate_Suc [symmetric]) simp
  then show ?thesis
    by (simp add: IsDeletionMarker_def DeletionMarkerHashForFormat_def markerFor_def NewEntityFormat_def ComputeFormat_def
      OfBytes_def demo_v_def TypeDeletionMarker_def typeFloorPinned_def demo_pad_def copy_into_def zero_digest_def)
qed

lemma demo_visible:
  "visible_names demo_tree_prims (checkPathPerm P C (demo_tree_hctx t) c perm) [demo_key_a \<mapsto> demo_v CHR ''a''] demo_q = {''a''}"
proof -
  have "name @ ''/'' @ rest \<noteq> ''a''" if "slash \<notin> set name" for name rest
    using that by (cases name) auto
  then show ?thesis
    using demo_marker
    by (auto simp: visible_names_def bound_child_def has_nested_def demo_key_a_def demo_q_def split: if_splits)
qed

lemma demo_to_entity: "raw \<noteq> [] \<Longrightarrow> typ \<noteq> [] \<Longrightarrow> \<exists>e. to_entity demo_tree_prims 0 typ (Inr raw) = Inr e"
  by (simp add: to_entity_def NewEntity_def NewEntityFormat_def ComputeFormat_def OfBytes_def demo_pad_def
      floorPinnedAlgorithm_def)


theorem root_listing_empty_name_witness:
  "\<exists>e. ([], e) \<in> set (ld_Entries (listing demo_tree_prims (MemoryContentStore_iface demo_tree_prims) demo_index
        (demo_tree_hctx []) [] \<lparr>gr_TreeID = '''', gr_Mode = '''', gr_Limit = None, gr_Offset = None\<rparr>
        (demo_tree_state\<lparr>hs_index := \<lparr>paths = [(''/p/x'', demo_v CHR ''a'')]\<rparr>\<rparr>))) \<and> lst_has_children e"
  by (rule root_listing_empty_name [where p = "''p/x''" and h = "demo_v CHR ''a''" and ns = demo_ns])
     (simp_all add: mli_inv_def gm_wf_def mli_abs_def gm_get_def HasPrefix_def demo_ns_def)

theorem handleSnapshot_confined_witness:
  "\<exists>r s'. handleSnapshot demo_tree_prims 0 None (demo_request ''x/'' []) demo_tree_state = (Inr r, s') \<and>
     trie_root demo_tree_prims 0 demo_store (hs_store s') (demo_node_hash [97]) [''a'' \<mapsto> demo_v CHR ''a'']"
proof -
  let ?req = "demo_request ''x/'' []"
  have "BuildTrie demo_tree_prims 0 demo_store (demo_bindings ''a'') demo_nodes = (Inr (demo_node_hash [97]), demo_nodes)"
    using guarded_BuildTrie [OF demo_tree_build] by simp
  then obtain r s' where r: "handleSnapshot demo_tree_prims 0 None ?req demo_tree_state = (Inr r, s')" "resp_Status r = 200"
    using demo_to_entity [of "[1]" TypeTreeSnapshot]
    by (auto simp: handleSnapshot_def decode_params_def validatePrefix_def HasSuffix_def snapshot_root_def Let_def IsZero_def
        demo_qualified demo_relative demo_tree_store SnapshotData_ToEntity_def TypeTreeSnapshot_def)
  show ?thesis
    using handleSnapshot_confined [of demo_tree_prims demo_good ?req "demo_tree_hctx ''x/''" demo_ns demo_tree_state None _ "''x/''"
        demo_q 0 r s' "demo_node_hash [97]" demo_nodes, OF demo_tree_prims_ok] r
      demo_tree_build demo_canonical(1) demo_below
    by (simp only: demo_state_sel demo_tree_store demo_abs demo_readable demo_relative demo_request_ctx demo_target)
       (auto simp: decode_params_def HasPrefix_def)
qed

section \<open>Merges\<close>

lemma demo_nodes_root: "trie_root demo_tree_prims 0 demo_store demo_nodes (demo_node_hash [97]) [''a'' \<mapsto> demo_v CHR ''a'']"
proof -
  have "trie_root demo_tree_prims 0 (MemoryContentStore_iface demo_tree_prims) demo_nodes (demo_node_hash [97])
      (map_of (rev (demo_bindings ''a'')))"
    by (rule BuildTrie_root(2) [OF demo_tree_prims_ok demo_good_bindings demo_tree_build [folded demo_tree_store]])
  then show ?thesis by (simp add: demo_tree_store demo_bindings_def)
qed


theorem merge_uri_not_atomic_witness:
  "\<exists>err s'. merge_loop demo_tree_prims demo_index (demo_tree_hctx []) ''no-overwrite'' False (\<lambda>r. applyPrefix r [] [])
        [(''y/a'', demo_v CHR ''a''), (Scheme @ demo_ns @ ''/z'', demo_v CHR ''b'')]
        \<lparr>ms_applied = 0, ms_skipped = 0, ms_conflicts = [], ms_incomplete = []\<rparr> demo_tree_state = (Inl err, s') \<and>
      mli_abs (hs_index s') (''/'' @ demo_ns @ ''/y/a'') = Some (demo_v CHR ''a'')"
proof -
  have "ValidateAbsolutePath (Canonicalize ''y/a'' demo_ns) = Inr ()" "ValidateAbsolutePath (''/'' @ demo_ns @ ''/'' @ ''z'') = Inr ()"
    "slash \<notin> set demo_ns" "demo_ns \<noteq> []" by code_simp+
  moreover have "''/'' @ demo_ns @ ''/y/a'' \<noteq> demo_key_a" by (simp add: demo_key_a_def)
  ultimately show ?thesis
    using merge_uri_not_atomic [of demo_tree_state "demo_tree_hctx []" demo_ns "''y/a''" "''/'' @ demo_ns @ ''/y/a''" demo_ns "''z''"
        demo_tree_prims "MemoryContentStore_iface demo_tree_prims" 0 "''no-overwrite''" "demo_v CHR ''a''" "demo_v CHR ''b''"
        "\<lparr>ms_applied = 0, ms_skipped = 0, ms_conflicts = [], ms_incomplete = []\<rparr>"] demo_canonical(3)
    by (auto simp: demo_abs)
qed

section \<open>Extracts\<close>

lemma demo_v_node: "demo_v CHR ''a'' \<noteq> demo_node_hash raw"
proof -
  have "hd (Digest (demo_v CHR ''a'')) = 97" "hd (Digest (demo_node_hash raw)) = 115"
    by (simp_all add: demo_v_def demo_node_hash_def demo_pad_def TypeTreeSnapshotNode_def)
  then show ?thesis by auto
qed

lemma demo_node_get:
  "cs_Get demo_store (demo_node_hash [97]) demo_nodes = Some (demo_node_entity [97])"
  "cs_Get demo_store (demo_node_hash [1]) demo_nodes = Some (demo_node_entity [1])"
  "cs_Get demo_store (demo_v CHR ''a'') demo_nodes = None"
  by (simp_all add: MemoryContentStore_iface_def mcs_Get_def demo_nodes_def demo_get demo_raws)
     (simp add: demo_content_def gm_get_def demo_v_node)

lemma demo_head:
  "li_Get demo_index (revisionHeadPath demo_tree_prims (resolveAbsolutePrefix ''x/'' demo_ns))
     \<lparr>paths = [(demo_key_a, demo_v CHR ''a'')]\<rparr> = None"
  by code_simp

lemma demo_current:
  "resolveCurrentTrieRoot demo_tree_prims 0 demo_store demo_index (demo_tree_hctx ''x/'') ''x/'' demo_tree_state =
     (Inr (demo_node_hash [97], False), demo_tree_state)"
proof -
  have "BuildTrie demo_tree_prims 0 demo_store (demo_bindings ''a'') demo_nodes = (Inr (demo_node_hash [97]), demo_nodes)"
    using guarded_BuildTrie [OF demo_tree_build] by simp
  moreover have "relative_bindings (\<lambda>_. True) demo_q (li_List demo_index ''x/'' (hs_index demo_tree_state)) = demo_bindings ''a''"
    using demo_relative [of demo_tree_prims demo_store "''x/''" demo_nodes "''get''"] by (simp add: relative_bindings_def)
  moreover have "demo_bindings ''a'' \<noteq> []" "demo_tree_state\<lparr>hs_store := demo_nodes\<rparr> = demo_tree_state"
    by (simp_all add: demo_bindings_def demo_tree_state_def)
  ultimately show ?thesis
    using demo_head by (simp add: resolveCurrentTrieRoot_def demo_qualified Let_def)
qed

lemma demo_plain: "plain_values demo_tree_prims demo_store demo_nodes"
proof -
  have "h = demo_node_hash [97] \<or> h = demo_node_hash [1]" if "cs_Get demo_store h demo_nodes = Some e" for h e
    using that by (auto simp: MemoryContentStore_iface_def mcs_Get_def demo_nodes_def demo_content_def gm_get_def split: if_splits)
  moreover have "LoadTrieNode demo_tree_prims demo_store (demo_node_hash [97]) demo_nodes = Some (demo_flat ''a'')"
    "LoadTrieNode demo_tree_prims demo_store (demo_node_hash [1]) demo_nodes = Some EmptyNode"
    "LoadTrieNode demo_tree_prims demo_store (demo_v CHR ''a'') demo_nodes = None"
    by (simp_all add: LoadTrieNode_def demo_node_get demo_node_entity_def demo_decodes)
  ultimately show ?thesis
    by (fastforce simp: plain_values_def LoadTrieNode_def demo_flat_def EmptyNode_def demo_tuples_def split: option.splits sum.splits)
qed

lemma demo_envelope: "\<exists>r. envelope_response demo_tree_prims 0 root inc = Inr r \<and> resp_Status r = 200"
  using demo_to_entity [of "[1]" TypeTreeSnapshot] demo_to_entity [of "[1]" "''system/envelope''"]
  by (auto simp: envelope_response_def SnapshotData_ToEntity_def TypeTreeSnapshot_def envelope_ToEntity_def to_entity_def)



end
