(* ===== verification/Rev_Types.thy ===== *)
theory Rev_Types
  imports Tree_Writes
begin

text \<open>
  The payloads of the revision extension (\<^verbatim>\<open>core/types/revision.go\<close>) and the parameters that its
  definitions take beside those of the tree handler: the ECF codecs of the payloads. A value of a
  decoded map (\<^verbatim>\<open>map[string]interface{}\<close>) is represented by its ECF encoding; a missing key reads as
  nil, whose encoding is the byte \<^verbatim>\<open>0xf6\<close>.
\<close>

section \<open>Entities\<close>

record RevisionConflictData =
  rc_Path :: string
  rc_Base :: hash
  rc_Local :: hash
  rc_Remote :: hash
  rc_Strategy :: string
  rc_VersionLocal :: hash
  rc_VersionRemote :: hash
  rc_Supersedes :: hash

record RevisionMergeConfigData =
  mcfg_Pattern :: string
  mcfg_Strategy :: string
  mcfg_DeletionResolution :: string
  mcfg_Handler :: string

record RevisionConfigData =
  rcfg_Prefix :: string
  rcfg_Exclude :: "string list"
  rcfg_ExcludeTypes :: "string list"
  rcfg_AutoVersion :: "bool option"
  rcfg_MergeOrder :: string
  rcfg_OscillationDepth :: "u64 option"

record RevisionCascadeWarningData =
  wn_Path :: string
  wn_ConsumerHalted :: string
  wn_ErrorCode :: string

record RevisionStatusData =
  st_Prefix :: string
  st_Head :: hash
  st_Remotes :: "(string, hash) gomap"
  st_Conflicts :: u64
  st_Pending :: u64
  st_KeepBothPaths :: "string list"

section \<open>Parameters of the operations\<close>

record RevisionCommitParamsData =
  cmp_Prefix :: string
  cmp_Message :: "string option"

record RevisionLogParamsData =
  lgp_Prefix :: string
  lgp_Limit :: "u64 option"
  lgp_StartAt :: hash

record RevisionStatusParamsData =
  stp_Prefix :: string

record RevisionMergeParamsData =
  mgp_Prefix :: string
  mgp_RemoteVersion :: hash
  mgp_SourceEnvelope :: bytes
  mgp_Strategy :: string
  mgp_DryRun :: "bool option"

record RevisionResolveParamsData =
  rsp_Prefix :: string
  rsp_Path :: string
  rsp_Resolved :: "hash option"

record RevisionAncestorParamsData =
  anp_VersionA :: hash
  anp_VersionB :: hash

record RevisionBranchParamsData =
  brp_Prefix :: string
  brp_Action :: string
  brp_Name :: string
  brp_From :: hash

record RevisionCheckoutParamsData =
  cop_Prefix :: string
  cop_Branch :: string
  cop_Version :: hash

record RevisionTagParamsData =
  tgp_Prefix :: string
  tgp_Action :: string
  tgp_Name :: string
  tgp_Version :: hash

record RevisionDiffParamsData =
  dfp_Prefix :: string
  dfp_Base :: hash
  dfp_Target :: hash

text \<open>The parameters of cherry-pick and of revert have the same fields.\<close>

record RevisionPickParamsData =
  pkp_Prefix :: string
  pkp_Version :: hash
  pkp_Parent :: hash

record RevisionFetchParamsData =
  ftp_Prefix :: string
  ftp_RemotePrefix :: string
  ftp_Remote :: string
  ftp_Since :: hash
  ftp_Depth :: "u64 option"

record RevisionFetchEntitiesParamsData =
  fep_Prefix :: string
  fep_Snapshot :: hash
  fep_Hashes :: "hash list"

record RevisionFetchDiffParamsData =
  fdp_Prefix :: string
  fdp_Base :: hash

record RevisionPushParamsData =
  psp_Remote :: string
  psp_Prefix :: string
  psp_RemotePrefix :: string
  psp_Versions :: "hash list"

record RevisionConfigParamsData =
  cfp_Name :: string
  cfp_Action :: string
  cfp_Config :: "RevisionConfigData option"
  cfp_ExpectedHash :: "hash option"

record RevisionMergeConfigParamsData =
  mcp_Scope :: string
  mcp_Name :: string
  mcp_Action :: string
  mcp_Config :: "RevisionMergeConfigData option"
  mcp_ExpectedHash :: "hash option"

section \<open>Results\<close>

record RevisionCommitResultData =
  cmr_Version :: hash
  cmr_Root :: hash

record RevisionLogResultData =
  lgr_Prefix :: string
  lgr_Versions :: "hash list"
  lgr_HasMore :: bool

record RevisionMergeResultData =
  mgr_Status :: string
  mgr_Version :: hash
  mgr_Conflicts :: "string list"
  mgr_MergedCount :: "u64 option"
  mgr_DeletedCount :: "u64 option"
  mgr_CascadeWarnings :: "RevisionCascadeWarningData list"

record RevisionResolveResultData =
  rsr_Path :: string
  rsr_Resolved :: "hash option"
  rsr_RemainingConflicts :: u64

record RevisionFetchResultData =
  ftr_Head :: hash
  ftr_Versions :: "hash list"
  ftr_HasMore :: "bool option"

record RevisionFetchEntitiesResultData =
  fer_Found :: "hash list"
  fer_Missing :: "hash list"

record RevisionPushResultData =
  psr_Status :: string
  psr_Versions :: "u64 option"
  psr_Message :: string

record RevisionConfigResultData =
  cfr_ConfigPath :: string
  cfr_ConfigHash :: hash
  cfr_PreviousHash :: hash
  cfr_TrackingConfigPath :: string
  cfr_TrackingConfigAction :: string

record RevisionMergeConfigResultData =
  mcr_Path :: string
  mcr_Hash :: hash
  mcr_Status :: string

record TrackingConfigData =
  tk_Prefix :: string
  tk_Enabled :: bool

record RevisionAncestorResultData =
  anr_Ancestor :: hash

record RevisionBranchResultData =
  brr_Status :: string
  brr_Branch :: string
  brr_Version :: hash
  brr_Branches :: "(string, hash) gomap"
  brr_Active :: string

record RevisionCheckoutResultData =
  cor_Status :: string
  cor_Version :: hash
  cor_Branch :: string
  cor_CascadeWarnings :: "RevisionCascadeWarningData list"

record RevisionTagResultData =
  tgr_Status :: string
  tgr_Tag :: string
  tgr_Version :: hash
  tgr_Tags :: "(string, hash) gomap"

text \<open>The results of cherry-pick and of revert; \<open>pkr_Of\<close> is the field \<^verbatim>\<open>Source\<close> or \<^verbatim>\<open>Reverted\<close>.\<close>

record RevisionPickResultData =
  pkr_Status :: string
  pkr_Version :: hash
  pkr_Of :: hash
  pkr_Conflicts :: "string list"
  pkr_CascadeWarnings :: "RevisionCascadeWarningData list"

record RevisionMergeRequestData =
  mrq_Base :: hash
  mrq_Local :: hash
  mrq_Remote :: hash

record RevisionMergeResponseData =
  mrs_Resolved :: bool
  mrs_Entity :: hash
  mrs_Reason :: string

section \<open>Codecs\<close>

record rev_prims = tree_prims +
  ecf_EncodeRevisionEntry :: "RevisionEntryData \<Rightarrow> bytes result"
  ecf_EncodeConflict :: "RevisionConflictData \<Rightarrow> bytes result"
  ecf_DecodeMergeConfig :: "bytes \<Rightarrow> RevisionMergeConfigData result"
  ecf_DecodeRevisionConfig :: "bytes \<Rightarrow> RevisionConfigData result"
  ecf_DecodeString :: "bytes \<Rightarrow> string result"
  ecf_DecodeAnyMap :: "bytes \<Rightarrow> (string, bytes) gomap result"
  ecf_EncodeAnyMap :: "(string, bytes) gomap \<Rightarrow> bytes result"
  ecf_EncodeMergeRequest :: "RevisionMergeRequestData \<Rightarrow> bytes result"
  ecf_DecodeMergeResponse :: "bytes \<Rightarrow> RevisionMergeResponseData result"
  ecf_DecodeFetchResult :: "bytes \<Rightarrow> RevisionFetchResultData result"
  ecf_DecodeCommitParams :: "bytes \<Rightarrow> RevisionCommitParamsData result"
  ecf_DecodeLogParams :: "bytes \<Rightarrow> RevisionLogParamsData result"
  ecf_DecodeStatusParams :: "bytes \<Rightarrow> RevisionStatusParamsData result"
  ecf_DecodeMergeParams :: "bytes \<Rightarrow> RevisionMergeParamsData result"
  ecf_DecodeResolveParams :: "bytes \<Rightarrow> RevisionResolveParamsData result"
  ecf_DecodeAncestorParams :: "bytes \<Rightarrow> RevisionAncestorParamsData result"
  ecf_DecodeBranchParams :: "bytes \<Rightarrow> RevisionBranchParamsData result"
  ecf_DecodeCheckoutParams :: "bytes \<Rightarrow> RevisionCheckoutParamsData result"
  ecf_DecodeTagParams :: "bytes \<Rightarrow> RevisionTagParamsData result"
  ecf_DecodeDiffParams :: "bytes \<Rightarrow> RevisionDiffParamsData result"
  ecf_DecodeFetchParams :: "bytes \<Rightarrow> RevisionFetchParamsData result"
  ecf_DecodeFetchEntitiesParams :: "bytes \<Rightarrow> RevisionFetchEntitiesParamsData result"
  ecf_DecodeFetchDiffParams :: "bytes \<Rightarrow> RevisionFetchDiffParamsData result"
  ecf_DecodePushParams :: "bytes \<Rightarrow> RevisionPushParamsData result"
  ecf_DecodeConfigParams :: "bytes \<Rightarrow> RevisionConfigParamsData result"
  ecf_DecodeMergeConfigParams :: "bytes \<Rightarrow> RevisionMergeConfigParamsData result"
  ecf_DecodePickParams :: "bytes \<Rightarrow> RevisionPickParamsData result"
  ecf_EncodeCommitResult :: "RevisionCommitResultData \<Rightarrow> bytes result"
  ecf_EncodeLogResult :: "RevisionLogResultData \<Rightarrow> bytes result"
  ecf_EncodeRevMergeResult :: "RevisionMergeResultData \<Rightarrow> bytes result"
  ecf_EncodeResolveResult :: "RevisionResolveResultData \<Rightarrow> bytes result"
  ecf_EncodeAncestorResult :: "RevisionAncestorResultData \<Rightarrow> bytes result"
  ecf_EncodeBranchResult :: "RevisionBranchResultData \<Rightarrow> bytes result"
  ecf_EncodeCheckoutResult :: "RevisionCheckoutResultData \<Rightarrow> bytes result"
  ecf_EncodeTagResult :: "RevisionTagResultData \<Rightarrow> bytes result"
  ecf_EncodePickResult :: "RevisionPickResultData \<Rightarrow> bytes result"
  ecf_EncodeFetchResult :: "RevisionFetchResultData \<Rightarrow> bytes result"
  ecf_EncodeFetchEntitiesResult :: "RevisionFetchEntitiesResultData \<Rightarrow> bytes result"
  ecf_EncodePushResult :: "RevisionPushResultData \<Rightarrow> bytes result"
  ecf_EncodeConfigResult :: "RevisionConfigResultData \<Rightarrow> bytes result"
  ecf_EncodeMergeConfigResult :: "RevisionMergeConfigResultData \<Rightarrow> bytes result"
  ecf_EncodeMergeConfig :: "RevisionMergeConfigData \<Rightarrow> bytes result"
  ecf_EncodeRevisionConfig :: "RevisionConfigData \<Rightarrow> bytes result"
  ecf_EncodeTrackingConfig :: "TrackingConfigData \<Rightarrow> bytes result"
  ecf_EncodeStatus :: "RevisionStatusData \<Rightarrow> bytes result"

definition TypeRevisionEntry :: string where "TypeRevisionEntry = ''system/revision/entry''"

definition TypeRevisionConflict :: string where "TypeRevisionConflict = ''system/revision/conflict''"

definition TypeRevisionMergeRequest :: string where "TypeRevisionMergeRequest = ''system/revision/merge-request''"

definition TypeRevisionMergeResponse :: string where "TypeRevisionMergeResponse = ''system/revision/merge-response''"

definition RevisionEntryData_ToEntity :: "'p rev_prims_scheme \<Rightarrow> byte \<Rightarrow> RevisionEntryData \<Rightarrow> entity result" where
  "RevisionEntryData_ToEntity P dflt d = to_entity P dflt TypeRevisionEntry (ecf_EncodeRevisionEntry P d)"

definition RevisionConflictData_ToEntity :: "'p rev_prims_scheme \<Rightarrow> byte \<Rightarrow> RevisionConflictData \<Rightarrow> entity result" where
  "RevisionConflictData_ToEntity P dflt d = to_entity P dflt TypeRevisionConflict (ecf_EncodeConflict P d)"

text \<open>An ignored error leaves the zero entity.\<close>

definition or_zero :: "entity result \<Rightarrow> entity" where
  "or_zero r = (case r of Inl _ \<Rightarrow> zero_entity | Inr e \<Rightarrow> e)"

end
