(* ===== verification/Rev_Dag.thy ===== *)
theory Rev_Dag
  imports Rev_Types
begin

text \<open>
  The version DAG of the revision extension: \<^verbatim>\<open>ext/revision/dag.go\<close>. The walks are worklist loops over
  hashes; they take fuel, with \<open>None\<close> for a run that needs more, and the theorems show how much is
  enough. Visited sets are lists.
\<close>

section \<open>The code\<close>

definition loadVersion :: "'p tree_prims_scheme \<Rightarrow> 'c ContentStore \<Rightarrow> 'c \<Rightarrow> hash \<Rightarrow> RevisionEntryData option" where
  "loadVersion P C cs h =
     (case cs_Get C h cs of
        None \<Rightarrow> None
      | Some ent \<Rightarrow> (case RevisionEntryDataFromEntity P ent of Inl _ \<Rightarrow> None | Inr v \<Rightarrow> Some v))"

fun history_loop ::
  "nat \<Rightarrow> 'p tree_prims_scheme \<Rightarrow> 'c ContentStore \<Rightarrow> 'c \<Rightarrow> int \<Rightarrow> hash \<Rightarrow> hash list \<Rightarrow> hash list \<Rightarrow>
     (RevisionEntryData \<times> hash) list \<Rightarrow> (RevisionEntryData \<times> hash) list option" where
  "history_loop fuel P C cs limit since visited [] out = Some out"
| "history_loop 0 P C cs limit since visited (current # queue) out = None"
| "history_loop (Suc fuel) P C cs limit since visited (current # queue) out =
     (if limit > 0 \<and> int (length out) \<ge> limit then Some out
      else if current \<in> set visited then history_loop fuel P C cs limit since visited queue out
      else if \<not> IsZero since \<and> current = since then history_loop fuel P C cs limit since (current # visited) queue out
      else (case loadVersion P C cs current of
              None \<Rightarrow> history_loop fuel P C cs limit since (current # visited) queue out
            | Some v \<Rightarrow>
                history_loop fuel P C cs limit since (current # visited)
                  (queue @ filter (\<lambda>p. p \<notin> set (current # visited)) (rv_Parents v)) (out @ [(v, current)])))"

definition walkHistory ::
  "nat \<Rightarrow> 'p tree_prims_scheme \<Rightarrow> 'c ContentStore \<Rightarrow> 'c \<Rightarrow> hash \<Rightarrow> int \<Rightarrow> hash \<Rightarrow>
     (RevisionEntryData \<times> hash) list option" where
  "walkHistory fuel P C cs head limit since =
     (if IsZero head then Some [] else history_loop fuel P C cs limit since [] [head] [])"

text \<open>The parents of a version that were not seen are marked and queued, in order.\<close>

fun enqueue :: "hash list \<Rightarrow> hash list \<Rightarrow> hash list \<Rightarrow> hash list \<times> hash list" where
  "enqueue [] visited queue = (visited, queue)"
| "enqueue (p # ps) visited queue =
     (if p \<in> set visited then enqueue ps visited queue else enqueue ps (p # visited) (queue @ [p]))"

definition expand ::
  "'p tree_prims_scheme \<Rightarrow> 'c ContentStore \<Rightarrow> 'c \<Rightarrow> hash \<Rightarrow> hash list \<Rightarrow> hash list \<Rightarrow> hash list \<times> hash list" where
  "expand P C cs current visited queue =
     (case loadVersion P C cs current of
        None \<Rightarrow> (visited, queue)
      | Some v \<Rightarrow> enqueue (rv_Parents v) visited queue)"

text \<open>
  One side of an iteration: \<open>Inl\<close> the answer, or the new visited set and queue of that side. The loop
  takes both sides in turn.
\<close>

definition search_side ::
  "'p tree_prims_scheme \<Rightarrow> 'c ContentStore \<Rightarrow> 'c \<Rightarrow> hash list \<Rightarrow> hash list \<times> hash list \<Rightarrow> hash + hash list \<times> hash list" where
  "search_side P C cs other side =
     (case side of
        (visited, []) \<Rightarrow> Inr (visited, [])
      | (visited, current # queue) \<Rightarrow>
          if current \<in> set other then Inl current else Inr (expand P C cs current visited queue))"

fun common_loop ::
  "nat \<Rightarrow> 'p tree_prims_scheme \<Rightarrow> 'c ContentStore \<Rightarrow> 'c \<Rightarrow> hash list \<times> hash list \<Rightarrow> hash list \<times> hash list \<Rightarrow>
     hash option option" where
  "common_loop 0 P C cs a b = (if snd a = [] \<and> snd b = [] then Some None else None)"
| "common_loop (Suc fuel) P C cs a b =
     (if snd a = [] \<and> snd b = [] then Some None
      else (case search_side P C cs (fst b) a of
              Inl h \<Rightarrow> Some (Some h)
            | Inr a1 \<Rightarrow>
                (case search_side P C cs (fst a1) b of
                   Inl h \<Rightarrow> Some (Some h)
                 | Inr b1 \<Rightarrow> common_loop fuel P C cs a1 b1)))"

definition findCommonAncestor ::
  "nat \<Rightarrow> 'p tree_prims_scheme \<Rightarrow> 'c ContentStore \<Rightarrow> 'c \<Rightarrow> hash \<Rightarrow> hash \<Rightarrow> hash option option" where
  "findCommonAncestor fuel P C cs a b =
     (if a = b then Some (Some a)
      else if IsZero a \<or> IsZero b then Some None
      else common_loop fuel P C cs ([a], [a]) ([b], [b]))"

fun ancestor_loop ::
  "nat \<Rightarrow> 'p tree_prims_scheme \<Rightarrow> 'c ContentStore \<Rightarrow> 'c \<Rightarrow> hash \<Rightarrow> hash list \<Rightarrow> hash list \<Rightarrow> bool option" where
  "ancestor_loop fuel P C cs target visited [] = Some False"
| "ancestor_loop 0 P C cs target visited (current # queue) = None"
| "ancestor_loop (Suc fuel) P C cs target visited (current # queue) =
     (if current \<in> set visited then ancestor_loop fuel P C cs target visited queue
      else (case loadVersion P C cs current of
              None \<Rightarrow> ancestor_loop fuel P C cs target (current # visited) queue
            | Some v \<Rightarrow>
                if target \<in> set (rv_Parents v) then Some True
                else ancestor_loop fuel P C cs target (current # visited)
                       (queue @ filter (\<lambda>p. p \<notin> set (current # visited)) (rv_Parents v))))"

definition isAncestor ::
  "nat \<Rightarrow> 'p tree_prims_scheme \<Rightarrow> 'c ContentStore \<Rightarrow> 'c \<Rightarrow> hash \<Rightarrow> hash \<Rightarrow> bool option" where
  "isAncestor fuel P C cs potentialAncestor descendant =
     (if potentialAncestor = descendant then Some True
      else ancestor_loop fuel P C cs potentialAncestor [] [descendant])"

definition checkRelationship ::
  "nat \<Rightarrow> 'p tree_prims_scheme \<Rightarrow> 'c ContentStore \<Rightarrow> 'c \<Rightarrow> hash \<Rightarrow> hash \<Rightarrow> string option" where
  "checkRelationship fuel P C cs local remote =
     (if local = remote then Some ''in_sync''
      else if IsZero local then Some ''behind''
      else if IsZero remote then Some ''ahead''
      else (case isAncestor fuel P C cs local remote of
              None \<Rightarrow> None
            | Some True \<Rightarrow> Some ''behind''
            | Some False \<Rightarrow>
                (case isAncestor fuel P C cs remote local of
                   None \<Rightarrow> None
                 | Some True \<Rightarrow> Some ''ahead''
                 | Some False \<Rightarrow> Some ''diverged'')))"

text \<open>One level of the search for the candidate: \<open>None\<close> is the answer true.\<close>

fun oscillation_level ::
  "'p tree_prims_scheme \<Rightarrow> 'c ContentStore \<Rightarrow> 'c \<Rightarrow> hash \<Rightarrow> hash list \<Rightarrow> hash list \<Rightarrow> hash list \<Rightarrow>
     (hash list \<times> hash list) option" where
  "oscillation_level P C cs candidate visited next [] = Some (visited, next)"
| "oscillation_level P C cs candidate visited next (current # queue) =
     (if IsZero current \<or> current \<in> set visited then oscillation_level P C cs candidate visited next queue
      else if current = candidate then None
      else (case loadVersion P C cs current of
              None \<Rightarrow> oscillation_level P C cs candidate (current # visited) next queue
            | Some v \<Rightarrow> oscillation_level P C cs candidate (current # visited) (next @ rv_Parents v) queue))"

fun oscillation_loop ::
  "nat \<Rightarrow> 'p tree_prims_scheme \<Rightarrow> 'c ContentStore \<Rightarrow> 'c \<Rightarrow> hash \<Rightarrow> hash list \<Rightarrow> hash list \<Rightarrow> bool" where
  "oscillation_loop 0 P C cs candidate visited queue = False"
| "oscillation_loop (Suc depth) P C cs candidate visited queue =
     (if queue = [] then False
      else (case oscillation_level P C cs candidate visited [] queue of
              None \<Rightarrow> True
            | Some (visited1, next) \<Rightarrow> oscillation_loop depth P C cs candidate visited1 next))"

definition detectOscillation ::
  "'p rev_prims_scheme \<Rightarrow> byte \<Rightarrow> 'c ContentStore \<Rightarrow> 'c \<Rightarrow> hash \<Rightarrow> hash list \<Rightarrow> hash \<Rightarrow> int \<Rightarrow> bool" where
  "detectOscillation P dflt C cs proposedRoot proposedParents localHead depthLimit =
     (case RevisionEntryData_ToEntity P dflt \<lparr>rv_Root = proposedRoot, rv_Parents = SortedParents proposedParents\<rparr> of
        Inl _ \<Rightarrow> False
      | Inr candidateEnt \<Rightarrow>
          oscillation_loop (nat (if depthLimit \<le> 0 then 4 else depthLimit)) P C cs (ContentHash candidateEnt) [] [localHead])"

section \<open>Ancestry\<close>

definition parent_of :: "'p tree_prims_scheme \<Rightarrow> 'c ContentStore \<Rightarrow> 'c \<Rightarrow> hash \<Rightarrow> hash \<Rightarrow> bool" where
  "parent_of P C cs h p \<longleftrightarrow> (\<exists>v. loadVersion P C cs h = Some v \<and> p \<in> set (rv_Parents v))"

abbreviation ancestry :: "'p tree_prims_scheme \<Rightarrow> 'c ContentStore \<Rightarrow> 'c \<Rightarrow> hash \<Rightarrow> hash set" where
  "ancestry P C cs h \<equiv> {a. (parent_of P C cs)\<^sup>*\<^sup>* h a}"

definition parents_at :: "'p tree_prims_scheme \<Rightarrow> 'c ContentStore \<Rightarrow> 'c \<Rightarrow> hash \<Rightarrow> hash list" where
  "parents_at P C cs h = (case loadVersion P C cs h of None \<Rightarrow> [] | Some v \<Rightarrow> rv_Parents v)"

lemma parent_of_iff: "parent_of P C cs h p \<longleftrightarrow> p \<in> set (parents_at P C cs h)"
  by (cases "loadVersion P C cs h") (auto simp: parent_of_def parents_at_def)

definition versions :: "'p tree_prims_scheme \<Rightarrow> 'c ContentStore \<Rightarrow> 'c \<Rightarrow> hash set" where
  "versions P C cs = {h. loadVersion P C cs h \<noteq> None}"

text \<open>The number of parent links in a store: enough fuel for every walk.\<close>

definition link_count :: "'p tree_prims_scheme \<Rightarrow> 'c ContentStore \<Rightarrow> 'c \<Rightarrow> nat" where
  "link_count P C cs = (\<Sum>h \<in> versions P C cs. length (parents_at P C cs h))"

text \<open>
  A set of visited hashes whose parents are visited or queued: what it reaches outside of itself it
  reaches through the queue.
\<close>

definition frontier :: "'p tree_prims_scheme \<Rightarrow> 'c ContentStore \<Rightarrow> 'c \<Rightarrow> hash set \<Rightarrow> hash set \<Rightarrow> bool" where
  "frontier P C cs V Q \<longleftrightarrow> (\<forall>h \<in> V. \<forall>p. parent_of P C cs h p \<longrightarrow> p \<in> V \<or> p \<in> Q)"

lemma frontier_step:
  "frontier P C cs V (insert h Q) \<Longrightarrow> frontier P C cs (insert h V) (Q \<union> (set (parents_at P C cs h) - insert h V))"
  by (auto simp: frontier_def parent_of_iff)

lemma frontier_skip: "frontier P C cs V (insert h Q) \<Longrightarrow> h \<in> V \<Longrightarrow> frontier P C cs V Q"
  by (auto simp: frontier_def)

lemma frontier_closed: "frontier P C cs V {} \<Longrightarrow> h \<in> V \<Longrightarrow> (parent_of P C cs)\<^sup>*\<^sup>* h a \<Longrightarrow> a \<in> V"
  by (rotate_tac 2, induction rule: rtranclp_induct) (auto simp: frontier_def)

lemma ancestor_avoids:
  assumes "frontier P C cs V Q" "\<forall>h \<in> V. \<not> parent_of P C cs h t" "(parent_of P C cs)\<^sup>+\<^sup>+ h t" "h \<in> V"
  shows "\<exists>q \<in> Q - V. (parent_of P C cs)\<^sup>+\<^sup>+ q t"
  using assms(3,4)
proof (induction rule: converse_tranclp_induct)
  case (base y)
  then show ?case using assms(2) by blast
next
  case (step y z)
  then show ?case using assms(1) unfolding frontier_def by blast
qed

lemma ancestor_correct:
  "ancestor_loop fuel P C cs t visited queue = Some r \<Longrightarrow> frontier P C cs (set visited) (set queue) \<Longrightarrow>
   \<forall>h \<in> set visited. \<not> parent_of P C cs h t \<Longrightarrow>
   r \<longleftrightarrow> (\<exists>q \<in> set queue. (parent_of P C cs)\<^sup>+\<^sup>+ q t)"
proof (induction fuel P C cs t visited queue rule: ancestor_loop.induct)
  case (3 fuel P C cs t visited h q)
  let ?R = "(parent_of P C cs)\<^sup>+\<^sup>+"
  have fr: "frontier P C cs (set visited) (insert h (set q))" using "3.prems"(2) by simp
  consider "h \<in> set visited" | "h \<notin> set visited" "loadVersion P C cs h = None"
    | v where "h \<notin> set visited" "loadVersion P C cs h = Some v" "t \<in> set (rv_Parents v)"
    | v where "h \<notin> set visited" "loadVersion P C cs h = Some v" "t \<notin> set (rv_Parents v)" by fastforce
  then show ?case
  proof cases
    case 1
    then have "r \<longleftrightarrow> (\<exists>q' \<in> set q. ?R q' t)"
      using "3.IH"(1) "3.prems" frontier_skip [OF fr] by simp
    then show ?thesis using ancestor_avoids [OF fr "3.prems"(3) _ 1] 1 by auto
  next
    case 2
    then have np: "\<not> parent_of P C cs h p" for p by (simp add: parent_of_def)
    then have "frontier P C cs (set (h # visited)) (set q)" using fr by (auto simp: frontier_def)
    then have "r \<longleftrightarrow> (\<exists>q' \<in> set q. ?R q' t)" using "3.IH"(2) 2 "3.prems" np by simp
    moreover have "\<not> ?R h t" using np by (meson tranclpD)
    ultimately show ?thesis by auto
  next
    case (3 v)
    then have "?R h t" by (auto simp: parent_of_def intro: tranclp.r_into_trancl)
    then show ?thesis using 3 "3.prems"(1) by auto
  next
    case (4 v)
    let ?new = "filter (\<lambda>p. p \<notin> set (h # visited)) (rv_Parents v)"
    have pars: "parents_at P C cs h = rv_Parents v" using 4(2) by (simp add: parents_at_def)
    have fr': "frontier P C cs (set (h # visited)) (set (q @ ?new))"
      using frontier_step [OF fr] pars by (simp add: set_diff_eq Un_def)
    have nt: "\<forall>h' \<in> set (h # visited). \<not> parent_of P C cs h' t" using "3.prems"(3) 4 by (auto simp: parent_of_def)
    have r: "r \<longleftrightarrow> (\<exists>q' \<in> set (q @ ?new). ?R q' t)"
      using "3.IH"(3) [OF 4(1,2,3) _ fr' nt] "3.prems"(1) 4 by simp
    have "?R h t" if "q' \<in> set ?new" "?R q' t" for q'
      using that 4(2) tranclp_into_tranclp2 [of "parent_of P C cs" h q' t] by (auto simp: parent_of_def)
    then show ?thesis using r ancestor_avoids [OF fr' nt, of h] by auto
  qed
qed simp_all

text \<open>
  A walk of the history without limit returns each stored version among the ancestors once, with its
  data; a limit cuts the list.
\<close>

definition walked_versions ::
  "'p tree_prims_scheme \<Rightarrow> 'c ContentStore \<Rightarrow> 'c \<Rightarrow> hash set \<Rightarrow> (RevisionEntryData \<times> hash) list \<Rightarrow> bool" where
  "walked_versions P C cs V out \<longleftrightarrow>
     distinct (map snd out) \<and> set (map snd out) = V \<inter> versions P C cs \<and> (\<forall>(v, h) \<in> set out. loadVersion P C cs h = Some v)"

lemma walked_versions_known:
  "walked_versions P C cs V out \<Longrightarrow> loadVersion P C cs h = Some v \<Longrightarrow> h \<notin> V \<Longrightarrow> walked_versions P C cs (insert h V) (out @ [(v, h)])"
  by (auto simp: walked_versions_def versions_def)

lemma walked_versions_unknown:
  "walked_versions P C cs V out \<Longrightarrow> loadVersion P C cs h = None \<Longrightarrow> walked_versions P C cs (insert h V) out"
  by (auto simp: walked_versions_def versions_def)

definition closure :: "'p tree_prims_scheme \<Rightarrow> 'c ContentStore \<Rightarrow> 'c \<Rightarrow> hash set \<Rightarrow> hash set \<Rightarrow> hash set \<Rightarrow> bool" where
  "closure P C cs V Q W \<longleftrightarrow> V \<union> Q \<subseteq> W \<and> W \<subseteq> V \<union> (\<Union>q \<in> Q. ancestry P C cs q) \<and> frontier P C cs W {}"

lemma closure_skip: "closure P C cs V Q W \<Longrightarrow> h \<in> V \<Longrightarrow> closure P C cs V (insert h Q) W"
  unfolding closure_def by blast

lemma closure_step:
  assumes "closure P C cs (insert h V) (Q \<union> (set (parents_at P C cs h) - insert h V)) W"
  shows "closure P C cs V (insert h Q) W"
proof -
  have "ancestry P C cs p \<subseteq> ancestry P C cs h" if "p \<in> set (parents_at P C cs h)" for p
    using that by (auto simp: parent_of_iff [symmetric] intro: converse_rtranclp_into_rtranclp)
  then have "(\<Union>q \<in> Q \<union> (set (parents_at P C cs h) - insert h V). ancestry P C cs q) \<subseteq> (\<Union>q \<in> insert h Q. ancestry P C cs q)"
    by blast
  moreover have "h \<in> ancestry P C cs h" by simp
  ultimately show ?thesis using assms unfolding closure_def by blast
qed

lemma closure_ancestry: "closure P C cs {} {h} W \<Longrightarrow> W = ancestry P C cs h"
  using frontier_closed [of P C cs W h] by (auto simp: closure_def)

lemma history_correct:
  "history_loop fuel P C cs 0 zero_hash visited queue out = Some out' \<Longrightarrow> frontier P C cs (set visited) (set queue) \<Longrightarrow>
   walked_versions P C cs (set visited) out \<Longrightarrow>
   \<exists>W. closure P C cs (set visited) (set queue) W \<and> walked_versions P C cs W out'"
proof (induction fuel arbitrary: visited queue out)
  case 0
  then show ?case by (cases queue) (auto simp: closure_def intro!: exI [of _ "set visited"])
next
  case (Suc fuel)
  show ?case
  proof (cases queue)
    case Nil
    then show ?thesis using Suc.prems by (auto simp: closure_def intro!: exI [of _ "set visited"])
  next
    case (Cons h q)
    have fr: "frontier P C cs (set visited) (insert h (set q))" using Suc.prems(2) Cons by simp
    show ?thesis
    proof (cases "h \<in> set visited")
      case True
      then have "history_loop fuel P C cs 0 zero_hash visited q out = Some out'" using Suc.prems(1) Cons by simp
      from Suc.IH [OF this frontier_skip [OF fr True] Suc.prems(3)] show ?thesis
        using closure_skip True Cons by fastforce
    next
      case new: False
      define v where "v = parents_at P C cs h"
      let ?new = "filter (\<lambda>p. p \<notin> set (h # visited)) v" and ?out = "out @ (case loadVersion P C cs h of None \<Rightarrow> [] | Some v \<Rightarrow> [(v, h)])"
      have "history_loop fuel P C cs 0 zero_hash (h # visited) (q @ ?new) ?out = Some out'"
        using Suc.prems(1) Cons new by (cases "loadVersion P C cs h") (simp_all add: IsZero_def v_def parents_at_def)
      moreover have "frontier P C cs (set (h # visited)) (set (q @ ?new))"
        using frontier_step [OF fr] by (simp add: v_def set_diff_eq Un_def)
      moreover have "walked_versions P C cs (set (h # visited)) ?out"
        using walked_versions_known walked_versions_unknown Suc.prems(3) new by (fastforce split: option.split)
      ultimately obtain W where "closure P C cs (set (h # visited)) (set (q @ ?new)) W" "walked_versions P C cs W out'"
        using Suc.IH by blast
      then show ?thesis using closure_step [of P C cs h "set visited" "set q" W] Cons by (auto simp: v_def set_diff_eq Un_def)
    qed
  qed
qed

lemma history_extends: "history_loop fuel P C cs limit since visited queue out = Some out' \<Longrightarrow> \<exists>more. out' = out @ more"
  by (induction fuel P C cs limit since visited queue out rule: history_loop.induct)
     (fastforce split: if_splits option.splits)+

lemma history_limit:
  "history_loop fuel P C cs 0 since visited queue out = Some out' \<Longrightarrow> length out \<le> n \<Longrightarrow> 0 < n \<Longrightarrow>
   history_loop fuel P C cs (int n) since visited queue out = Some (take n out')"
proof (induction fuel arbitrary: visited queue out)
  case 0
  then show ?case by (cases queue) auto
next
  case (Suc fuel)
  show ?case
  proof (cases "length out = n \<or> queue = []")
    case True
    then show ?thesis using history_extends [OF Suc.prems(1)] Suc.prems by (cases queue) auto
  next
    case False
    then obtain h q where q: "queue = h # q" and n: "length out < n" using Suc.prems(2) by (cases queue) auto
    then show ?thesis
      using Suc.prems Suc.IH [of visited q out] Suc.IH [of "h # visited" q out]
        Suc.IH [of "h # visited" "q @ filter (\<lambda>p. p \<notin> set (h # visited)) (rv_Parents v)" "out @ [(v, h)]" for v]
      by (cases "h \<in> set visited"; cases "\<not> IsZero since \<and> h = since"; cases "loadVersion P C cs h") auto
  qed
qed

section \<open>Common ancestors\<close>

lemma enqueue_sets:
  "enqueue ps visited queue = (visited', queue') \<Longrightarrow>
   set visited' = set visited \<union> set ps \<and> set queue' = set queue \<union> (set ps - set visited)"
  by (induction ps visited queue rule: enqueue.induct) (auto split: if_splits)

lemma enqueue_length:
  "enqueue ps visited queue = (visited', queue') \<Longrightarrow> finite S \<Longrightarrow> set ps \<subseteq> S \<Longrightarrow>
   card (S - set visited') + length queue' = card (S - set visited) + length queue"
proof (induction ps visited queue rule: enqueue.induct)
  case (2 p ps visited queue)
  have "S - set visited - {p} = S - set (p # visited)" by auto
  then have "card (S - set visited) = Suc (card (S - set (p # visited)))" if "p \<notin> set visited"
    using card_Suc_Diff1 [of "S - set visited" p] that "2.prems" by simp
  moreover have "set ps \<subseteq> S" using "2.prems" by simp
  ultimately show ?case using 2 by (cases "p \<in> set visited") (simp_all del: list.set)
qed simp

text \<open>A side of the search: what it saw are ancestors, and the parents of what it took are seen.\<close>

definition side_ok :: "'p tree_prims_scheme \<Rightarrow> 'c ContentStore \<Rightarrow> 'c \<Rightarrow> hash \<Rightarrow> hash list \<times> hash list \<Rightarrow> bool" where
  "side_ok P C cs a side \<longleftrightarrow>
     a \<in> set (fst side) \<and> set (fst side) \<subseteq> ancestry P C cs a \<and> set (snd side) \<subseteq> set (fst side) \<and>
     (\<forall>h \<in> set (fst side) - set (snd side). \<forall>p. parent_of P C cs h p \<longrightarrow> p \<in> set (fst side))"

lemma side_done: "side_ok P C cs a (visited, []) \<Longrightarrow> set visited = ancestry P C cs a"
  using frontier_closed [of P C cs "set visited" a] by (fastforce simp: side_ok_def frontier_def)

locale version_dag =
  fixes P :: "'p tree_prims_scheme" and C :: "'c ContentStore" and cs :: 'c
  assumes finite_versions: "finite (versions P C cs)"
begin

abbreviation anc :: "hash \<Rightarrow> hash \<Rightarrow> bool" where
  "anc \<equiv> (parent_of P C cs)\<^sup>*\<^sup>*"

definition work :: "hash set \<Rightarrow> nat" where
  "work V = (\<Sum>h \<in> versions P C cs - V. length (parents_at P C cs h))"

lemma work_visit:
  assumes "loadVersion P C cs h = Some v" "h \<notin> V"
  shows "work V = length (rv_Parents v) + work (insert h V)"
proof -
  have "versions P C cs - V - {h} = versions P C cs - insert h V" by blast
  moreover have "h \<in> versions P C cs - V" using assms by (simp add: versions_def)
  ultimately show ?thesis
    using sum.remove [of "versions P C cs - V" h "\<lambda>h. length (parents_at P C cs h)"] finite_versions assms(1)
    by (simp add: work_def parents_at_def)
qed

lemma work_unknown: "loadVersion P C cs h = None \<Longrightarrow> work (insert h V) = work V"
  unfolding work_def versions_def by (rule sum.cong) auto

lemma ancestor_fuel:
  "work (set visited) + length queue \<le> fuel \<Longrightarrow> \<exists>r. ancestor_loop fuel P C cs t visited queue = Some r"
proof (induction fuel arbitrary: visited queue)
  case 0
  then show ?case by auto
next
  case (Suc fuel)
  show ?case
  proof (cases queue)
    case (Cons h q)
    consider "h \<in> set visited" | "h \<notin> set visited" "loadVersion P C cs h = None"
      | v where "h \<notin> set visited" "loadVersion P C cs h = Some v" by fastforce
    then show ?thesis
    proof cases
      case 1
      then show ?thesis using Suc Cons by simp
    next
      case 2
      then show ?thesis using Suc.IH [of "h # visited" q] Suc.prems Cons by (simp add: work_unknown)
    next
      case 3
      let ?new = "filter (\<lambda>p. p \<notin> set (h # visited)) (rv_Parents v)"
      have "work (set (h # visited)) + length (q @ ?new) \<le> fuel"
        using Suc.prems Cons work_visit [OF 3(2,1)] length_filter_le [of "\<lambda>p. p \<notin> set (h # visited)" "rv_Parents v"]
        by (simp del: length_filter_le)
      from Suc.IH [OF this] show ?thesis using 3 Cons by auto
    qed
  qed auto
qed

lemma history_fuel:
  "work (set visited) + length queue \<le> fuel \<Longrightarrow> \<exists>r. history_loop fuel P C cs limit since visited queue out = Some r"
proof (induction fuel arbitrary: visited queue out)
  case 0
  then show ?case by auto
next
  case (Suc fuel)
  show ?case
  proof (cases queue)
    case (Cons h q)
    have mono: "work (insert h V) \<le> work V" for V
      unfolding work_def using finite_versions by (intro sum_mono2) auto
    have skip: "\<exists>r. history_loop fuel P C cs limit since V q out = Some r" if "V = visited \<or> V = h # visited" for V out
      using that Suc.IH [of V q out] Suc.prems Cons mono [of "set visited"] by auto
    show ?thesis
    proof (cases "h \<in> set visited \<or> (\<not> IsZero since \<and> h = since) \<or> loadVersion P C cs h = None")
      case True
      then show ?thesis using skip Cons by auto
    next
      case False
      then obtain v where v: "h \<notin> set visited" "loadVersion P C cs h = Some v" by auto
      let ?new = "filter (\<lambda>p. p \<notin> set (h # visited)) (rv_Parents v)"
      have "work (set (h # visited)) + length (q @ ?new) \<le> fuel"
        using Suc.prems Cons work_visit [OF v(2,1)] length_filter_le [of "\<lambda>p. p \<notin> set (h # visited)" "rv_Parents v"]
        by (simp del: length_filter_le)
      from Suc.IH [OF this] show ?thesis using v Cons False by auto
    qed
  qed simp
qed

lemma work_start: "work (set []) + length [h] = link_count P C cs + 1"
  by (simp add: work_def link_count_def)

definition universe :: "hash \<Rightarrow> hash \<Rightarrow> hash set" where
  "universe a b = insert a (insert b (\<Union>h \<in> versions P C cs. set (parents_at P C cs h)))"

lemma universe_parents: "set (parents_at P C cs h) \<subseteq> universe a b"
  by (cases "loadVersion P C cs h") (force simp: universe_def versions_def parents_at_def)+

lemma universe_start: "a \<in> universe a b" "b \<in> universe a b"
  by (simp_all add: universe_def)

lemma finite_universe: "finite (universe a b)"
  using finite_versions by (simp add: universe_def)

lemma card_universe: "card (universe a b) \<le> link_count P C cs + 2"
proof -
  have "card (\<Union>h \<in> versions P C cs. set (parents_at P C cs h)) \<le> link_count P C cs"
    unfolding link_count_def by (rule order_trans [OF card_UN_le [OF finite_versions]]) (auto intro!: sum_mono card_length)
  then show ?thesis
    using finite_versions unfolding universe_def by (simp add: card_insert_if)
qed

definition measure_side :: "hash set \<Rightarrow> hash list \<times> hash list \<Rightarrow> nat" where
  "measure_side S side = card (S - set (fst side)) + length (snd side)"

lemma side_step:
  assumes "side_ok P C cs a (visited, h # queue)"
  shows "side_ok P C cs a (expand P C cs h visited queue)"
    "set visited \<subseteq> set (fst (expand P C cs h visited queue))"
    "set queue \<subseteq> set (snd (expand P C cs h visited queue))"
    "set (fst (expand P C cs h visited queue)) - set visited \<subseteq> set (snd (expand P C cs h visited queue))"
    "finite S \<Longrightarrow> set (parents_at P C cs h) \<subseteq> S \<Longrightarrow>
       Suc (measure_side S (expand P C cs h visited queue)) = measure_side S (visited, h # queue)"
proof -
  have ex: "expand P C cs h visited queue = enqueue (parents_at P C cs h) visited queue"
    by (simp add: expand_def parents_at_def split: option.split)
  obtain visited' queue' where e: "enqueue (parents_at P C cs h) visited queue = (visited', queue')" by fastforce
  note sets = enqueue_sets [OF e]
  have "anc a h" using assms by (simp add: side_ok_def) blast
  then have anc: "anc a p" if "p \<in> set (parents_at P C cs h)" for p
    using that by (auto simp: parent_of_iff [symmetric] dest: rtranclp.rtrancl_into_rtrancl)
  have vis: "a \<in> set visited" "set visited \<subseteq> ancestry P C cs a" "h \<in> set visited" "set queue \<subseteq> set visited"
    using assms by (simp_all add: side_ok_def)
  have old: "p \<in> set visited" if "g \<in> set visited" "g \<noteq> h" "g \<notin> set queue" "p \<in> set (parents_at P C cs g)" for g p
    using assms that unfolding side_ok_def parent_of_iff by simp
  have "p \<in> set visited'" if "g \<in> set visited' - set queue'" "p \<in> set (parents_at P C cs g)" for g p
    using that sets old by (cases "g = h") blast+
  then have "\<forall>g \<in> set visited' - set queue'. \<forall>p. parent_of P C cs g p \<longrightarrow> p \<in> set visited'"
    by (simp add: parent_of_iff)
  moreover have "set visited' \<subseteq> ancestry P C cs a" "set queue' \<subseteq> set visited'" "a \<in> set visited'"
    using sets anc vis by blast+
  ultimately show "side_ok P C cs a (expand P C cs h visited queue)"
    unfolding ex e side_ok_def by simp
  show "set visited \<subseteq> set (fst (expand P C cs h visited queue))" "set queue \<subseteq> set (snd (expand P C cs h visited queue))"
    "set (fst (expand P C cs h visited queue)) - set visited \<subseteq> set (snd (expand P C cs h visited queue))"
    using sets unfolding ex e by auto
  show "Suc (measure_side S (expand P C cs h visited queue)) = measure_side S (visited, h # queue)"
    if "finite S" "set (parents_at P C cs h) \<subseteq> S"
    using enqueue_length [OF e that] unfolding ex e measure_side_def by simp
qed

lemma side_search:
  assumes "side_ok P C cs a side" "search_side P C cs other side = Inr side1"
  shows "side_ok P C cs a side1" "set (fst side) \<subseteq> set (fst side1)"
    "set (fst side1) \<inter> set other \<subseteq> set (fst side) \<inter> set other \<union> set (snd side1)"
    "set (snd side) \<inter> set other \<subseteq> set (snd side1)"
    "finite S \<Longrightarrow> (\<forall>h. set (parents_at P C cs h) \<subseteq> S) \<Longrightarrow>
       measure_side S side1 + (if snd side = [] then 0 else 1) = measure_side S side"
proof -
  obtain visited queue where side: "side = (visited, queue)" by fastforce
  have "side_ok P C cs a side1 \<and> set (fst side) \<subseteq> set (fst side1) \<and>
    set (fst side1) \<inter> set other \<subseteq> set (fst side) \<inter> set other \<union> set (snd side1) \<and>
    set (snd side) \<inter> set other \<subseteq> set (snd side1) \<and>
    (finite S \<longrightarrow> (\<forall>h. set (parents_at P C cs h) \<subseteq> S) \<longrightarrow>
       measure_side S side1 + (if snd side = [] then 0 else 1) = measure_side S side)"
  proof (cases queue)
    case Nil
    then show ?thesis using assms side by (auto simp: search_side_def)
  next
    case (Cons h q)
    then have h: "h \<notin> set other" and s1: "side1 = expand P C cs h visited q"
      using assms(2) side by (simp_all add: search_side_def split: if_splits)
    have ok: "side_ok P C cs a (visited, h # q)" using assms(1) side Cons by simp
    show ?thesis using side_step [OF ok] h unfolding s1 side Cons by auto
  qed
  then show "side_ok P C cs a side1" "set (fst side) \<subseteq> set (fst side1)"
    "set (fst side1) \<inter> set other \<subseteq> set (fst side) \<inter> set other \<union> set (snd side1)"
    "set (snd side) \<inter> set other \<subseteq> set (snd side1)"
    "finite S \<Longrightarrow> (\<forall>h. set (parents_at P C cs h) \<subseteq> S) \<Longrightarrow>
       measure_side S side1 + (if snd side = [] then 0 else 1) = measure_side S side"
    by blast+
qed

lemma side_found:
  assumes "side_ok P C cs a side" "search_side P C cs other side = Inl h"
  shows "h \<in> set other \<and> anc a h"
proof -
  obtain visited q where "side = (visited, h # q)" "h \<in> set other"
    using assms(2) by (auto simp: search_side_def split: prod.splits list.splits if_splits)
  then show ?thesis using assms(1) by (simp add: side_ok_def) blast
qed

lemma side_seen: "side_ok P C cs a side \<Longrightarrow> h \<in> set (fst side) \<Longrightarrow> anc a h"
  by (simp add: side_ok_def) blast

text \<open>What both sides saw waits in one of the queues: the search cannot pass a common ancestor.\<close>

lemma common_correct:
  assumes "side_ok P C cs a A" "side_ok P C cs b B"
    "set (fst A) \<inter> set (fst B) \<subseteq> set (snd A) \<union> set (snd B)"
    "finite S" "\<forall>h. set (parents_at P C cs h) \<subseteq> S" "measure_side S A + measure_side S B \<le> fuel"
  shows "\<exists>r. common_loop fuel P C cs A B = Some r \<and>
     (case r of Some h \<Rightarrow> anc a h \<and> anc b h | None \<Rightarrow> ancestry P C cs a \<inter> ancestry P C cs b = {})"
  using assms(1-3,6)
proof (induction fuel arbitrary: A B)
  case 0
  then have "snd A = []" "snd B = []" by (simp_all add: measure_side_def)
  then show ?case using 0 side_done [of P C cs a "fst A"] side_done [of P C cs b "fst B"] by (cases A; cases B) simp
next
  case (Suc fuel)
  show ?case
  proof (cases "snd A = [] \<and> snd B = []")
    case True
    then show ?thesis using Suc.prems side_done [of P C cs a "fst A"] side_done [of P C cs b "fst B"] by (cases A; cases B) simp
  next
    case False
    show ?thesis
    proof (cases "search_side P C cs (fst B) A")
      case (Inl h)
      then show ?thesis using False side_found [OF Suc.prems(1) Inl] side_seen [OF Suc.prems(2), of h]
          by simp blast?
    next
      case (Inr A1)
      note sa = side_search [OF Suc.prems(1) Inr]
      show ?thesis
      proof (cases "search_side P C cs (fst A1) B")
        case (Inl h)
        then show ?thesis using False Inr side_found [OF Suc.prems(2) Inl] side_seen [OF sa(1), of h]
          by simp blast?
      next
        case B1: (Inr B1)
        note sb = side_search [OF Suc.prems(2) B1]
        have "set (fst A1) \<inter> set (fst B1) \<subseteq> set (snd A1) \<union> set (snd B1)"
          using Suc.prems(3) sa(2,3,4) sb(2,3,4) by blast
        moreover have "measure_side S A1 + measure_side S B1 \<le> fuel"
          using sa(5) [OF assms(4,5)] sb(5) [OF assms(4,5)] Suc.prems(4) False by (auto split: if_splits)
        ultimately have "\<exists>r. common_loop fuel P C cs A1 B1 = Some r \<and>
            (case r of Some h \<Rightarrow> anc a h \<and> anc b h | None \<Rightarrow> ancestry P C cs a \<inter> ancestry P C cs b = {})"
          using Suc.IH [OF sa(1) sb(1)] by blast
        then show ?thesis using False Inr B1 by simp blast?
      qed
    qed
  qed
qed

lemma measure_start: "a' \<in> {a, b} \<Longrightarrow> measure_side (universe a b) ([a'], [a']) \<le> link_count P C cs + 2"
  using card_Suc_Diff1 [OF finite_universe, of a' a b] card_universe [of a b] universe_start(1) [of a b] universe_start(2) [of b a]
  by (auto simp: measure_side_def)

lemma side_start: "side_ok P C cs a ([a], [a])"
  by (simp add: side_ok_def)

lemma common_total:
  assumes "2 * (link_count P C cs + 2) \<le> fuel" "a \<noteq> b"
  shows "\<exists>r. common_loop fuel P C cs ([a], [a]) ([b], [b]) = Some r \<and>
     (case r of Some h \<Rightarrow> anc a h \<and> anc b h | None \<Rightarrow> ancestry P C cs a \<inter> ancestry P C cs b = {})"
  by (rule common_correct [OF side_start side_start, where S = "universe a b"])
     (use assms universe_parents finite_universe measure_start [of a a b] measure_start [of b a b] in auto)

lemma ancestor_total:
  assumes "link_count P C cs + 1 \<le> fuel"
  shows "isAncestor fuel P C cs a d = Some (anc d a)"
proof (cases "a = d")
  case False
  obtain r where r: "ancestor_loop fuel P C cs a [] [d] = Some r"
    using ancestor_fuel [of "[]" "[d]" fuel a] assms work_start [of d] by auto
  then have "r \<longleftrightarrow> (parent_of P C cs)\<^sup>+\<^sup>+ d a"
    using ancestor_correct [OF r] by (simp add: frontier_def)
  then show ?thesis using r False by (auto simp: isAncestor_def dest: rtranclpD)
qed (simp add: isAncestor_def)

lemma relationship_total:
  assumes "link_count P C cs + 1 \<le> fuel"
  shows "checkRelationship fuel P C cs l r =
    Some (if l = r then ''in_sync'' else if IsZero l then ''behind'' else if IsZero r then ''ahead''
          else if anc r l then ''behind'' else if anc l r then ''ahead'' else ''diverged'')"
  by (simp add: checkRelationship_def ancestor_total [OF assms] split: bool.split)

lemma history_total:
  assumes "link_count P C cs + 1 \<le> fuel" "\<not> IsZero head"
  shows "\<exists>out. walkHistory fuel P C cs head 0 zero_hash = Some out \<and> distinct (map snd out) \<and>
    set (map snd out) = ancestry P C cs head \<inter> versions P C cs \<and>
    (\<forall>(v, h) \<in> set out. loadVersion P C cs h = Some v) \<and>
    (\<forall>n > 0. walkHistory fuel P C cs head (int n) zero_hash = Some (take n out))"
proof -
  obtain out where out: "history_loop fuel P C cs 0 zero_hash [] [head] [] = Some out"
    using history_fuel [of "[]" "[head]" fuel 0 zero_hash "[]"] assms work_start [of head] by auto
  then obtain W where "closure P C cs {} {head} W" "walked_versions P C cs W out"
    using history_correct [OF out] by (auto simp: frontier_def walked_versions_def)
  then show ?thesis
    using out closure_ancestry [of P C cs head W] history_limit [OF out] assms(2)
    by (auto simp: walkHistory_def walked_versions_def)
qed

end

section \<open>The walks in a memory store\<close>

interpretation vmem: version_dag P "MemoryContentStore_iface Q" c for P Q c
proof
  have "versions P (MemoryContentStore_iface Q) c \<subseteq> dom (map_of (entities c))"
    by (auto simp: versions_def loadVersion_def mcs_ops gm_get_def split: option.splits)
  then show "finite (versions P (MemoryContentStore_iface Q) c)"
    using finite_dom_map_of finite_subset by blast
qed

text \<open>
  C26. The search for a common ancestor of two heads ends, with fuel for twice the links of the store and a
  constant: it returns a hash that both heads descend from, and reports none exactly where the heads
  have no ancestor in common.
\<close>

theorem findCommonAncestor_exact:
  assumes "2 * (link_count P (MemoryContentStore_iface Q) c + 2) \<le> fuel" "\<not> IsZero a" "\<not> IsZero b"
  shows "\<exists>r. findCommonAncestor fuel P (MemoryContentStore_iface Q) c a b = Some r \<and>
    (case r of
       Some h \<Rightarrow> h \<in> ancestry P (MemoryContentStore_iface Q) c a \<inter> ancestry P (MemoryContentStore_iface Q) c b
     | None \<Rightarrow> ancestry P (MemoryContentStore_iface Q) c a \<inter> ancestry P (MemoryContentStore_iface Q) c b = {})"
proof (cases "a = b")
  case False
  obtain r where r: "common_loop fuel P (MemoryContentStore_iface Q) c ([a], [a]) ([b], [b]) = Some r"
    "case r of Some h \<Rightarrow> (parent_of P (MemoryContentStore_iface Q) c)\<^sup>*\<^sup>* a h \<and> (parent_of P (MemoryContentStore_iface Q) c)\<^sup>*\<^sup>* b h
      | None \<Rightarrow> ancestry P (MemoryContentStore_iface Q) c a \<inter> ancestry P (MemoryContentStore_iface Q) c b = {}"
    using vmem.common_total [OF assms(1) False] by blast
  then show ?thesis using False assms(2,3) by (cases r) (simp_all add: findCommonAncestor_def)
qed (simp add: findCommonAncestor_def)

text \<open>
  C27. The relationship of two heads is decided exactly: ``behind'' where the remote head descends from the
  local one, ``ahead'' where it is the other way round, ``diverged'' where neither holds. The walk takes
  each version once, so that fuel for the links of the store is enough.
\<close>

theorem checkRelationship_exact:
  assumes "link_count P (MemoryContentStore_iface Q) c + 1 \<le> fuel"
  shows "checkRelationship fuel P (MemoryContentStore_iface Q) c local remote =
    Some (if local = remote then ''in_sync'' else if IsZero local then ''behind'' else if IsZero remote then ''ahead''
          else if local \<in> ancestry P (MemoryContentStore_iface Q) c remote then ''behind''
          else if remote \<in> ancestry P (MemoryContentStore_iface Q) c local then ''ahead''
          else ''diverged'')"
  using vmem.relationship_total [OF assms] by simp


end
