(* ===== verification/Rev_Demo.thy ===== *)
theory Rev_Demo
  imports Tree_Demo Rev_Dag
begin

text \<open>
  Concrete versions for the witnesses of the revision extension: the store \<open>demo_dag\<close> holds eight
  versions, numbered by their data, and the toy codec reads the parents of a number off a table.
\<close>

definition ver :: "byte \<Rightarrow> hash" where
  "ver k = demo_hash_of TypeRevisionEntry [k]"

definition ladder :: "byte \<Rightarrow> byte list" where
  "ladder k = (if k = 2 then [1] else if k = 3 then [2] else if k = 4 then [2] else if k = 5 then [4]
     else if k = 6 then [5, 1] else [])"

definition criss_cross :: "byte \<Rightarrow> byte list" where
  "criss_cross k = (if k = 3 then [1] else if k = 4 then [2] else if k = 5 then [2] else if k = 6 then [1]
     else if k = 7 then [3, 4] else if k = 8 then [5, 6] else [])"

text \<open>A version of the codec is its number; the table \<open>T\<close> has the numbers of its parents.\<close>

definition dag_prims :: "(byte \<Rightarrow> byte list) \<Rightarrow> tree_prims" where
  "dag_prims T = demo_tree_prims\<lparr>ecf_DecodeRevisionEntry :=
     (\<lambda>d. case d of [k] \<Rightarrow> Inr \<lparr>rv_Root = zero_hash, rv_Parents = map ver (T k)\<rparr> | _ \<Rightarrow> Inl [])\<rparr>"

definition demo_version :: "byte \<Rightarrow> entity" where
  "demo_version k = \<lparr>Type = TypeRevisionEntry, Data = [k], ContentHash = ver k\<rparr>"

definition demo_dag :: MemoryContentStore where
  "demo_dag = \<lparr>entities = map (\<lambda>k. (ver k, demo_version k)) [1, 2, 3, 4, 5, 6, 7, 8]\<rparr>"

abbreviation dag_store :: "MemoryContentStore ContentStore" where
  "dag_store \<equiv> MemoryContentStore_iface demo_tree_prims"

abbreviation dag_ancestry :: "(byte \<Rightarrow> byte list) \<Rightarrow> byte \<Rightarrow> hash set" where
  "dag_ancestry T k \<equiv> ancestry (dag_prims T) dag_store demo_dag (ver k)"

lemma ver_Digest: "Digest (ver k) = map of_char TypeRevisionEntry @ k # replicate 10 0 @ replicate 32 0"
  by (simp add: ver_def demo_hash_of_def demo_pad_def TypeRevisionEntry_def)

lemma ver_algorithm: "Algorithm (ver k) = 0"
  by (simp add: ver_def demo_hash_of_def)

lemma ver_inj [simp]: "ver j = ver k \<longleftrightarrow> j = k"
proof
  assume "ver j = ver k"
  then have "Digest (ver j) ! 21 = Digest (ver k) ! 21" by simp
  then show "j = k" unfolding ver_Digest by (simp add: TypeRevisionEntry_def)
qed simp

lemma ver_nonzero [simp]: "\<not> IsZero (ver k)" "ver k \<noteq> zero_hash"
proof -
  have "hd (Digest (ver k)) = 115" "hd (Digest zero_hash) = 0"
    by (simp_all add: ver_Digest zero_hash_def zero_digest_def TypeRevisionEntry_def)
  then show "\<not> IsZero (ver k)" "ver k \<noteq> zero_hash" by (auto simp: IsZero_def)
qed

lemmas loops_numeral = common_loop.simps(2) [of "pred_numeral n" for n, folded numeral_eq_Suc]
  ancestor_loop.simps(3) [of "pred_numeral n" for n, folded numeral_eq_Suc]
  history_loop.simps(3) [of "pred_numeral n" for n, folded numeral_eq_Suc]

lemma dag_load:
  "loadVersion (dag_prims T) dag_store demo_dag h =
     (case filter (\<lambda>k. ver k = h) [1, 2, 3, 4, 5, 6, 7, 8] of
        [] \<Rightarrow> None | k # _ \<Rightarrow> Some \<lparr>rv_Root = zero_hash, rv_Parents = map ver (T k)\<rparr>)"
  by (simp add: loadVersion_def mcs_ops demo_dag_def gm_get_def demo_version_def RevisionEntryDataFromEntity_def dag_prims_def)

lemma ladder_load:
  "loadVersion (dag_prims ladder) dag_store demo_dag (ver 1) = Some \<lparr>rv_Root = zero_hash, rv_Parents = []\<rparr>"
  "loadVersion (dag_prims ladder) dag_store demo_dag (ver 2) = Some \<lparr>rv_Root = zero_hash, rv_Parents = [ver 1]\<rparr>"
  "loadVersion (dag_prims ladder) dag_store demo_dag (ver 3) = Some \<lparr>rv_Root = zero_hash, rv_Parents = [ver 2]\<rparr>"
  "loadVersion (dag_prims ladder) dag_store demo_dag (ver 4) = Some \<lparr>rv_Root = zero_hash, rv_Parents = [ver 2]\<rparr>"
  "loadVersion (dag_prims ladder) dag_store demo_dag (ver 5) = Some \<lparr>rv_Root = zero_hash, rv_Parents = [ver 4]\<rparr>"
  "loadVersion (dag_prims ladder) dag_store demo_dag (ver 6) = Some \<lparr>rv_Root = zero_hash, rv_Parents = [ver 5, ver 1]\<rparr>"
  "loadVersion (dag_prims ladder) dag_store demo_dag (ver 7) = Some \<lparr>rv_Root = zero_hash, rv_Parents = []\<rparr>"
  "loadVersion (dag_prims ladder) dag_store demo_dag (ver 8) = Some \<lparr>rv_Root = zero_hash, rv_Parents = []\<rparr>"
  by (simp_all add: dag_load ladder_def)

lemma criss_cross_load:
  "loadVersion (dag_prims criss_cross) dag_store demo_dag (ver 1) = Some \<lparr>rv_Root = zero_hash, rv_Parents = []\<rparr>"
  "loadVersion (dag_prims criss_cross) dag_store demo_dag (ver 2) = Some \<lparr>rv_Root = zero_hash, rv_Parents = []\<rparr>"
  "loadVersion (dag_prims criss_cross) dag_store demo_dag (ver 3) = Some \<lparr>rv_Root = zero_hash, rv_Parents = [ver 1]\<rparr>"
  "loadVersion (dag_prims criss_cross) dag_store demo_dag (ver 4) = Some \<lparr>rv_Root = zero_hash, rv_Parents = [ver 2]\<rparr>"
  "loadVersion (dag_prims criss_cross) dag_store demo_dag (ver 5) = Some \<lparr>rv_Root = zero_hash, rv_Parents = [ver 2]\<rparr>"
  "loadVersion (dag_prims criss_cross) dag_store demo_dag (ver 6) = Some \<lparr>rv_Root = zero_hash, rv_Parents = [ver 1]\<rparr>"
  "loadVersion (dag_prims criss_cross) dag_store demo_dag (ver 7) = Some \<lparr>rv_Root = zero_hash, rv_Parents = [ver 3, ver 4]\<rparr>"
  "loadVersion (dag_prims criss_cross) dag_store demo_dag (ver 8) = Some \<lparr>rv_Root = zero_hash, rv_Parents = [ver 5, ver 6]\<rparr>"
  by (simp_all add: dag_load criss_cross_def)

lemma dag_versions:
  "versions (dag_prims T) dag_store demo_dag = {ver 1, ver 2, ver 3, ver 4, ver 5, ver 6, ver 7, ver 8}"
  by (auto simp: versions_def dag_load split: if_splits)

lemma dag_links:
  "link_count (dag_prims ladder) dag_store demo_dag = 6" "link_count (dag_prims criss_cross) dag_store demo_dag = 8"
  by (simp_all add: link_count_def dag_versions parents_at_def ladder_load criss_cross_load)

lemma dag_inv: "mcs_inv demo_tree_prims demo_dag"
proof -
  have "ComputeFormat demo_tree_prims 0 TypeRevisionEntry [k] = Inr (ver k)" for k
    by (auto simp: ComputeFormat_def OfBytes_def ver_def demo_hash_of_def demo_pad_def TypeRevisionEntry_def
        copy_into_def zero_digest_def min_def)
  then show ?thesis
    by (auto simp: mcs_inv_def demo_dag_def gm_wf_def gm_get_def demo_version_def ver_algorithm split: if_splits)
qed

section \<open>Witnesses for the walks\<close>

theorem findCommonAncestor_exact_witness:
  "\<exists>r. findCommonAncestor 16 (dag_prims ladder) dag_store demo_dag (ver 3) (ver 6) = Some r \<and>
    (case r of
       Some h \<Rightarrow> h \<in> dag_ancestry ladder 3 \<inter> dag_ancestry ladder 6
     | None \<Rightarrow> dag_ancestry ladder 3 \<inter> dag_ancestry ladder 6 = {})"
  by (rule findCommonAncestor_exact) (simp_all add: dag_links)

theorem checkRelationship_exact_witness:
  "checkRelationship 7 (dag_prims ladder) dag_store demo_dag (ver 2) (ver 6) = Some ''behind'' \<and> ver 2 \<in> dag_ancestry ladder 6"
proof -
  have run: "checkRelationship 7 (dag_prims ladder) dag_store demo_dag (ver 2) (ver 6) = Some ''behind''"
    by (simp add: checkRelationship_def isAncestor_def ladder_load loops_numeral)
  then show ?thesis
    using checkRelationship_exact [of "dag_prims ladder" demo_tree_prims demo_dag 7 "ver 2" "ver 6"]
    by (auto simp: dag_links split: if_splits)
qed


section \<open>The choice of the common ancestor\<close>

text \<open>
  C32. The common ancestor that the search returns need not be the lowest one: in \<open>ladder\<close>, version 3
  descends from 2, and version 6 descends from 2 over 5 and 4 and from 1 directly; the search meets the
  direct link first and returns 1, from which 2 descends.
\<close>

theorem findCommonAncestor_not_lowest:
  "findCommonAncestor 16 (dag_prims ladder) dag_store demo_dag (ver 3) (ver 6) = Some (Some (ver 1)) \<and>
   ver 2 \<in> dag_ancestry ladder 3 \<inter> dag_ancestry ladder 6 \<and> ver 1 \<in> dag_ancestry ladder 2 \<and> ver 2 \<notin> dag_ancestry ladder 1 \<and>
   mcs_inv demo_tree_prims demo_dag"
proof -
  have "findCommonAncestor 16 (dag_prims ladder) dag_store demo_dag (ver 3) (ver 6) = Some (Some (ver 1))"
    by (simp add: findCommonAncestor_def search_side_def expand_def ladder_load loops_numeral)
  moreover have "isAncestor 7 (dag_prims ladder) dag_store demo_dag (ver 2) (ver 3) = Some True"
    "isAncestor 7 (dag_prims ladder) dag_store demo_dag (ver 2) (ver 6) = Some True"
    "isAncestor 7 (dag_prims ladder) dag_store demo_dag (ver 1) (ver 2) = Some True"
    "isAncestor 7 (dag_prims ladder) dag_store demo_dag (ver 2) (ver 1) = Some False"
    by (simp_all add: isAncestor_def ladder_load loops_numeral)
  then have "ver 2 \<in> dag_ancestry ladder 3" "ver 2 \<in> dag_ancestry ladder 6" "ver 1 \<in> dag_ancestry ladder 2"
    "ver 2 \<notin> dag_ancestry ladder 1"
    by (simp_all add: vmem.ancestor_total dag_links)
  ultimately show ?thesis using dag_inv by blast
qed

text \<open>
  The ancestor depends on which head is given first: in \<open>criss_cross\<close>, where 7 and 8 both descend
  from 1 and from 2, a search from 7 and 8 returns 1 and a search from 8 and 7 returns 2.
\<close>

theorem findCommonAncestor_asymmetric:
  "findCommonAncestor 20 (dag_prims criss_cross) dag_store demo_dag (ver 7) (ver 8) = Some (Some (ver 1)) \<and>
   findCommonAncestor 20 (dag_prims criss_cross) dag_store demo_dag (ver 8) (ver 7) = Some (Some (ver 2)) \<and>
   mcs_inv demo_tree_prims demo_dag"
  using dag_inv
  by (simp add: findCommonAncestor_def search_side_def expand_def criss_cross_load loops_numeral)

end
