(* ===== verification/Rev_Strategy.thy ===== *)
theory Rev_Strategy
  imports Rev_Dag "HOL-Library.Multiset"
begin

text \<open>
  Patterns and merge configurations of the revision extension: \<^verbatim>\<open>globMatch\<close> and \<^verbatim>\<open>validExcludePattern\<close>
  (\<^verbatim>\<open>ext/revision/snapshot.go\<close>), the choice of a strategy (\<^verbatim>\<open>strategy.go\<close>) and the resolution of a
  deletion against an entity (\<^verbatim>\<open>deletion_markers.go\<close>).

  The context of a request is passed as its store \<open>C\<close>, its index \<open>I\<close> and the handler context itself; the
  callers have tested both for nil. Strategies are the strings of the code.
\<close>

section \<open>Patterns (snapshot.go)\<close>

definition globMatch :: "string \<Rightarrow> string \<Rightarrow> bool" where
  "globMatch pattern subject =
     (if pattern = ''*'' then True
      else if HasSuffix pattern ''/*'' then HasPrefix subject (take (length pattern - 1) pattern)
      else if HasPrefix pattern ''*'' then HasSuffix subject (drop 1 pattern)
      else subject = pattern)"

definition matchesAnyPattern :: "string \<Rightarrow> string list \<Rightarrow> bool" where
  "matchesAnyPattern p patterns = list_ex (\<lambda>pattern. globMatch pattern p) patterns"

definition validExcludePattern :: "string \<Rightarrow> bool" where
  "validExcludePattern pattern =
     (let stars = length (filter (\<lambda>c. c = CHR ''*'') pattern) in
      if stars = 0 then True
      else if stars = 1 then pattern = ''*'' \<or> HasSuffix pattern ''/*'' \<or> HasPrefix pattern ''*''
      else False)"

section \<open>Merge configurations (strategy.go)\<close>

record strategyChoice =
  ch_strategy :: string
  ch_handlerPath :: string

record mergeConfigKey =
  mk_rank :: nat
  mk_litLen :: nat
  mk_pattern :: string
  mk_name :: string

definition mergePatternMatch :: "string \<Rightarrow> string \<Rightarrow> bool" where
  "mergePatternMatch pat relPath = globMatch pat relPath"

text \<open>\<^verbatim>\<open>strings.Replace(pattern, "*", "", 1)\<close>.\<close>

fun drop_star :: "string \<Rightarrow> string" where
  "drop_star [] = []"
| "drop_star (c # s) = (if c = CHR ''*'' then s else c # drop_star s)"

definition mergeConfigKeyOf :: "string \<Rightarrow> string \<Rightarrow> mergeConfigKey" where
  "mergeConfigKeyOf pat nm =
     \<lparr>mk_rank = (if pat = ''*'' then 0 else if HasSuffix pat ''/*'' then 2 else if HasPrefix pat ''*'' then 1 else 3),
      mk_litLen = length (drop_star pat), mk_pattern = pat, mk_name = nm\<rparr>"

definition moreSpecific :: "mergeConfigKey \<Rightarrow> mergeConfigKey \<Rightarrow> bool" where
  "moreSpecific a b =
     (if mk_rank a \<noteq> mk_rank b then mk_rank a > mk_rank b
      else if mk_litLen a \<noteq> mk_litLen b then mk_litLen a > mk_litLen b
      else if mk_pattern a \<noteq> mk_pattern b then mk_pattern a < mk_pattern b
      else mk_name a < mk_name b)"

definition mergeConfigName :: "string \<Rightarrow> string" where
  "mergeConfigName storagePath = rev (takeWhile (\<lambda>c. c \<noteq> slash) (rev storagePath))"

definition mergeConfigPathScope :: "string \<Rightarrow> string" where
  "mergeConfigPathScope nm = ''system/revision/config/merge/path/'' @ nm"

definition mergeConfigTypeScope :: "string \<Rightarrow> string" where
  "mergeConfigTypeScope nm = ''system/revision/config/merge/type/'' @ nm"

definition RevisionMergeConfigDataFromEntity :: "'p rev_prims_scheme \<Rightarrow> entity \<Rightarrow> RevisionMergeConfigData result" where
  "RevisionMergeConfigDataFromEntity P e = ecf_DecodeMergeConfig P (Data e)"

definition validMergeStrategies :: "string list" where
  "validMergeStrategies = [''three-way'', ''source-wins'', ''target-wins'', ''lww'', ''keep-both'', ''manual'', ''handler'']"

definition ValidateMergeStrategy :: "string \<Rightarrow> string \<Rightarrow> unit result" where
  "ValidateMergeStrategy strat hpath =
     (if strat = '''' then Inr ()
      else if strat \<notin> set validMergeStrategies then Inl []
      else if strat = ''handler'' \<and> hpath = '''' then Inl []
      else if strat \<noteq> ''handler'' \<and> hpath \<noteq> '''' then Inl []
      else Inr ())"

definition mergeConfigTypesToCheck :: "'c ContentStore \<Rightarrow> 'c \<Rightarrow> hash \<Rightarrow> hash \<Rightarrow> string list" where
  "mergeConfigTypesToCheck C cs local remote =
     (let type_of = (\<lambda>h. if IsZero h then [] else (case cs_Get C h cs of None \<Rightarrow> [] | Some ent \<Rightarrow> [Type ent]));
          out = type_of local
      in out @ filter (\<lambda>t. out = [] \<or> t \<noteq> out ! 0) (type_of remote))"

definition lookupEntity ::
  "'c ContentStore \<Rightarrow> 'i LocationIndex \<Rightarrow> ('c, 'i) HandlerContext \<Rightarrow> string \<Rightarrow> ('c, 'i) hstate \<Rightarrow> entity option" where
  "lookupEntity C I hctx path s =
     (let qualified = QualifyPath (hc_LocalPeerID hctx) path in
      case (case li_Get I path (hs_index s) of
              Some h \<Rightarrow> Some h
            | None \<Rightarrow> if qualified \<noteq> path then li_Get I qualified (hs_index s) else None) of
        None \<Rightarrow> None
      | Some h \<Rightarrow> cs_Get C h (hs_store s))"

text \<open>Step 1: the first type whose configuration decodes and is valid.\<close>

fun type_config ::
  "'p rev_prims_scheme \<Rightarrow> 'c ContentStore \<Rightarrow> 'i LocationIndex \<Rightarrow> ('c, 'i) HandlerContext \<Rightarrow> string list \<Rightarrow>
     ('c, 'i) hstate \<Rightarrow> strategyChoice option" where
  "type_config P C I hctx [] s = None"
| "type_config P C I hctx (typeName # ts) s =
     (case lookupEntity C I hctx (mergeConfigTypeScope typeName) s of
        None \<Rightarrow> type_config P C I hctx ts s
      | Some ent \<Rightarrow>
          (case RevisionMergeConfigDataFromEntity P ent of
             Inl _ \<Rightarrow> type_config P C I hctx ts s
           | Inr cfg \<Rightarrow>
               (case ValidateMergeStrategy (mcfg_Strategy cfg) (mcfg_Handler cfg) of
                  Inl _ \<Rightarrow> type_config P C I hctx ts s
                | Inr _ \<Rightarrow> Some \<lparr>ch_strategy = mcfg_Strategy cfg, ch_handlerPath = mcfg_Handler cfg\<rparr>)))"

text \<open>
  Step 2: the loop over the per-path configurations, which \<^verbatim>\<open>findMergeStrategy\<close> and
  \<^verbatim>\<open>resolveDeletionStrategy\<close> share. \<open>use\<close> holds the tests that skip a configuration, \<open>f\<close> reads its value.
\<close>

fun best_config ::
  "'p rev_prims_scheme \<Rightarrow> 'c ContentStore \<Rightarrow> 'c \<Rightarrow> (RevisionMergeConfigData \<Rightarrow> bool) \<Rightarrow> (RevisionMergeConfigData \<Rightarrow> 'v) \<Rightarrow>
     LocationEntry list \<Rightarrow> ('v \<times> mergeConfigKey) option \<Rightarrow> ('v \<times> mergeConfigKey) option" where
  "best_config P C cs use f [] best = best"
| "best_config P C cs use f (entry # es) best =
     (case cs_Get C (le_Hash entry) cs of
        None \<Rightarrow> best_config P C cs use f es best
      | Some ent \<Rightarrow>
          (case RevisionMergeConfigDataFromEntity P ent of
             Inl _ \<Rightarrow> best_config P C cs use f es best
           | Inr cfg \<Rightarrow>
               if \<not> use cfg then best_config P C cs use f es best
               else
                 let key = mergeConfigKeyOf (mcfg_Pattern cfg) (mergeConfigName (le_Path entry)) in
                 if (case best of None \<Rightarrow> True | Some (_, bestKey) \<Rightarrow> moreSpecific key bestKey)
                 then best_config P C cs use f es (Some (f cfg, key))
                 else best_config P C cs use f es best))"

definition findMergeStrategy ::
  "'p rev_prims_scheme \<Rightarrow> 'c ContentStore \<Rightarrow> 'i LocationIndex \<Rightarrow> ('c, 'i) HandlerContext \<Rightarrow> string \<Rightarrow> string \<Rightarrow> hash \<Rightarrow> hash \<Rightarrow>
     ('c, 'i) hstate \<Rightarrow> strategyChoice" where
  "findMergeStrategy P C I hctx relPath override local remote s =
     (if override \<noteq> '''' then \<lparr>ch_strategy = override, ch_handlerPath = ''''\<rparr>
      else (case type_config P C I hctx (mergeConfigTypesToCheck C (hs_store s) local remote) s of
              Some choice \<Rightarrow> choice
            | None \<Rightarrow>
                (case best_config P C (hs_store s) (\<lambda>cfg. mergePatternMatch (mcfg_Pattern cfg) relPath)
                        (\<lambda>cfg. \<lparr>ch_strategy = mcfg_Strategy cfg, ch_handlerPath = mcfg_Handler cfg\<rparr>)
                        (li_List I ''system/revision/config/merge/path/'' (hs_index s)) None of
                   Some (choice, _) \<Rightarrow> choice
                 | None \<Rightarrow> \<lparr>ch_strategy = ''three-way'', ch_handlerPath = ''''\<rparr>)))"

section \<open>Deletion against entity (deletion_markers.go)\<close>

definition CanonicalDeletionMarkerHash :: "'p hash_prims_scheme \<Rightarrow> byte \<Rightarrow> hash result" where
  "CanonicalDeletionMarkerHash P dflt =
     (case markerFor P dflt of Inl _ \<Rightarrow> Inl [Panic] | Inr (_, h) \<Rightarrow> Inr h)"

definition defaultDeletionStrategy :: string where
  "defaultDeletionStrategy = ''preserve-on-conflict''"

definition ValidateDeletionResolution :: "string \<Rightarrow> unit result" where
  "ValidateDeletionResolution v =
     (if v = '''' then Inr ()
      else if v \<in> {''keep-both'', ''lww''} then Inl []
      else if v \<in> {''preserve-on-conflict'', ''deletion-wins'', ''three-way-fallthrough'', ''deterministic''} then Inr ()
      else Inl [])"

definition resolveDeletionStrategy ::
  "'p rev_prims_scheme \<Rightarrow> 'c ContentStore \<Rightarrow> 'i LocationIndex \<Rightarrow> string \<Rightarrow> ('c, 'i) hstate \<Rightarrow> string" where
  "resolveDeletionStrategy P C I relPath s =
     (case best_config P C (hs_store s)
             (\<lambda>cfg. mcfg_DeletionResolution cfg \<noteq> '''' \<and> is_ok (ValidateDeletionResolution (mcfg_DeletionResolution cfg)) \<and>
                mergePatternMatch (mcfg_Pattern cfg) relPath)
             mcfg_DeletionResolution (li_List I ''system/revision/config/merge/path/'' (hs_index s)) None of
        Some (v, _) \<Rightarrow> v
      | None \<Rightarrow> defaultDeletionStrategy)"

record deletionResolutionResult =
  HasConflict :: bool
  ResolvedHash :: hash
  SidecarBindings :: "Binding list"

abbreviation resolved_to :: "hash \<Rightarrow> deletionResolutionResult" where
  "resolved_to h \<equiv> \<lparr>HasConflict = True, ResolvedHash = h, SidecarBindings = []\<rparr>"

abbreviation not_a_deletion :: deletionResolutionResult where
  "not_a_deletion \<equiv> \<lparr>HasConflict = False, ResolvedHash = zero_hash, SidecarBindings = []\<rparr>"

text \<open>The loop over two byte strings: the first difference decides.\<close>

fun first_diff :: "bytes \<Rightarrow> bytes \<Rightarrow> bool option" where
  "first_diff (a # as) (b # bs) = (if a < b then Some True else if a > b then Some False else first_diff as bs)"
| "first_diff _ _ = None"

definition resolveDeletionVsEntity ::
  "'p hash_prims_scheme \<Rightarrow> byte \<Rightarrow> string \<Rightarrow> hash \<Rightarrow> hash \<Rightarrow> deletionResolutionResult result" where
  "resolveDeletionVsEntity P dflt strat local remote =
     (let localIsMarker = IsDeletionMarker P local;
          remoteIsMarker = IsDeletionMarker P remote
      in
      if \<not> localIsMarker \<and> \<not> remoteIsMarker then Inr not_a_deletion
      else if localIsMarker \<and> remoteIsMarker then Inr (resolved_to local)
      else
        let entityHash = (if localIsMarker then remote else local);
            strategy = (if strat = '''' then defaultDeletionStrategy else strat)
        in
        if strategy = ''preserve-on-conflict'' then Inr (resolved_to entityHash)
        else if strategy = ''deletion-wins'' then
          (case CanonicalDeletionMarkerHash P dflt of Inl err \<Rightarrow> Inl err | Inr h \<Rightarrow> Inr (resolved_to h))
        else if strategy = ''three-way-fallthrough'' then Inr not_a_deletion
        else if strategy = ''deterministic'' then
          (case CanonicalDeletionMarkerHash P dflt of
             Inl err \<Rightarrow> Inl err
           | Inr markerHash \<Rightarrow>
               (case first_diff (hash_Bytes markerHash) (hash_Bytes entityHash) of
                  Some True \<Rightarrow> Inr (resolved_to markerHash)
                | Some False \<Rightarrow> Inr (resolved_to entityHash)
                | None \<Rightarrow> Inr (resolved_to markerHash)))
        else Inr (resolved_to entityHash))"

section \<open>Patterns are wildcards\<close>

text \<open>A pattern with one star, wherever it stands, against a subject.\<close>

definition wildcard :: "string \<Rightarrow> string \<Rightarrow> bool" where
  "wildcard pat subject \<longleftrightarrow>
     (if CHR ''*'' \<in> set pat then (\<exists>pre post x. pat = pre @ CHR ''*'' # post \<and> subject = pre @ x @ post) else subject = pat)"

lemma one_star:
  assumes "length (filter (\<lambda>c. c = CHR ''*'') (pre @ CHR ''*'' # post)) = 1"
  shows "pre @ CHR ''*'' # post = pre' @ CHR ''*'' # post' \<longleftrightarrow> pre = pre' \<and> post = post'"
proof
  assume eq: "pre @ CHR ''*'' # post = pre' @ CHR ''*'' # post'"
  have n: "length (filter (\<lambda>c. c = CHR ''*'') (pre' @ CHR ''*'' # post')) = 1" using assms eq by metis
  have "takeWhile (\<lambda>c. c \<noteq> CHR ''*'') (pre @ CHR ''*'' # post) = pre" "takeWhile (\<lambda>c. c \<noteq> CHR ''*'') (pre' @ CHR ''*'' # post') = pre'"
    using assms n by (auto simp: filter_empty_conv takeWhile_append2)
  then show "pre = pre' \<and> post = post'" using eq by simp
qed simp

lemma wildcard_star:
  assumes "length (filter (\<lambda>c. c = CHR ''*'') (pre @ CHR ''*'' # post)) = 1"
  shows "wildcard (pre @ CHR ''*'' # post) subject \<longleftrightarrow> (\<exists>x. subject = pre @ x @ post)"
  unfolding wildcard_def using one_star [OF assms] by auto

lemma no_star: "length (filter (\<lambda>c. c = CHR ''*'') pat) = 0 \<longleftrightarrow> CHR ''*'' \<notin> set pat"
  by (auto simp: filter_empty_conv)

text \<open>
  C30. A pattern that the write of a configuration accepts is matched as a wildcard: its star, where it
  has one, stands for any part of the subject, slashes included; a pattern without a star matches itself
  alone.
\<close>

theorem globMatch_wildcard:
  assumes "validExcludePattern pat"
  shows "globMatch pat subject \<longleftrightarrow> wildcard pat subject"
proof (cases "CHR ''*'' \<in> set pat")
  case False
  then have "pat \<noteq> ''*''" "\<not> HasSuffix pat ''/*''" "\<not> HasPrefix pat ''*''"
    by (auto simp: HasSuffix_iff HasPrefix_iff)
  then show ?thesis using False by (simp add: globMatch_def wildcard_def)
next
  case True
  then have one: "length (filter (\<lambda>c. c = CHR ''*'') pat) = 1"
    and form: "pat = ''*'' \<or> HasSuffix pat ''/*'' \<or> HasPrefix pat ''*''"
    using assms no_star [of pat] by (auto simp: validExcludePattern_def Let_def split: if_splits)
  consider (all) "pat = ''*''" | (below) pre where "pat = (pre @ ''/'') @ CHR ''*'' # []"
    | (ends) post where "pat = [] @ CHR ''*'' # post" "pat \<noteq> ''*''" "\<not> HasSuffix pat ''/*''"
    using form by (auto simp: HasSuffix_iff HasPrefix_iff)
  then show ?thesis
  proof cases
    case all
    then show ?thesis using wildcard_star [of "[]" "[]" subject] by (simp add: globMatch_def)
  next
    case below
    then have "pat \<noteq> ''*''" "HasSuffix pat ''/*''" by (auto simp: HasSuffix_iff)
    then show ?thesis
      using wildcard_star [of "pre @ ''/''" "[]" subject] one below by (simp add: globMatch_def HasPrefix_iff)
  next
    case ends
    then show ?thesis
      using wildcard_star [of "[]" post subject] one by (auto simp: globMatch_def HasSuffix_iff)
  qed
qed

section \<open>The choice of a configuration\<close>

text \<open>A loop that keeps the first best of its candidates under a strict total order of their keys.\<close>

locale total_choice =
  fixes more :: "'k \<Rightarrow> 'k \<Rightarrow> bool"
  assumes more_trans: "more a b \<Longrightarrow> more b c \<Longrightarrow> more a c"
    and more_total: "a \<noteq> b \<Longrightarrow> more a b \<or> more b a"
    and more_irrefl: "\<not> more a a"
begin

definition keep :: "'v \<times> 'k \<Rightarrow> ('v \<times> 'k) option \<Rightarrow> ('v \<times> 'k) option" where
  "keep c best = (if (case best of None \<Rightarrow> True | Some b \<Rightarrow> more (snd c) (snd b)) then Some c else best)"

lemma keep_simps [simp]: "keep c None = Some c" "keep c (Some b) = Some (if more (snd c) (snd b) then c else b)"
  by (simp_all add: keep_def)

lemma keep_best:
  "fold keep cands (Some b) = Some r \<Longrightarrow>
   r \<in> set (b # cands) \<and> (\<forall>c \<in> set (b # cands). snd c = snd r \<or> more (snd r) (snd c))"
proof (induction cands arbitrary: b)
  case (Cons c cands)
  define m where "m = (if more (snd c) (snd b) then c else b)"
  have m: "snd x = snd m \<or> more (snd m) (snd x)" if "x = b \<or> x = c" for x
    using that more_total [of "snd b" "snd c"] by (cases "snd b = snd c") (auto simp: m_def)
  have "fold keep cands (Some m) = Some r" using Cons.prems by (simp add: m_def)
  from Cons.IH [OF this] have r: "r \<in> set (m # cands)" "\<forall>x \<in> set (m # cands). snd x = snd r \<or> more (snd r) (snd x)"
    by simp_all
  have "snd x = snd r \<or> more (snd r) (snd x)" if "x = b \<or> x = c" for x
    using m [OF that] r(2) more_trans by (metis list.set_intros(1))
  then show ?case using r by (auto simp: m_def split: if_splits)
qed simp

lemma keep_some: "\<exists>r. fold keep cands (Some b) = Some r"
  by (induction cands arbitrary: b) simp_all

lemma keep_all:
  assumes "distinct (map snd cands)"
  shows "fold keep cands None = Some r \<longleftrightarrow> r \<in> set cands \<and> (\<forall>c \<in> set cands. c = r \<or> more (snd r) (snd c))"
proof (cases cands)
  case (Cons b cs)
  obtain r' where r': "fold keep cs (Some b) = Some r'" using keep_some by blast
  have inj: "snd c = snd d \<Longrightarrow> c \<in> set cands \<Longrightarrow> d \<in> set cands \<Longrightarrow> c = d" for c d
    using assms by (auto simp: distinct_map dest: inj_onD)
  have best: "r' \<in> set cands" "\<forall>c \<in> set cands. snd c = snd r' \<or> more (snd r') (snd c)"
    using keep_best [OF r'] unfolding Cons by blast+
  then have "\<forall>c \<in> set cands. c = r' \<or> more (snd r') (snd c)" using inj by blast
  moreover have "fold keep cands None = Some r'" using Cons r' by simp
  ultimately show ?thesis using best(1) more_trans more_irrefl by (metis option.inject)
qed simp

lemma keep_order:
  assumes "mset cands = mset cands'" "distinct (map snd cands)"
  shows "fold keep cands None = fold keep cands' None"
proof -
  have "distinct (map snd cands')" "set cands = set cands'"
    using assms by (metis mset_eq_imp_distinct_iff mset_map, metis mset_eq_setD)
  then have "fold keep cands None = Some r \<longleftrightarrow> fold keep cands' None = Some r" for r
    using keep_all [OF assms(2)] keep_all [of cands'] by simp
  then show ?thesis by (metis not_Some_eq)
qed

end

interpretation spec: total_choice moreSpecific
proof
  show "moreSpecific a b \<Longrightarrow> moreSpecific b c \<Longrightarrow> moreSpecific a c" for a b c
    by (auto simp: moreSpecific_def split: if_splits)
  show "a \<noteq> b \<Longrightarrow> moreSpecific a b \<or> moreSpecific b a" for a b
    by (cases a; cases b) (auto simp: moreSpecific_def split: if_splits)
  show "\<not> moreSpecific a a" for a
    by (simp add: moreSpecific_def)
qed

definition candidate ::
  "'p rev_prims_scheme \<Rightarrow> 'c ContentStore \<Rightarrow> 'c \<Rightarrow> (RevisionMergeConfigData \<Rightarrow> bool) \<Rightarrow> (RevisionMergeConfigData \<Rightarrow> 'v) \<Rightarrow>
     LocationEntry \<Rightarrow> ('v \<times> mergeConfigKey) option" where
  "candidate P C cs use f entry =
     (case cs_Get C (le_Hash entry) cs of
        None \<Rightarrow> None
      | Some ent \<Rightarrow>
          (case RevisionMergeConfigDataFromEntity P ent of
             Inl _ \<Rightarrow> None
           | Inr cfg \<Rightarrow>
               if use cfg then Some (f cfg, mergeConfigKeyOf (mcfg_Pattern cfg) (mergeConfigName (le_Path entry))) else None))"

lemma best_config_keep:
  "best_config P C cs use f es best = fold spec.keep (List.map_filter (candidate P C cs use f) es) best"
proof (induction es arbitrary: best)
  case (Cons e es)
  have "best_config P C cs use f (e # es) best =
      (case candidate P C cs use f e of
         None \<Rightarrow> best_config P C cs use f es best | Some c \<Rightarrow> best_config P C cs use f es (spec.keep c best))"
    by (auto simp: candidate_def spec.keep_def Let_def split: option.splits sum.splits)
  then show ?case using Cons.IH by (simp add: map_filter_simps split: option.split)
qed (simp add: map_filter_simps)

lemma candidate_name: "candidate P C cs use f e = Some c \<Longrightarrow> mk_name (snd c) = mergeConfigName (le_Path e)"
  by (auto simp: candidate_def mergeConfigKeyOf_def split: option.splits sum.splits if_splits)

lemma candidates_distinct:
  "distinct (map (\<lambda>e. mergeConfigName (le_Path e)) es) \<Longrightarrow>
   distinct (map snd (List.map_filter (candidate P C cs use f) es))"
proof (induction es)
  case (Cons e es)
  have "snd d \<noteq> snd c" if c: "candidate P C cs use f e = Some c" and d: "d \<in> set (List.map_filter (candidate P C cs use f) es)" for c d
  proof -
    obtain e' where e': "e' \<in> set es" "candidate P C cs use f e' = Some d" using d by (auto simp: map_filter_def)
    have "mk_name (snd d) \<noteq> mk_name (snd c)"
      using candidate_name [OF c] candidate_name [OF e'(2)] e'(1) Cons.prems by (auto simp: image_iff)
    then show ?thesis by auto
  qed
  then show ?case using Cons by (fastforce simp: map_filter_simps split: option.split)
qed (simp add: map_filter_simps)

lemma map_filter_mset: "mset es = mset es' \<Longrightarrow> mset (List.map_filter g es) = mset (List.map_filter g es')"
  by (simp add: map_filter_def mset_map mset_filter)

text \<open>
  C29. The winning configuration does not depend on the order in which the index lists the configurations,
  as long as no two of them have the same last segment of their path: it is the one candidate that is more
  specific than every other.
\<close>

theorem best_config_order_free:
  assumes "mset es = mset es'" "distinct (map (\<lambda>e. mergeConfigName (le_Path e)) es)"
  shows "best_config P C cs use f es None = best_config P C cs use f es' None \<and>
    (\<forall>r. best_config P C cs use f es None = Some r \<longleftrightarrow>
       (\<exists>e \<in> set es. candidate P C cs use f e = Some r) \<and>
       (\<forall>e \<in> set es. \<forall>c. candidate P C cs use f e = Some c \<longrightarrow> c = r \<or> moreSpecific (snd r) (snd c)))"
proof -
  note d = candidates_distinct [OF assms(2), of P C cs use f]
  have "set (List.map_filter (candidate P C cs use f) es) = {c. \<exists>e \<in> set es. candidate P C cs use f e = Some c}"
    by (force simp: map_filter_def)
  then have "fold spec.keep (List.map_filter (candidate P C cs use f) es) None = Some r \<longleftrightarrow>
      (\<exists>e \<in> set es. candidate P C cs use f e = Some r) \<and>
      (\<forall>e \<in> set es. \<forall>c. candidate P C cs use f e = Some c \<longrightarrow> c = r \<or> moreSpecific (snd r) (snd c))" for r
    unfolding spec.keep_all [OF d] by blast
  then show ?thesis
    using spec.keep_order [OF map_filter_mset [OF assms(1)] d] unfolding best_config_keep by blast
qed

end
