(* ===== verification/Rev_Merge.thy ===== *)
theory Rev_Merge
  imports Rev_Strategy
begin

text \<open>
  The three-way merge of the revision extension: \<^verbatim>\<open>ext/revision/strategy.go\<close> (the strategies and the flat
  merge) and \<^verbatim>\<open>ext/revision/trie_merge.go\<close> (the merge of three tries).

  \<open>exec\<close> is the hook \<^verbatim>\<open>Execute\<close> of the context, if it is set: it may change the stores and may return
  neither a response nor an error. A merge takes the state of the stores, since a strategy may store an
  entity, and fuel for the walks below a link, as the difference of two tries does.
\<close>

section \<open>Strategies (strategy.go)\<close>

type_synonym ('c, 'i) execute =
  "(string \<Rightarrow> string \<Rightarrow> entity \<Rightarrow> ('c, 'i) hstate \<Rightarrow> Response option result \<times> ('c, 'i) hstate) option"

record mergeStrategyResult =
  resolved :: bool
  ms_hash :: hash
  additionalBindings :: "Binding list"

abbreviation unresolved :: mergeStrategyResult where
  "unresolved \<equiv> \<lparr>resolved = False, ms_hash = zero_hash, additionalBindings = []\<rparr>"

abbreviation resolve_with :: "hash \<Rightarrow> mergeStrategyResult" where
  "resolve_with h \<equiv> \<lparr>resolved = True, ms_hash = h, additionalBindings = []\<rparr>"

definition RevisionMergeResponseDataFromEntity :: "'p rev_prims_scheme \<Rightarrow> entity \<Rightarrow> RevisionMergeResponseData result" where
  "RevisionMergeResponseDataFromEntity P e = ecf_DecodeMergeResponse P (Data e)"

definition dispatchMergeHandler ::
  "'p rev_prims_scheme \<Rightarrow> byte \<Rightarrow> ('c, 'i) execute \<Rightarrow> 'c ContentStore \<Rightarrow> string \<Rightarrow> hash \<Rightarrow> hash \<Rightarrow> hash \<Rightarrow>
     ('c, 'i) hstate \<Rightarrow> mergeStrategyResult \<times> ('c, 'i) hstate" where
  "dispatchMergeHandler P dflt exec C hpath base local remote s =
     (case (hpath = '''', exec) of
        (False, Some run) \<Rightarrow>
          (case to_entity P dflt TypeRevisionMergeRequest
                  (ecf_EncodeMergeRequest P \<lparr>mrq_Base = base, mrq_Local = local, mrq_Remote = remote\<rparr>) of
             Inl _ \<Rightarrow> (unresolved, s)
           | Inr reqEntity \<Rightarrow>
               (case run hpath ''merge'' reqEntity s of
                  (Inr (Some resp), s1) \<Rightarrow>
                    if resp_Status resp \<noteq> 200 then (unresolved, s1)
                    else if Type (resp_Result resp) \<noteq> TypeRevisionMergeResponse then (unresolved, s1)
                    else
                      (case RevisionMergeResponseDataFromEntity P (resp_Result resp) of
                         Inl _ \<Rightarrow> (unresolved, s1)
                       | Inr out \<Rightarrow>
                           if \<not> mrs_Resolved out \<or> IsZero (mrs_Entity out) then (unresolved, s1)
                           else if cs_Get C (mrs_Entity out) (hs_store s1) = None then (unresolved, s1)
                           else (resolve_with (mrs_Entity out), s1))
                | (_, s1) \<Rightarrow> (unresolved, s1)))
      | _ \<Rightarrow> (unresolved, s))"

text \<open>One field: the encoded values of the three sides, with the encoding of nil for a missing key.\<close>

definition field_value :: "(string, bytes) gomap \<Rightarrow> string \<Rightarrow> bytes" where
  "field_value m key = (case gm_get m key of None \<Rightarrow> [0xf6] | Some v \<Rightarrow> v)"

definition merge_field :: "bytes \<Rightarrow> bytes \<Rightarrow> bytes \<Rightarrow> bytes option" where
  "merge_field base local remote =
     (let localChanged = (local \<noteq> base); remoteChanged = (remote \<noteq> base) in
      if \<not> localChanged \<and> \<not> remoteChanged then Some base
      else if localChanged \<and> \<not> remoteChanged then Some local
      else if \<not> localChanged \<and> remoteChanged then Some remote
      else if local = remote then Some local
      else None)"

fun merge_fields ::
  "(string, bytes) gomap \<Rightarrow> (string, bytes) gomap \<Rightarrow> (string, bytes) gomap \<Rightarrow> string list \<Rightarrow>
     (string, bytes) gomap \<Rightarrow> (string, bytes) gomap option" where
  "merge_fields b l r [] out = Some out"
| "merge_fields b l r (key # keys) out =
     (case merge_field (field_value b key) (field_value l key) (field_value r key) of
        None \<Rightarrow> None
      | Some v \<Rightarrow> merge_fields b l r keys (gm_set out key v))"

definition all_keys :: "('k, 'v) gomap \<Rightarrow> ('k, 'v) gomap \<Rightarrow> ('k, 'v) gomap \<Rightarrow> 'k list" where
  "all_keys a b c = remdups (map fst a @ map fst b @ map fst c)"

definition applyThreeWayMerge ::
  "'p rev_prims_scheme \<Rightarrow> byte \<Rightarrow> 'c ContentStore \<Rightarrow> hash \<Rightarrow> hash \<Rightarrow> hash \<Rightarrow> 'c \<Rightarrow> mergeStrategyResult \<times> 'c" where
  "applyThreeWayMerge P dflt C base local remote cs =
     (if IsZero base \<or> IsZero local \<or> IsZero remote then (unresolved, cs)
      else (case (cs_Get C base cs, cs_Get C local cs, cs_Get C remote cs) of
              (Some baseEnt, Some localEnt, Some remoteEnt) \<Rightarrow>
                if Type baseEnt \<noteq> Type localEnt \<or> Type baseEnt \<noteq> Type remoteEnt then (unresolved, cs)
                else
                  (case (ecf_DecodeAnyMap P (Data baseEnt), ecf_DecodeAnyMap P (Data localEnt), ecf_DecodeAnyMap P (Data remoteEnt)) of
                     (Inr b, Inr l, Inr r) \<Rightarrow>
                       (case merge_fields b l r (all_keys b l r) [] of
                          None \<Rightarrow> (unresolved, cs)
                        | Some merged \<Rightarrow>
                            (case to_entity P dflt (Type baseEnt) (ecf_EncodeAnyMap P merged) of
                               Inl _ \<Rightarrow> (unresolved, cs)
                             | Inr mergedEnt \<Rightarrow>
                                 (case cs_Put C mergedEnt cs of
                                    (Inl _, cs1) \<Rightarrow> (unresolved, cs1)
                                  | (Inr mergedHash, cs1) \<Rightarrow> (resolve_with mergedHash, cs1))))
                   | _ \<Rightarrow> (unresolved, cs))
            | _ \<Rightarrow> (unresolved, cs)))"

definition applyMergeStrategy ::
  "'p rev_prims_scheme \<Rightarrow> byte \<Rightarrow> ('c, 'i) execute \<Rightarrow> 'c ContentStore \<Rightarrow> strategyChoice \<Rightarrow> string \<Rightarrow> hash \<Rightarrow> hash \<Rightarrow> hash \<Rightarrow>
     ('c, 'i) hstate \<Rightarrow> mergeStrategyResult \<times> ('c, 'i) hstate" where
  "applyMergeStrategy P dflt exec C choice path base local remote s =
     (if ch_strategy choice = ''source-wins'' then (resolve_with remote, s)
      else if ch_strategy choice = ''target-wins'' then (resolve_with local, s)
      else if ch_strategy choice = ''keep-both'' then
        if IsZero local \<or> IsZero remote then (unresolved, s)
        else (\<lparr>resolved = True, ms_hash = local,
               additionalBindings = [(path @ ''.keep-both-'' @ hex_EncodeToString (take 4 (Digest remote)), remote)]\<rparr>, s)
      else if ch_strategy choice = ''manual'' then (unresolved, s)
      else if ch_strategy choice = ''three-way'' then
        (case applyThreeWayMerge P dflt C base local remote (hs_store s) of (r, cs) \<Rightarrow> (r, s\<lparr>hs_store := cs\<rparr>))
      else if ch_strategy choice = ''lww'' then (unresolved, s)
      else if ch_strategy choice = ''handler'' then
        dispatchMergeHandler P dflt exec C (ch_handlerPath choice) base local remote s
      else (unresolved, s))"

section \<open>One path (trie_merge.go)\<close>

text \<open>The outputs of a merge, which the code fills in place.\<close>

record merge_out =
  mo_merged :: "(string, hash) gomap"
  mo_deletions :: "string list"
  mo_conflicts :: "RevisionConflictData list"

abbreviation bind_merged :: "string \<Rightarrow> hash \<Rightarrow> merge_out \<Rightarrow> merge_out" where
  "bind_merged k h out \<equiv> out\<lparr>mo_merged := gm_set (mo_merged out) k h\<rparr>"

abbreviation bind_all :: "Binding list \<Rightarrow> merge_out \<Rightarrow> merge_out" where
  "bind_all bs out \<equiv> fold (\<lambda>(k, h). bind_merged k h) bs out"

definition hashFromPtr :: "hash option \<Rightarrow> hash" where
  "hashFromPtr p = (case p of None \<Rightarrow> zero_hash | Some h \<Rightarrow> h)"

text \<open>A conflict at a path: the fields of the sides that are present.\<close>

definition new_conflict ::
  "string \<Rightarrow> string \<Rightarrow> hash \<Rightarrow> hash option \<Rightarrow> hash option \<Rightarrow> hash \<Rightarrow> hash \<Rightarrow> RevisionConflictData" where
  "new_conflict path strat base local remote localVersion remoteVersion =
     \<lparr>rc_Path = path, rc_Base = (if \<not> IsZero base then base else zero_hash), rc_Local = hashFromPtr local,
      rc_Remote = hashFromPtr remote, rc_Strategy = strat, rc_VersionLocal = localVersion,
      rc_VersionRemote = remoteVersion, rc_Supersedes = zero_hash\<rparr>"

text \<open>Both sides changed, in different ways, and the path is not a deletion against an entity.\<close>

definition merge_divergent ::
  "'p rev_prims_scheme \<Rightarrow> byte \<Rightarrow> ('c, 'i) execute \<Rightarrow> 'c ContentStore \<Rightarrow> 'i LocationIndex \<Rightarrow> ('c, 'i) HandlerContext \<Rightarrow>
     string \<Rightarrow> string \<Rightarrow> hash \<Rightarrow> hash option \<Rightarrow> hash option \<Rightarrow> hash \<Rightarrow> hash \<Rightarrow> merge_out \<Rightarrow> ('c, 'i) hstate \<Rightarrow>
     merge_out \<times> ('c, 'i) hstate" where
  "merge_divergent P dflt exec C I hctx key override hashBase bindLocal bindRemote localVersion remoteVersion out s =
     (let hashLocal = hashFromPtr bindLocal;
          hashRemote = hashFromPtr bindRemote;
          choice = findMergeStrategy P C I hctx key override hashLocal hashRemote s
      in
      case applyMergeStrategy P dflt exec C choice key hashBase hashLocal hashRemote s of
        (result, s1) \<Rightarrow>
          if resolved result then (bind_all (additionalBindings result) (bind_merged key (ms_hash result) out), s1)
          else
            let out1 = out\<lparr>mo_conflicts := mo_conflicts out @
                  [new_conflict key (ch_strategy choice) hashBase bindLocal bindRemote localVersion remoteVersion]\<rparr>
            in (if bindLocal \<noteq> None then bind_merged key hashLocal out1 else out1, s1))"

definition mergeBindingAtPath ::
  "'p rev_prims_scheme \<Rightarrow> byte \<Rightarrow> ('c, 'i) execute \<Rightarrow> 'c ContentStore \<Rightarrow> 'i LocationIndex \<Rightarrow> ('c, 'i) HandlerContext \<Rightarrow>
     string \<Rightarrow> string \<Rightarrow> hash option \<Rightarrow> hash option \<Rightarrow> hash option \<Rightarrow> hash \<Rightarrow> hash \<Rightarrow> merge_out \<Rightarrow> ('c, 'i) hstate \<Rightarrow>
     (merge_out \<times> ('c, 'i) hstate) result" where
  "mergeBindingAtPath P dflt exec C I hctx key override bindBase bindLocal bindRemote localVersion remoteVersion out s =
     (let hashBase = hashFromPtr bindBase;
          hashLocal = hashFromPtr bindLocal;
          hashRemote = hashFromPtr bindRemote;
          localChanged = (hashLocal \<noteq> hashBase);
          remoteChanged = (hashRemote \<noteq> hashBase)
      in
      if \<not> localChanged \<and> \<not> remoteChanged then
        Inr (if \<not> IsZero hashBase then bind_merged key hashBase out else out, s)
      else if \<not> localChanged \<and> remoteChanged then
        Inr (if bindRemote \<noteq> None then bind_merged key hashRemote out else bind_merged key hashBase out, s)
      else if localChanged \<and> \<not> remoteChanged then
        Inr (if bindLocal \<noteq> None then bind_merged key hashLocal out
             else if \<not> IsZero hashBase then bind_merged key hashBase out else out, s)
      else if hashLocal = hashRemote then Inr (bind_merged key hashLocal out, s)
      else
        (case resolveDeletionVsEntity P dflt (resolveDeletionStrategy P C I key s) hashLocal hashRemote of
           Inl err \<Rightarrow> Inl err
         | Inr result \<Rightarrow>
             if HasConflict result
             then Inr (bind_all (SidecarBindings result) (bind_merged key (ResolvedHash result) out), s)
             else Inr (merge_divergent P dflt exec C I hctx key override hashBase bindLocal bindRemote
                         localVersion remoteVersion out s)))"

section \<open>The walk over three tries (trie_merge.go)\<close>

text \<open>\<^verbatim>\<open>loadOrEmpty\<close> of the revision extension, which leaves a node of another width as it is.\<close>

definition rev_loadOrEmpty :: "'p trie_prims_scheme \<Rightarrow> 'c ContentStore \<Rightarrow> 'c \<Rightarrow> hash \<Rightarrow> SnapshotNodeData" where
  "rev_loadOrEmpty P C cs h =
     (if IsZero h then EmptyNode
      else (case LoadTrieNode P C h cs of None \<Rightarrow> EmptyNode | Some node \<Rightarrow> node))"

definition entryAt :: "SnapshotNodeData \<Rightarrow> nat \<Rightarrow> NodeEntry option result" where
  "entryAt node p =
     (if \<not> BitmapGet (node_Map node) p then Inr None
      else let idx = PopcountBelow (node_Map node) p in
           if idx \<ge> length (node_Data node) then Inl [Panic] else Inr (Some (node_Data node ! idx)))"

fun flattenEntry ::
  "nat \<Rightarrow> 'p trie_prims_scheme \<Rightarrow> 'c ContentStore \<Rightarrow> 'c \<Rightarrow> NodeEntry option \<Rightarrow> (string, hash) gomap option" where
  "flattenEntry fuel P C cs None = Some []"
| "flattenEntry fuel P C cs (Some (Bucket b)) = Some (fold put_tuple b [])"
| "flattenEntry fuel P C cs (Some (Link h)) =
     (case LoadTrieNode P C h cs of
        None \<Rightarrow> Some []
      | Some child \<Rightarrow> map_option (\<lambda>ts. fold put_tuple ts []) (CollectSubtreeTuples fuel P C cs child))"

fun merge_keys ::
  "'p rev_prims_scheme \<Rightarrow> byte \<Rightarrow> ('c, 'i) execute \<Rightarrow> 'c ContentStore \<Rightarrow> 'i LocationIndex \<Rightarrow> ('c, 'i) HandlerContext \<Rightarrow> string \<Rightarrow>
     (string \<rightharpoonup> hash) \<Rightarrow> (string \<rightharpoonup> hash) \<Rightarrow> (string \<rightharpoonup> hash) \<Rightarrow> hash \<Rightarrow> hash \<Rightarrow> string list \<Rightarrow> merge_out \<Rightarrow> ('c, 'i) hstate \<Rightarrow>
     (merge_out \<times> ('c, 'i) hstate) result" where
  "merge_keys P dflt exec C I hctx override tB tL tR lv rv [] out s = Inr (out, s)"
| "merge_keys P dflt exec C I hctx override tB tL tR lv rv (k # ks) out s =
     (case mergeBindingAtPath P dflt exec C I hctx k override (tB k) (tL k) (tR k) lv rv out s of
        Inl err \<Rightarrow> Inl err
      | Inr (out1, s1) \<Rightarrow> merge_keys P dflt exec C I hctx override tB tL tR lv rv ks out1 s1)"

definition mergeEntries ::
  "nat \<Rightarrow> 'p rev_prims_scheme \<Rightarrow> byte \<Rightarrow> ('c, 'i) execute \<Rightarrow> 'c ContentStore \<Rightarrow> 'i LocationIndex \<Rightarrow> ('c, 'i) HandlerContext \<Rightarrow>
     string \<Rightarrow> NodeEntry option \<Rightarrow> NodeEntry option \<Rightarrow> NodeEntry option \<Rightarrow> hash \<Rightarrow> hash \<Rightarrow> merge_out \<Rightarrow> ('c, 'i) hstate \<Rightarrow>
     (merge_out \<times> ('c, 'i) hstate) result option" where
  "mergeEntries fuel P dflt exec C I hctx override eB eL eR lv rv out s =
     (case (flattenEntry fuel P C (hs_store s) eB, flattenEntry fuel P C (hs_store s) eL, flattenEntry fuel P C (hs_store s) eR) of
        (Some tB, Some tL, Some tR) \<Rightarrow>
          Some (merge_keys P dflt exec C I hctx override (gm_get tB) (gm_get tL) (gm_get tR) lv rv
                  (sort (all_keys tB tL tR)) out s)
      | _ \<Rightarrow> None)"

text \<open>The three sides have a link to the same node at a position.\<close>

definition same_link :: "NodeEntry option \<Rightarrow> NodeEntry option \<Rightarrow> NodeEntry option \<Rightarrow> hash option" where
  "same_link eB eL eR =
     (case (eB, eL, eR) of
        (Some (Link b), Some (Link l), Some (Link r)) \<Rightarrow> if b = l \<and> b = r then Some b else None
      | _ \<Rightarrow> None)"

fun merge_positions ::
  "nat \<Rightarrow> 'p rev_prims_scheme \<Rightarrow> byte \<Rightarrow> ('c, 'i) execute \<Rightarrow> 'c ContentStore \<Rightarrow> 'i LocationIndex \<Rightarrow> ('c, 'i) HandlerContext \<Rightarrow>
     string \<Rightarrow> SnapshotNodeData \<Rightarrow> SnapshotNodeData \<Rightarrow> SnapshotNodeData \<Rightarrow> hash \<Rightarrow> hash \<Rightarrow> nat list \<Rightarrow> merge_out \<Rightarrow> ('c, 'i) hstate \<Rightarrow>
     (merge_out \<times> ('c, 'i) hstate) result option" where
  "merge_positions fuel P dflt exec C I hctx override b l r lv rv [] out s = Some (Inr (out, s))"
| "merge_positions fuel P dflt exec C I hctx override b l r lv rv (p # ps) out s =
     (case (entryAt b p, entryAt l p, entryAt r p) of
        (Inr eB, Inr eL, Inr eR) \<Rightarrow>
          (case (case same_link eB eL eR of
                   Some h \<Rightarrow> map_option (\<lambda>m. Inr (bind_all m out, s)) (CollectAllBindings fuel P C (hs_store s) h '''')
                 | None \<Rightarrow> mergeEntries fuel P dflt exec C I hctx override eB eL eR lv rv out s) of
             None \<Rightarrow> None
           | Some (Inl err) \<Rightarrow> Some (Inl err)
           | Some (Inr (out1, s1)) \<Rightarrow> merge_positions fuel P dflt exec C I hctx override b l r lv rv ps out1 s1)
      | _ \<Rightarrow> Some (Inl [Panic]))"

text \<open>The loop of \<^verbatim>\<open>mergeNodes\<close> takes the set bits from the lowest, as the difference of two tries does.\<close>

definition mergeNodes ::
  "nat \<Rightarrow> 'p rev_prims_scheme \<Rightarrow> byte \<Rightarrow> ('c, 'i) execute \<Rightarrow> 'c ContentStore \<Rightarrow> 'i LocationIndex \<Rightarrow> ('c, 'i) HandlerContext \<Rightarrow>
     string \<Rightarrow> SnapshotNodeData \<Rightarrow> SnapshotNodeData \<Rightarrow> SnapshotNodeData \<Rightarrow> hash \<Rightarrow> hash \<Rightarrow> merge_out \<Rightarrow> ('c, 'i) hstate \<Rightarrow>
     (merge_out \<times> ('c, 'i) hstate) result option" where
  "mergeNodes fuel P dflt exec C I hctx override b l r lv rv out s =
     (if length (node_Map b) < BitmapBytes \<or> length (node_Map l) < BitmapBytes \<or> length (node_Map r) < BitmapBytes
      then Some (Inl [Panic])
      else merge_positions fuel P dflt exec C I hctx override b l r lv rv
             (diff_positions (BitmapU32 (node_Map b) OR BitmapU32 (node_Map l) OR BitmapU32 (node_Map r))) out s)"

abbreviation empty_out :: merge_out where
  "empty_out \<equiv> \<lparr>mo_merged = [], mo_deletions = [], mo_conflicts = []\<rparr>"

definition trieMergeBindings ::
  "nat \<Rightarrow> 'p rev_prims_scheme \<Rightarrow> byte \<Rightarrow> ('c, 'i) execute \<Rightarrow> 'c ContentStore \<Rightarrow> 'i LocationIndex \<Rightarrow> ('c, 'i) HandlerContext \<Rightarrow>
     string \<Rightarrow> hash \<Rightarrow> hash \<Rightarrow> hash \<Rightarrow> hash \<Rightarrow> hash \<Rightarrow> ('c, 'i) hstate \<Rightarrow> (merge_out \<times> ('c, 'i) hstate) result option" where
  "trieMergeBindings fuel P dflt exec C I hctx override baseRoot localRoot remoteRoot lv rv s =
     (if baseRoot = localRoot \<and> baseRoot = remoteRoot then
        map_option (\<lambda>m. Inr (empty_out\<lparr>mo_merged := m\<rparr>, s)) (CollectAllBindings fuel P C (hs_store s) baseRoot '''')
      else
        mergeNodes fuel P dflt exec C I hctx override (rev_loadOrEmpty P C (hs_store s) baseRoot)
          (rev_loadOrEmpty P C (hs_store s) localRoot) (rev_loadOrEmpty P C (hs_store s) remoteRoot) lv rv empty_out s)"

end
