(* ===== verification/Rev_Merge_Walk.thy ===== *)
theory Rev_Merge_Walk
  imports Rev_Merge Trie_Convergence
begin

text \<open>
  The walk over three tries visits each path that one of them binds exactly once, and hands the three
  bindings to \<^verbatim>\<open>mergeBindingAtPath\<close>: the early exit at a link that all sides share is a merge of equal
  bindings. What a merge of one path must keep is the contract \<open>trie_merge\<close>: the nodes of the tries stay
  readable.
\<close>

section \<open>Maps as lists\<close>

lemma fold_gm_set_id: "distinct (map fst m) \<Longrightarrow> set (map fst m) \<inter> set (map fst out) = {} \<Longrightarrow> fold (\<lambda>(k, h) out. gm_set out k h) m out = out @ m"
proof (induction m arbitrary: out)
  case (Cons b m)
  obtain k h where b: "b = (k, h)" by (cases b)
  have "k \<notin> fst ` set out" using Cons.prems(2) b by auto
  then have "gm_set out k h = out @ [(k, h)]" by (induction out) (auto simp: gm_set_def)
  then show ?case using Cons.IH [of "out @ [(k, h)]"] Cons.prems b by auto
qed simp

lemma keys_dom: "set (map fst m) = dom (gm_get m)"
  unfolding gm_get_def [abs_def] by (simp add: dom_map_of_conv_image_fst)

lemma bind_all_merged: "bind_all bs out = out\<lparr>mo_merged := fold (\<lambda>(k, h) m. gm_set m k h) bs (mo_merged out)\<rparr>"
  by (induction bs arbitrary: out) (auto simp: case_prod_beta)

lemma all_keys_set: "set (all_keys a b c) = dom (gm_get a) \<union> dom (gm_get b) \<union> dom (gm_get c)"
  by (simp add: all_keys_def keys_dom [symmetric] image_Un Un_assoc)

section \<open>Paths in sequence\<close>

lemma merge_keys_append:
  "merge_keys P dflt exec C I hctx ov mB mL mR lv rv (ks @ ks') out s =
     (case merge_keys P dflt exec C I hctx ov mB mL mR lv rv ks out s of
        Inl err \<Rightarrow> Inl err
      | Inr (out1, s1) \<Rightarrow> merge_keys P dflt exec C I hctx ov mB mL mR lv rv ks' out1 s1)"
  by (induction ks arbitrary: out s) (auto split: sum.splits)

lemma merge_keys_cong:
  "(\<And>k. k \<in> set ks \<Longrightarrow> mB k = mB' k \<and> mL k = mL' k \<and> mR k = mR' k) \<Longrightarrow>
   merge_keys P dflt exec C I hctx ov mB mL mR lv rv ks out s = merge_keys P dflt exec C I hctx ov mB' mL' mR' lv rv ks out s"
  by (induction ks arbitrary: out s) (auto split: sum.split)

lemma merge_same:
  "(\<And>k. k \<in> set ks \<Longrightarrow> m k \<noteq> Some zero_hash \<and> m k \<noteq> None) \<Longrightarrow>
   merge_keys P dflt exec C I hctx ov m m m lv rv ks out s = Inr (bind_all (map (\<lambda>k. (k, the (m k))) ks) out, s)"
proof (induction ks arbitrary: out)
  case (Cons k ks)
  then obtain h where "m k = Some h" "h \<noteq> zero_hash" by (metis list.set_intros(1) not_None_eq)
  then show ?case
    using Cons by (simp add: mergeBindingAtPath_def hashFromPtr_def IsZero_def)
qed simp

text \<open>A shared link: the bindings below it, copied.\<close>

lemma merge_link:
  assumes "CollectAllBindings fuel P' C' cs h '''' = Some m" "zero_hash \<notin> ran (gm_get m)"
  shows "distinct (map fst m)"
    "merge_keys P dflt exec C I hctx ov (gm_get m) (gm_get m) (gm_get m) lv rv (map fst m) out s = Inr (bind_all m out, s)"
proof -
  have wf: "gm_wf m" using CollectAllBindings_wf [OF assms(1)] .
  then show "distinct (map fst m)" by (simp add: gm_wf_def)
  have bound: "gm_get m k \<noteq> Some zero_hash \<and> gm_get m k \<noteq> None" if "k \<in> set (map fst m)" for k
    using that assms(2) unfolding keys_dom by (auto simp: ran_def)
  have "the (gm_get m k) = v" if "(k, v) \<in> set m" for k v using that gm_get_iff [OF wf, of k v] by simp
  then have "map (\<lambda>k. (k, the (gm_get m k))) (map fst m) = m" by (auto intro: map_idI)
  moreover have "merge_keys P dflt exec C I hctx ov (gm_get m) (gm_get m) (gm_get m) lv rv (map fst m) out s =
      Inr (bind_all (map (\<lambda>k. (k, the (gm_get m k))) (map fst m)) out, s)"
    by (rule merge_same) (rule bound)
  ultimately show "merge_keys P dflt exec C I hctx ov (gm_get m) (gm_get m) (gm_get m) lv rv (map fst m) out s = Inr (bind_all m out, s)"
    by (simp only:)
qed

section \<open>The walk\<close>

locale trie_merge =
  fixes P :: "'p rev_prims_scheme" and dflt :: byte and exec :: "('c, 'i) execute" and C :: "'c ContentStore"
    and I :: "'i LocationIndex" and hctx :: "('c, 'i) HandlerContext" and ov :: string and lv rv :: hash
    and mB mL mR :: "string \<rightharpoonup> hash" and inv :: "('c, 'i) hstate \<Rightarrow> bool"
  assumes keeps: "inv s \<Longrightarrow> mergeBindingAtPath P dflt exec C I hctx k ov (mB k) (mL k) (mR k) lv rv out s = Inr (out1, s1) \<Longrightarrow>
      inv s1 \<and> grows P C (hs_store s) (hs_store s1)"
begin

abbreviation run where
  "run \<equiv> merge_keys P dflt exec C I hctx ov mB mL mR lv rv"

lemma run_keeps: "inv s \<Longrightarrow> run ks out s = Inr (out1, s1) \<Longrightarrow> inv s1 \<and> grows P C (hs_store s) (hs_store s1)"
proof (induction ks arbitrary: out s)
  case (Cons k ks)
  obtain out2 s2 where 2: "mergeBindingAtPath P dflt exec C I hctx k ov (mB k) (mL k) (mR k) lv rv out s = Inr (out2, s2)"
    "run ks out2 s2 = Inr (out1, s1)"
    using Cons.prems(2) by (auto split: sum.splits)
  have 3: "inv s2" "grows P C (hs_store s) (hs_store s2)" using keeps [OF Cons.prems(1) 2(1)] by simp_all
  from Cons.IH [OF 3(1) 2(2)] grows_trans [OF 3(2)] show ?case by simp
qed simp

abbreviation slice :: "nat \<Rightarrow> nat \<Rightarrow> (string \<rightharpoonup> hash) \<Rightarrow> (string \<rightharpoonup> hash)" where
  "slice r p m \<equiv> at_slot P (MaxLevel - Suc r) p m"

lemma flatten_holds:
  assumes "entry_holds P dflt C c r e m" "r \<le> fuel + 1"
  obtains t where "flattenEntry fuel P C c e = Some t" "gm_get t = m"
proof (cases e)
  case None
  then show ?thesis using assms(1) that [of "[]"] by (simp add: gm_get_empty)
next
  case (Some x)
  obtain ts where ts: "tuples_of ts m" "\<And>out. collectEntryAs fuel P C c x out = Some (fold put_tuple ts out)"
    using collectEntryAs_spec [of P dflt C c r x m fuel] assms Some by blast
  moreover have "flattenEntry fuel P C c (Some x) = collectEntryAs fuel P C c x []"
    by (cases x) (simp_all split: option.split)
  ultimately show ?thesis using Some that fold_tuples [OF ts(1), of "[]"] by (simp add: gm_get_empty)
qed

lemma entryAt_node: "node_ok n \<Longrightarrow> p < 32 \<Longrightarrow> entryAt n p = Inr (node_at n p)"
  using idx_less [of n p] by (auto simp: entryAt_def node_at_def Let_def)

lemma link_bindings:
  assumes "entry_holds P dflt C c r (Some (Link h)) m" "r \<le> fuel"
  obtains out where "CollectAllBindings fuel P C c h '''' = Some out" "gm_get out = m"
proof -
  obtain n where n: "LoadTrieNode P C h c = Some n" "trie P dflt C c r n m" using assms(1) by auto
  have "r \<le> fuel + 1" using assms(2) by simp
  then obtain ts where ts: "collectSubtreeTuples fuel P C c (node_Data n) = Some ts" "tuples_of ts m"
    using collect_trie [OF n(2)] by blast
  have "fold upd_tuple ts Map.empty = m"
    using ts(2) fold_upd_bucket [of ts Map.empty] by (simp add: tuples_of_def)
  then show ?thesis
    using that n ts(1) fold_gm_set [of ts "[]", unfolded gm_get_empty]
    by (simp add: CollectAllBindings_def collectBindings_collect joinKey_def)
qed

lemma slice_dom: "k \<in> dom (slice r p m) \<Longrightarrow> slot P k (MaxLevel - Suc r) = p"
  by (auto simp: at_slot_apply split: if_splits)

lemma slice_at: "slot P k (MaxLevel - Suc r) = p \<Longrightarrow> slice r p m k = m k"
  by (simp add: at_slot_apply)

lemma slice_ran: "h \<notin> ran m \<Longrightarrow> h \<notin> ran (slice r p m)"
  by (auto simp: ran_def at_slot_apply split: if_splits)

text \<open>One position: the paths of that position, in some order.\<close>

lemma merge_position_link:
  assumes "entry_holds P dflt C (hs_store s) r (Some (Link h)) (slice r p mB)"
    "entry_holds P dflt C (hs_store s) r (Some (Link h)) (slice r p mL)"
    "entry_holds P dflt C (hs_store s) r (Some (Link h)) (slice r p mR)" "r \<le> fuel" "zero_hash \<notin> ran mB"
  obtains m where "CollectAllBindings fuel P C (hs_store s) h '''' = Some m" "distinct (map fst m)"
    "set (map fst m) = dom (slice r p mB) \<union> dom (slice r p mL) \<union> dom (slice r p mR)"
    "run (map fst m) out s = Inr (bind_all m out, s)"
proof -
  obtain m where m: "CollectAllBindings fuel P C (hs_store s) h '''' = Some m" "gm_get m = slice r p mB"
    by (rule link_bindings [OF assms(1,4)])
  obtain mL' where mL': "CollectAllBindings fuel P C (hs_store s) h '''' = Some mL'" "gm_get mL' = slice r p mL"
    by (rule link_bindings [OF assms(2,4)])
  obtain mR' where mR': "CollectAllBindings fuel P C (hs_store s) h '''' = Some mR'" "gm_get mR' = slice r p mR"
    by (rule link_bindings [OF assms(3,4)])
  have same: "slice r p mL = gm_get m" "slice r p mR = gm_get m" using m mL' mR' by simp_all
  have "zero_hash \<notin> ran (gm_get m)" unfolding m(2) by (rule slice_ran [OF assms(5)])
  note link = merge_link [OF m(1) this]
  have dom: "set (map fst m) = dom (slice r p mB) \<union> dom (slice r p mL) \<union> dom (slice r p mR)"
    unfolding keys_dom same m(2) [symmetric] by simp
  have "run (map fst m) out s = merge_keys P dflt exec C I hctx ov (gm_get m) (gm_get m) (gm_get m) lv rv (map fst m) out s"
  proof (rule merge_keys_cong)
    fix k assume "k \<in> set (map fst m)"
    then have "slot P k (MaxLevel - Suc r) = p" unfolding keys_dom m(2) by (rule slice_dom)
    then show "mB k = gm_get m k \<and> mL k = gm_get m k \<and> mR k = gm_get m k"
      using slice_at [of k r p mB] slice_at [of k r p mL] slice_at [of k r p mR] m(2) same by simp
  qed
  then have "run (map fst m) out s = Inr (bind_all m out, s)" using link(2) by (simp only:)
  with m(1) link(1) dom show ?thesis by (rule that)
qed

lemma merge_position_flat:
  assumes "entry_holds P dflt C (hs_store s) r eB (slice r p mB)" "entry_holds P dflt C (hs_store s) r eL (slice r p mL)"
    "entry_holds P dflt C (hs_store s) r eR (slice r p mR)" "r \<le> fuel"
  obtains ks where "distinct ks" "set ks = dom (slice r p mB) \<union> dom (slice r p mL) \<union> dom (slice r p mR)"
    "mergeEntries fuel P dflt exec C I hctx ov eB eL eR lv rv out s = Some (run ks out s)"
proof -
  have fuel: "r \<le> fuel + 1" using assms(4) by simp
  obtain tB where tB: "flattenEntry fuel P C (hs_store s) eB = Some tB" "gm_get tB = slice r p mB"
    by (rule flatten_holds [OF assms(1) fuel])
  obtain tL where tL: "flattenEntry fuel P C (hs_store s) eL = Some tL" "gm_get tL = slice r p mL"
    by (rule flatten_holds [OF assms(2) fuel])
  obtain tR where tR: "flattenEntry fuel P C (hs_store s) eR = Some tR" "gm_get tR = slice r p mR"
    by (rule flatten_holds [OF assms(3) fuel])
  define ks where "ks = sort (all_keys tB tL tR)"
  have keys: "set ks = dom (slice r p mB) \<union> dom (slice r p mL) \<union> dom (slice r p mR)"
    unfolding ks_def set_sort all_keys_set tB(2) tL(2) tR(2) ..
  have "merge_keys P dflt exec C I hctx ov (gm_get tB) (gm_get tL) (gm_get tR) lv rv ks out s = run ks out s"
  proof (rule merge_keys_cong)
    fix k assume "k \<in> set ks"
    then have "slot P k (MaxLevel - Suc r) = p" unfolding keys using slice_dom by blast
    then show "gm_get tB k = mB k \<and> gm_get tL k = mL k \<and> gm_get tR k = mR k"
      using slice_at [of k r p mB] slice_at [of k r p mL] slice_at [of k r p mR] tB(2) tL(2) tR(2) by simp
  qed
  then have "mergeEntries fuel P dflt exec C I hctx ov eB eL eR lv rv out s = Some (run ks out s)"
    by (simp add: mergeEntries_def tB(1) tL(1) tR(1) ks_def)
  moreover have "distinct ks" by (simp add: ks_def all_keys_def)
  ultimately show ?thesis using that keys by blast
qed

lemma same_link_iff: "same_link eB eL eR = Some h \<longleftrightarrow> eB = Some (Link h) \<and> eL = Some (Link h) \<and> eR = Some (Link h)"
  by (auto simp: same_link_def split: option.splits NodeEntry.splits)

lemma merge_position:
  assumes "entry_holds P dflt C (hs_store s) r eB (slice r p mB)" "entry_holds P dflt C (hs_store s) r eL (slice r p mL)"
    "entry_holds P dflt C (hs_store s) r eR (slice r p mR)" "r \<le> fuel" "zero_hash \<notin> ran mB"
  shows "\<exists>ks. distinct ks \<and> set ks = dom (slice r p mB) \<union> dom (slice r p mL) \<union> dom (slice r p mR) \<and>
    (case same_link eB eL eR of
        Some h \<Rightarrow> map_option (\<lambda>m. Inr (bind_all m out, s)) (CollectAllBindings fuel P C (hs_store s) h '''')
      | None \<Rightarrow> mergeEntries fuel P dflt exec C I hctx ov eB eL eR lv rv out s) = Some (run ks out s)"
proof (cases "same_link eB eL eR")
  case None
  obtain ks where ks: "distinct ks" "set ks = dom (slice r p mB) \<union> dom (slice r p mL) \<union> dom (slice r p mR)"
    "mergeEntries fuel P dflt exec C I hctx ov eB eL eR lv rv out s = Some (run ks out s)"
    by (rule merge_position_flat [OF assms(1-4)])
  then show ?thesis using None by (intro exI [of _ ks]) simp
next
  case (Some h)
  note e = Some [unfolded same_link_iff]
  obtain m where m: "CollectAllBindings fuel P C (hs_store s) h '''' = Some m" "distinct (map fst m)"
    "set (map fst m) = dom (slice r p mB) \<union> dom (slice r p mL) \<union> dom (slice r p mR)"
    "run (map fst m) out s = Inr (bind_all m out, s)"
    by (rule merge_position_link [OF _ _ _ assms(4,5)]) (use assms(1-3) e in auto)
  have "(case same_link eB eL eR of
        Some h \<Rightarrow> map_option (\<lambda>m. Inr (bind_all m out, s)) (CollectAllBindings fuel P C (hs_store s) h '''')
      | None \<Rightarrow> mergeEntries fuel P dflt exec C I hctx ov eB eL eR lv rv out s) = Some (run (map fst m) out s)"
    by (simp only: Some m(1,4) option.case option.map)
  then show ?thesis using m(2,3) by blast
qed

abbreviation bound_paths :: "string set" where
  "bound_paths \<equiv> dom mB \<union> dom mL \<union> dom mR"

lemma slice_doms:
  "dom (slice r p mB) \<union> dom (slice r p mL) \<union> dom (slice r p mR) = {k \<in> bound_paths. slot P k (MaxLevel - Suc r) = p}"
  by (auto simp: at_slot_apply split: if_splits)

text \<open>All paths of some positions, once each, in some order.\<close>

definition covers_slots :: "nat \<Rightarrow> nat set \<Rightarrow> string list \<Rightarrow> bool" where
  "covers_slots r ps ks \<longleftrightarrow> distinct ks \<and> set ks = {k \<in> bound_paths. slot P k (MaxLevel - Suc r) \<in> ps}"

lemma covers_some: "finite bound_paths \<Longrightarrow> \<exists>ks. covers_slots r ps ks"
proof -
  assume "finite bound_paths"
  then have "finite {k \<in> bound_paths. slot P k (MaxLevel - Suc r) \<in> ps}" by simp
  from finite_distinct_list [OF this] show ?thesis by (auto simp: covers_slots_def)
qed

lemma covers_Cons:
  "p \<notin> ps \<Longrightarrow> distinct ks \<Longrightarrow> set ks = {k \<in> bound_paths. slot P k (MaxLevel - Suc r) = p} \<Longrightarrow> covers_slots r ps ks' \<Longrightarrow>
   covers_slots r (insert p ps) (ks @ ks')"
  by (auto simp: covers_slots_def)

lemma merge_positions_run:
  assumes "trie P dflt C (hs_store s) (Suc r) b mB" "trie P dflt C (hs_store s) (Suc r) l mL"
    "trie P dflt C (hs_store s) (Suc r) rm mR" "r \<le> fuel" "zero_hash \<notin> ran mB" "inv s" "distinct ps" "\<forall>p \<in> set ps. p < 32"
  shows "\<exists>ks. covers_slots r (set ps) ks \<and>
    merge_positions fuel P dflt exec C I hctx ov b l rm lv rv ps out s = Some (run ks out s)"
  using assms
proof (induction ps arbitrary: out s)
  case Nil
  then show ?case by (intro exI [of _ "[]"]) (simp add: covers_slots_def)
next
  case (Cons p ps)
  have p: "p < 32" "p \<notin> set ps" "distinct ps" "\<forall>p \<in> set ps. p < 32" using Cons.prems by simp_all
  note tries = Cons.prems(1-3) [unfolded trie_Suc]
  have fin: "finite bound_paths" using Cons.prems(1-3) [THEN trie_finite] by simp
  have at: "entryAt b p = Inr (node_at b p)" "entryAt l p = Inr (node_at l p)" "entryAt rm p = Inr (node_at rm p)"
    using tries p(1) entryAt_node by simp_all
  let ?one = "case same_link (node_at b p) (node_at l p) (node_at rm p) of
      Some h \<Rightarrow> map_option (\<lambda>m. Inr (bind_all m out, s)) (CollectAllBindings fuel P C (hs_store s) h '''')
    | None \<Rightarrow> mergeEntries fuel P dflt exec C I hctx ov (node_at b p) (node_at l p) (node_at rm p) lv rv out s"
  obtain ks where ks: "distinct ks" "set ks = {k \<in> bound_paths. slot P k (MaxLevel - Suc r) = p}" "?one = Some (run ks out s)"
    using merge_position [of s r "node_at b p" p "node_at l p" "node_at rm p" fuel out] tries p(1) Cons.prems(4,5)
    unfolding slice_doms by blast
  have step: "merge_positions fuel P dflt exec C I hctx ov b l rm lv rv (p # ps) out s =
      (case run ks out s of
         Inl err \<Rightarrow> Some (Inl err)
       | Inr (out1, s1) \<Rightarrow> merge_positions fuel P dflt exec C I hctx ov b l rm lv rv ps out1 s1)"
    using ks(3) by (simp add: at split: sum.split prod.split)
  show ?case
  proof (cases "run ks out s")
    case (Inl err)
    obtain ks' where "covers_slots r (set ps) ks'" using covers_some [OF fin] by blast
    then have "covers_slots r (set (p # ps)) (ks @ ks')" using covers_Cons [OF p(2) ks(1,2)] by simp
    moreover have "run (ks @ ks') out s = Inl err" by (simp add: merge_keys_append Inl)
    ultimately show ?thesis using step Inl by (intro exI [of _ "ks @ ks'"]) simp
  next
    case (Inr z)
    obtain out1 s1 where z: "z = (out1, s1)" by (cases z)
    have s1: "inv s1" "grows P C (hs_store s) (hs_store s1)" using run_keeps [OF Cons.prems(6)] Inr z by simp_all
    obtain ks' where ks': "covers_slots r (set ps) ks'"
      "merge_positions fuel P dflt exec C I hctx ov b l rm lv rv ps out1 s1 = Some (run ks' out1 s1)"
      using Cons.IH [OF trie_grows [OF Cons.prems(1) s1(2)] trie_grows [OF Cons.prems(2) s1(2)]
          trie_grows [OF Cons.prems(3) s1(2)] Cons.prems(4,5) s1(1) p(3,4)] by blast
    have "covers_slots r (set (p # ps)) (ks @ ks')" using covers_Cons [OF p(2) ks(1,2) ks'(1)] by simp
    then show ?thesis using step ks'(2) Inr z by (intro exI [of _ "ks @ ks'"]) (simp add: merge_keys_append)
  qed
qed

lemma slot_set:
  assumes "trie P dflt C c (Suc r) n m" "k \<in> dom m"
  shows "BitmapGet (node_Map n) (slot P k (MaxLevel - Suc r))"
proof -
  let ?p = "slot P k (MaxLevel - Suc r)"
  have "?p < 32" by (rule HashSlice_less)
  then have "entry_holds P dflt C c r (node_at n ?p) (slice r ?p m)" using assms(1) by (simp add: trie_Suc)
  moreover have "slice r ?p m k \<noteq> None" using assms(2) slice_at [of k r ?p m] by auto
  ultimately have "node_at n ?p \<noteq> None" by (metis entry_holds_simps(1))
  then show ?thesis by (auto simp: node_at_def split: if_splits)
qed

lemma merge_nodes_run:
  assumes "trie P dflt C (hs_store s) MaxLevel b mB" "trie P dflt C (hs_store s) MaxLevel l mL"
    "trie P dflt C (hs_store s) MaxLevel rm mR" "MaxLevel \<le> fuel + 1" "zero_hash \<notin> ran mB" "inv s"
  shows "\<exists>ks. distinct ks \<and> set ks = bound_paths \<and> mergeNodes fuel P dflt exec C I hctx ov b l rm lv rv out s = Some (run ks out s)"
proof -
  let ?ps = "diff_positions (BitmapU32 (node_Map b) OR BitmapU32 (node_Map l) OR BitmapU32 (node_Map rm))"
  have lev: "MaxLevel = Suc (MaxLevel - 1)" by (simp add: MaxLevel_def)
  have tries: "trie P dflt C (hs_store s) (Suc (MaxLevel - 1)) b mB" "trie P dflt C (hs_store s) (Suc (MaxLevel - 1)) l mL"
    "trie P dflt C (hs_store s) (Suc (MaxLevel - 1)) rm mR"
    using assms(1-3) unfolding lev [symmetric] by simp_all
  have ps: "p \<in> set ?ps \<longleftrightarrow> p < 32 \<and> (BitmapGet (node_Map b) p \<or> BitmapGet (node_Map l) p \<or> BitmapGet (node_Map rm) p)" for p
    by (auto simp: diff_positions_filter bit_simps BitmapGet_bit)
  have fuel: "MaxLevel - 1 \<le> fuel" using assms(4) by simp
  have "distinct ?ps" "\<forall>p \<in> set ?ps. p < 32" using ps by (simp_all add: diff_positions_filter)
  then obtain ks where ks: "covers_slots (MaxLevel - 1) (set ?ps) ks"
    "merge_positions fuel P dflt exec C I hctx ov b l rm lv rv ?ps out s = Some (run ks out s)"
    using merge_positions_run [OF tries fuel assms(5,6)] by blast
  have "slot P k (MaxLevel - Suc (MaxLevel - 1)) \<in> set ?ps" if "k \<in> bound_paths" for k
    using that slot_set [OF tries(1), of k] slot_set [OF tries(2), of k] slot_set [OF tries(3), of k] HashSlice_less
    unfolding ps by blast
  then have "distinct ks" "set ks = bound_paths" using ks(1) by (auto simp: covers_slots_def)
  moreover have "length (node_Map b) = BitmapBytes" "length (node_Map l) = BitmapBytes" "length (node_Map rm) = BitmapBytes"
    using tries by (simp_all add: trie_Suc node_ok_def BitmapBytes_def)
  then have "mergeNodes fuel P dflt exec C I hctx ov b l rm lv rv out s = Some (run ks out s)"
    unfolding mergeNodes_def ks(2) by simp
  ultimately show ?thesis by blast
qed

lemma rev_loadOrEmpty_root:
  assumes "root_map P dflt C c root m"
  shows "trie P dflt C c MaxLevel (rev_loadOrEmpty P C c root) m"
proof (cases "root = zero_hash")
  case True
  have "m = Map.empty" using assms True by (auto simp: root_map_def trie_root_def)
  then have "trie P dflt C c (Suc (MaxLevel - 1)) EmptyNode m" by (simp add: trie_Suc at_slot_def)
  then show ?thesis using True by (simp add: rev_loadOrEmpty_def IsZero_def MaxLevel_def)
next
  case False
  then show ?thesis using assms by (auto simp: root_map_def trie_root_def rev_loadOrEmpty_def IsZero_def)
qed

lemma trieMerge_run:
  assumes "root_map P dflt C (hs_store s) baseRoot mB" "trie_root P dflt C (hs_store s) localRoot mL"
    "trie_root P dflt C (hs_store s) remoteRoot mR" "MaxLevel \<le> fuel + 1" "zero_hash \<notin> ran mB" "inv s"
  shows "\<exists>ks. distinct ks \<and> set ks = bound_paths \<and>
    trieMergeBindings fuel P dflt exec C I hctx ov baseRoot localRoot remoteRoot lv rv s = Some (run ks empty_out s)"
proof (cases "baseRoot = localRoot \<and> baseRoot = remoteRoot")
  case False
  note nodes = rev_loadOrEmpty_root [OF assms(1)] rev_loadOrEmpty_root [of "hs_store s" localRoot mL] rev_loadOrEmpty_root [of "hs_store s" remoteRoot mR]
  have "\<exists>ks. distinct ks \<and> set ks = bound_paths \<and> mergeNodes fuel P dflt exec C I hctx ov (rev_loadOrEmpty P C (hs_store s) baseRoot)
      (rev_loadOrEmpty P C (hs_store s) localRoot) (rev_loadOrEmpty P C (hs_store s) remoteRoot) lv rv empty_out s = Some (run ks empty_out s)"
    by (rule merge_nodes_run [OF nodes _ assms(5,6)]) (use assms(2-4) in \<open>auto simp: root_map_def\<close>)
  then show ?thesis unfolding trieMergeBindings_def if_not_P [OF False] .
next
  case True
  obtain m where m: "CollectAllBindings fuel P C (hs_store s) baseRoot '''' = Some m" "gm_get m = mL"
    using CollectAllBindings_correct [OF assms(2,4)] True by metis
  have "trie_root P dflt C (hs_store s) baseRoot mB" using assms(1,2) True by (auto simp: root_map_def trie_root_def)
  then obtain mB' where mB': "CollectAllBindings fuel P C (hs_store s) baseRoot '''' = Some mB'" "gm_get mB' = mB"
    using CollectAllBindings_correct [OF _ assms(4)] by metis
  obtain mR' where mR': "CollectAllBindings fuel P C (hs_store s) baseRoot '''' = Some mR'" "gm_get mR' = mR"
    using CollectAllBindings_correct [OF assms(3,4)] True by metis
  have maps: "mB = gm_get m" "mL = gm_get m" "mR = gm_get m" using m mB' mR' by simp_all
  have "zero_hash \<notin> ran (gm_get m)" using assms(5) maps by simp
  note link = merge_link [OF m(1) this]
  have run: "run (map fst m) empty_out s = Inr (bind_all m empty_out, s)" unfolding maps by (rule link(2))
  have "bind_all m empty_out = empty_out\<lparr>mo_merged := m\<rparr>"
    unfolding bind_all_merged using fold_gm_set_id [of m "[]"] link(1) by simp
  then have "trieMergeBindings fuel P dflt exec C I hctx ov baseRoot localRoot remoteRoot lv rv s = Some (run (map fst m) empty_out s)"
    unfolding run trieMergeBindings_def if_P [OF True] m(1) by simp
  moreover have "set (map fst m) = bound_paths" unfolding keys_dom maps by simp
  ultimately show ?thesis using link(1) by blast
qed

end

end
