(* ===== verification/Rev_Merge_Exact.thy ===== *)
theory Rev_Merge_Exact
  imports Rev_Merge_Walk
begin

text \<open>
  What a three-way merge computes under the default configuration: no merge configuration is stored and
  the request names no strategy, or the strategy \<^verbatim>\<open>three-way\<close>. The merged bindings are a function of the
  three bindings of each path, taken one by one.
\<close>

section \<open>The value of a path\<close>

text \<open>The type and the data that a memory store has for a hash.\<close>

definition content_view :: "MemoryContentStore \<Rightarrow> hash \<Rightarrow> (string \<times> bytes) option" where
  "content_view c h = map_option (\<lambda>e. (Type e, Data e)) (mcs_Get h c)"

text \<open>The entity that a merge of three entities, field by field, stores.\<close>

definition merged_entity ::
  "'p rev_prims_scheme \<Rightarrow> byte \<Rightarrow> (hash \<Rightarrow> (string \<times> bytes) option) \<Rightarrow> hash \<Rightarrow> hash \<Rightarrow> hash \<Rightarrow> entity option" where
  "merged_entity P dflt V base local remote =
     (if IsZero base \<or> IsZero local \<or> IsZero remote then None
      else (case (V base, V local, V remote) of
              (Some (tyb, db), Some (tyl, dl), Some (tyr, dr)) \<Rightarrow>
                if tyb \<noteq> tyl \<or> tyb \<noteq> tyr then None
                else (case (ecf_DecodeAnyMap P db, ecf_DecodeAnyMap P dl, ecf_DecodeAnyMap P dr) of
                        (Inr b, Inr l, Inr r) \<Rightarrow>
                          (case merge_fields b l r (all_keys b l r) [] of
                             None \<Rightarrow> None
                           | Some m \<Rightarrow> (case to_entity P dflt tyb (ecf_EncodeAnyMap P m) of Inl _ \<Rightarrow> None | Inr e \<Rightarrow> Some e))
                      | _ \<Rightarrow> None)
            | _ \<Rightarrow> None))"

text \<open>
  The value of a path whose two sides changed it in different ways: an entity wins over a deletion
  marker; else the fields are merged; else the local side stays. \<open>None\<close> in the second component is no
  conflict.
\<close>

definition divergent_value ::
  "'p rev_prims_scheme \<Rightarrow> byte \<Rightarrow> (hash \<Rightarrow> (string \<times> bytes) option) \<Rightarrow> hash option \<Rightarrow> hash option \<Rightarrow> hash option \<Rightarrow> hash option \<times> bool" where
  "divergent_value P dflt V b l r =
     (if IsDeletionMarker P (hashFromPtr l) \<and> IsDeletionMarker P (hashFromPtr r) then (Some (hashFromPtr l), False)
      else if IsDeletionMarker P (hashFromPtr l) then (Some (hashFromPtr r), False)
      else if IsDeletionMarker P (hashFromPtr r) then (Some (hashFromPtr l), False)
      else (case merged_entity P dflt V (hashFromPtr b) (hashFromPtr l) (hashFromPtr r) of
              Some e \<Rightarrow> (Some (ContentHash e), False)
            | None \<Rightarrow> (l, True)))"

definition merge_value ::
  "'p rev_prims_scheme \<Rightarrow> byte \<Rightarrow> (hash \<Rightarrow> (string \<times> bytes) option) \<Rightarrow> hash option \<Rightarrow> hash option \<Rightarrow> hash option \<Rightarrow> hash option \<times> bool" where
  "merge_value P dflt V b l r =
     (if l = b then (case r of None \<Rightarrow> b | Some h \<Rightarrow> Some h, False)
      else if r = b then (case l of None \<Rightarrow> b | Some h \<Rightarrow> Some h, False)
      else if l = r then (Some (hashFromPtr l), False)
      else divergent_value P dflt V b l r)"

section \<open>The default configuration\<close>

definition no_configs :: "'i LocationIndex \<Rightarrow> ('c, 'i) HandlerContext \<Rightarrow> 'i \<Rightarrow> bool" where
  "no_configs I hctx i \<longleftrightarrow>
     li_List I ''system/revision/config/merge/path/'' i = [] \<and>
     (\<forall>t. li_Get I (mergeConfigTypeScope t) i = None \<and> li_Get I (QualifyPath (hc_LocalPeerID hctx) (mergeConfigTypeScope t)) i = None)"

lemma type_config_none: "no_configs I hctx (hs_index s) \<Longrightarrow> type_config P C I hctx ts s = None"
  by (induction ts) (simp_all add: lookupEntity_def no_configs_def Let_def)

lemma default_strategy:
  assumes "no_configs I hctx (hs_index s)" "ov = '''' \<or> ov = ''three-way''"
  shows "findMergeStrategy P C I hctx k ov l r s = \<lparr>ch_strategy = ''three-way'', ch_handlerPath = ''''\<rparr>"
  using assms by (auto simp: findMergeStrategy_def no_configs_def type_config_none [OF assms(1)])

lemma default_deletion:
  "no_configs I hctx (hs_index s) \<Longrightarrow> resolveDeletionStrategy P C I k s = defaultDeletionStrategy"
  by (simp add: resolveDeletionStrategy_def no_configs_def)

lemma default_resolution:
  "resolveDeletionVsEntity P dflt defaultDeletionStrategy l r =
     Inr (if IsDeletionMarker P l \<and> IsDeletionMarker P r then resolved_to l
          else if IsDeletionMarker P l then resolved_to r
          else if IsDeletionMarker P r then resolved_to l
          else not_a_deletion)"
  by (auto simp: resolveDeletionVsEntity_def defaultDeletionStrategy_def Let_def)

text \<open>Storing a merged entity in a memory store.\<close>

lemma put_entity:
  assumes "to_entity P dflt t raw = Inr e"
  shows "mcs_Put P e c = (Inr (ContentHash e), c\<lparr>entities := gm_set (entities c) (ContentHash e) e\<rparr>)"
proof -
  obtain d where "NewEntityFormat P dflt t d = Inr e" using assms by (auto simp: to_entity_def NewEntity_def split: sum.splits)
  from NewEntityFormat_props [OF this] have "ComputeFormat P (Algorithm (ContentHash e)) (Type e) (Data e) = Inr (ContentHash e)"
    unfolding Validate_iff by blast
  then show ?thesis by (simp add: mcs_Put_def)
qed

lemma put_merged:
  assumes "merged_entity P dflt V b l r = Some e"
  shows "mcs_Put P e c = (Inr (ContentHash e), c\<lparr>entities := gm_set (entities c) (ContentHash e) e\<rparr>)"
proof -
  obtain t raw where "to_entity P dflt t raw = Inr e"
    using assms by (auto simp: merged_entity_def split: if_splits option.splits sum.splits)
  then show ?thesis by (rule put_entity)
qed

lemma three_way_memory:
  assumes "\<And>h. h \<in> {base, local, remote} \<Longrightarrow> \<not> IsZero h \<Longrightarrow> content_view c h = V h"
  shows "applyThreeWayMerge P dflt (MemoryContentStore_iface P) base local remote c =
    (case merged_entity P dflt V base local remote of
       None \<Rightarrow> (unresolved, c)
     | Some e \<Rightarrow> (resolve_with (ContentHash e), c\<lparr>entities := gm_set (entities c) (ContentHash e) e\<rparr>))"
proof (cases "IsZero base \<or> IsZero local \<or> IsZero remote")
  case True
  then show ?thesis by (simp add: applyThreeWayMerge_def merged_entity_def)
next
  case False
  have views: "map_option (\<lambda>e. (Type e, Data e)) (mcs_Get base c) = V base"
    "map_option (\<lambda>e. (Type e, Data e)) (mcs_Get local c) = V local" "map_option (\<lambda>e. (Type e, Data e)) (mcs_Get remote c) = V remote"
    using assms False by (simp_all add: content_view_def)
  show ?thesis
    unfolding applyThreeWayMerge_def merged_entity_def if_not_P [OF False] views [symmetric]
    by (auto simp: MemoryContentStore_iface_def put_entity split: option.splits sum.splits)
qed

section \<open>One path\<close>

text \<open>No two of the entities involved share a hash.\<close>

definition apart :: "entity \<Rightarrow> entity \<Rightarrow> bool" where
  "apart e e' \<longleftrightarrow> (ContentHash e = ContentHash e' \<longrightarrow> Type e = Type e' \<and> Data e = Data e')"

definition merged_entities ::
  "'p rev_prims_scheme \<Rightarrow> byte \<Rightarrow> (hash \<Rightarrow> (string \<times> bytes) option) \<Rightarrow> (string \<rightharpoonup> hash) \<Rightarrow> (string \<rightharpoonup> hash) \<Rightarrow> (string \<rightharpoonup> hash) \<Rightarrow>
     entity set" where
  "merged_entities P dflt V mB mL mR =
     {e. \<exists>k. merged_entity P dflt V (hashFromPtr (mB k)) (hashFromPtr (mL k)) (hashFromPtr (mR k)) = Some e}"

text \<open>
  A store in which a merge of three maps runs: the bound entities have the type and data of \<open>V\<close>, or are
  absent, and the entities that the merge may store collide with none.
\<close>

definition merge_ready ::
  "'p rev_prims_scheme \<Rightarrow> byte \<Rightarrow> (string \<rightharpoonup> hash) \<Rightarrow> (string \<rightharpoonup> hash) \<Rightarrow> (string \<rightharpoonup> hash) \<Rightarrow> (hash \<Rightarrow> (string \<times> bytes) option) \<Rightarrow>
     MemoryContentStore \<Rightarrow> bool" where
  "merge_ready P dflt mB mL mR V c \<longleftrightarrow>
     mcs_inv P c \<and>
     (\<forall>h \<in> ran mB \<union> ran mL \<union> ran mR. h \<noteq> zero_hash \<and> content_view c h = V h \<and>
        (V h = None \<longrightarrow> h \<notin> ContentHash ` merged_entities P dflt V mB mL mR)) \<and>
     (\<forall>e \<in> merged_entities P dflt V mB mL mR. \<forall>e' \<in> merged_entities P dflt V mB mL mR. apart e e') \<and>
     (\<forall>e \<in> merged_entities P dflt V mB mL mR. \<forall>h e'. mcs_Get h c = Some e' \<longrightarrow> apart e e')"

lemma view_put:
  assumes "mcs_inv P c" "\<forall>h e'. mcs_Get h c = Some e' \<longrightarrow> apart e e'" "content_view c h = None \<longrightarrow> h \<noteq> ContentHash e"
  shows "content_view (c\<lparr>entities := gm_set (entities c) (ContentHash e) e\<rparr>) h = content_view c h"
  using assms by (auto simp: content_view_def mcs_Get_def apart_def mcs_inv_def)

lemma merge_ready_put:
  assumes "merge_ready P dflt mB mL mR V c" "e \<in> merged_entities P dflt V mB mL mR"
    "mcs_Put P e c = (Inr (ContentHash e), c\<lparr>entities := gm_set (entities c) (ContentHash e) e\<rparr>)"
  shows "merge_ready P dflt mB mL mR V (c\<lparr>entities := gm_set (entities c) (ContentHash e) e\<rparr>)"
    "grows P (MemoryContentStore_iface P) c (c\<lparr>entities := gm_set (entities c) (ContentHash e) e\<rparr>)"
proof -
  let ?c = "c\<lparr>entities := gm_set (entities c) (ContentHash e) e\<rparr>"
  have inv: "mcs_inv P c" and ap: "\<forall>h e'. mcs_Get h c = Some e' \<longrightarrow> apart e e'"
    using assms(1,2) by (simp_all add: merge_ready_def)
  have "mcs_inv P ?c" using mcs_Put_inv [OF inv assms(3)] by simp
  moreover have "\<forall>h \<in> ran mB \<union> ran mL \<union> ran mR. h \<noteq> zero_hash \<and> content_view ?c h = V h \<and>
      (V h = None \<longrightarrow> h \<notin> ContentHash ` merged_entities P dflt V mB mL mR)"
  proof
    fix h assume "h \<in> ran mB \<union> ran mL \<union> ran mR"
    then have h: "h \<noteq> zero_hash" "content_view c h = V h" "V h = None \<longrightarrow> h \<notin> ContentHash ` merged_entities P dflt V mB mL mR"
      using assms(1) by (simp_all add: merge_ready_def)
    have "content_view ?c h = content_view c h" by (rule view_put [OF inv ap]) (use h(2,3) assms(2) in auto)
    then show "h \<noteq> zero_hash \<and> content_view ?c h = V h \<and> (V h = None \<longrightarrow> h \<notin> ContentHash ` merged_entities P dflt V mB mL mR)"
      using h by simp
  qed
  moreover have "\<forall>e1 \<in> merged_entities P dflt V mB mL mR. \<forall>h e'. mcs_Get h ?c = Some e' \<longrightarrow> apart e1 e'"
    using assms(1,2) by (auto simp: merge_ready_def mcs_Get_def split: if_splits)
  ultimately show "merge_ready P dflt mB mL mR V ?c" using assms(1) by (simp add: merge_ready_def)
  have "LoadTrieNode P (MemoryContentStore_iface P) h ?c = Some n" if n: "LoadTrieNode P (MemoryContentStore_iface P) h c = Some n" for h n
  proof -
    obtain x where x: "mcs_Get h c = Some x" using n by (auto simp: LoadTrieNode_def MemoryContentStore_iface_def split: option.splits)
    then have "content_view ?c h = content_view c h" using view_put [OF inv ap] by (simp add: content_view_def)
    then obtain y where "mcs_Get h ?c = Some y" "Data y = Data x" using x by (auto simp: content_view_def)
    then show ?thesis using n x by (simp add: LoadTrieNode_def MemoryContentStore_iface_def)
  qed
  then show "grows P (MemoryContentStore_iface P) c ?c" by (simp add: grows_def)
qed

text \<open>What one path adds to the outputs: its value, and a conflict if its sides do not combine.\<close>

definition merge_effect ::
  "string \<Rightarrow> hash option \<Rightarrow> hash option \<Rightarrow> hash option \<Rightarrow> hash \<Rightarrow> hash \<Rightarrow> hash option \<times> bool \<Rightarrow> merge_out \<Rightarrow> merge_out" where
  "merge_effect k b l r lv rv v out =
     (let out1 = (if snd v then out\<lparr>mo_conflicts := mo_conflicts out @ [new_conflict k ''three-way'' (hashFromPtr b) l r lv rv]\<rparr> else out)
      in (case fst v of None \<Rightarrow> out1 | Some h \<Rightarrow> bind_merged k h out1))"

lemma hashFromPtr_eq:
  "p \<noteq> Some zero_hash \<Longrightarrow> q \<noteq> Some zero_hash \<Longrightarrow> hashFromPtr p = hashFromPtr q \<longleftrightarrow> p = q"
  by (auto simp: hashFromPtr_def split: option.splits)

lemma hashFromPtr_simps [simp]: "hashFromPtr None = zero_hash" "hashFromPtr (Some h) = h"
  by (simp_all add: hashFromPtr_def)

lemma divergent_step:
  assumes ov: "ov = '''' \<or> ov = ''three-way''" and cfg: "no_configs I hctx (hs_index s)"
    and views: "\<And>h. h \<in> {hashFromPtr b, hashFromPtr l, hashFromPtr r} \<Longrightarrow> \<not> IsZero h \<Longrightarrow> content_view (hs_store s) h = V h"
    and m: "merged_entity P dflt V (hashFromPtr b) (hashFromPtr l) (hashFromPtr r) = me"
  shows "merge_divergent P dflt exec (MemoryContentStore_iface P) I hctx k ov (hashFromPtr b) l r lv rv out s =
    (case me of
       None \<Rightarrow> (merge_effect k b l r lv rv (l, True) out, s)
     | Some e \<Rightarrow> (merge_effect k b l r lv rv (Some (ContentHash e), False) out,
                  s\<lparr>hs_store := (hs_store s)\<lparr>entities := gm_set (entities (hs_store s)) (ContentHash e) e\<rparr>\<rparr>))"
  unfolding merge_divergent_def Let_def default_strategy [OF cfg ov] applyMergeStrategy_def
  using three_way_memory [of "hashFromPtr b" "hashFromPtr l" "hashFromPtr r" "hs_store s" V P dflt, OF views]
  by (cases l) (auto simp: m [symmetric] merge_effect_def Let_def split: option.splits)

text \<open>The paths that a merge settles without the strategy: one side is as the base, or both agree, or one was deleted.\<close>

lemma binding_settled:
  assumes "no_configs I hctx (hs_index s)" "b \<noteq> Some zero_hash" "l \<noteq> Some zero_hash" "r \<noteq> Some zero_hash"
    "l = b \<or> r = b \<or> l = r \<or> IsDeletionMarker P (hashFromPtr l) \<or> IsDeletionMarker P (hashFromPtr r)"
  shows "mergeBindingAtPath P dflt exec C I hctx k ov b l r lv rv out s =
    Inr (merge_effect k b l r lv rv (merge_value P dflt V b l r) out, s)"
proof -
  note eqs = hashFromPtr_eq [OF assms(3,2)] hashFromPtr_eq [OF assms(4,2)] hashFromPtr_eq [OF assms(3,4)]
  consider "l = b" | "l \<noteq> b" "r = b" | "l \<noteq> b" "r \<noteq> b" "l = r"
    | "l \<noteq> b" "r \<noteq> b" "l \<noteq> r" "IsDeletionMarker P (hashFromPtr l) \<or> IsDeletionMarker P (hashFromPtr r)"
    using assms(5) by blast
  then show ?thesis
  proof cases
    case 4
    then show ?thesis
      unfolding mergeBindingAtPath_def Let_def eqs default_deletion [OF assms(1)] default_resolution
      by (auto simp: merge_value_def divergent_value_def merge_effect_def Let_def)
  qed (use assms(2-4) in \<open>simp_all add: mergeBindingAtPath_def Let_def eqs merge_value_def merge_effect_def IsZero_def split: option.split\<close>)
qed

lemma binding_open:
  assumes "ov = '''' \<or> ov = ''three-way''" "no_configs I hctx (hs_index s)"
    "b \<noteq> Some zero_hash" "l \<noteq> Some zero_hash" "r \<noteq> Some zero_hash" "l \<noteq> b" "r \<noteq> b" "l \<noteq> r"
    "\<not> IsDeletionMarker P (hashFromPtr l)" "\<not> IsDeletionMarker P (hashFromPtr r)"
  shows "mergeBindingAtPath P dflt exec C I hctx k ov b l r lv rv out s =
    Inr (merge_divergent P dflt exec C I hctx k ov (hashFromPtr b) l r lv rv out s)"
proof -
  note eqs = hashFromPtr_eq [OF assms(4,3)] hashFromPtr_eq [OF assms(5,3)] hashFromPtr_eq [OF assms(4,5)]
  show ?thesis
    unfolding mergeBindingAtPath_def Let_def eqs default_deletion [OF assms(2)] default_resolution
    using assms(6-) by simp
qed

text \<open>One path of the three maps, in a store that is ready for the merge.\<close>

lemma binding_step:
  assumes ov: "ov = '''' \<or> ov = ''three-way''" and cfg: "no_configs I hctx (hs_index s)"
    and ready: "merge_ready P dflt mB mL mR V (hs_store s)"
  shows "\<exists>s'. mergeBindingAtPath P dflt exec (MemoryContentStore_iface P) I hctx k ov (mB k) (mL k) (mR k) lv rv out s =
      Inr (merge_effect k (mB k) (mL k) (mR k) lv rv (merge_value P dflt V (mB k) (mL k) (mR k)) out, s') \<and>
    hs_index s' = hs_index s \<and> merge_ready P dflt mB mL mR V (hs_store s') \<and>
    grows P (MemoryContentStore_iface P) (hs_store s) (hs_store s')"
proof -
  have bound: "h \<noteq> zero_hash \<and> content_view (hs_store s) h = V h"
    if "mB k = Some h \<or> mL k = Some h \<or> mR k = Some h" for h
    using ready that unfolding merge_ready_def by (blast intro: ranI)
  then have nz: "mB k \<noteq> Some zero_hash" "mL k \<noteq> Some zero_hash" "mR k \<noteq> Some zero_hash" by blast+
  have same: "grows P (MemoryContentStore_iface P) (hs_store s) (hs_store s)" by (simp add: grows_def)
  show ?thesis
  proof (cases "mL k = mB k \<or> mR k = mB k \<or> mL k = mR k \<or> IsDeletionMarker P (hashFromPtr (mL k)) \<or> IsDeletionMarker P (hashFromPtr (mR k))")
    case True
    from binding_settled [OF cfg nz this] show ?thesis using ready same by blast
  next
    case False
    have views: "content_view (hs_store s) h = V h"
      if "h \<in> {hashFromPtr (mB k), hashFromPtr (mL k), hashFromPtr (mR k)}" "\<not> IsZero h" for h
      using that bound [of h] by (auto simp: hashFromPtr_def IsZero_def split: option.splits)
    define me where "me = merged_entity P dflt V (hashFromPtr (mB k)) (hashFromPtr (mL k)) (hashFromPtr (mR k))"
    have step: "merge_divergent P dflt exec (MemoryContentStore_iface P) I hctx k ov (hashFromPtr (mB k)) (mL k) (mR k) lv rv out s =
      (case me of
         None \<Rightarrow> (merge_effect k (mB k) (mL k) (mR k) lv rv (mL k, True) out, s)
       | Some e \<Rightarrow> (merge_effect k (mB k) (mL k) (mR k) lv rv (Some (ContentHash e), False) out,
                    s\<lparr>hs_store := (hs_store s)\<lparr>entities := gm_set (entities (hs_store s)) (ContentHash e) e\<rparr>\<rparr>))"
      by (rule divergent_step [OF ov cfg _ me_def [symmetric]]) (rule views)
    have open_path: "mergeBindingAtPath P dflt exec (MemoryContentStore_iface P) I hctx k ov (mB k) (mL k) (mR k) lv rv out s =
        Inr (merge_divergent P dflt exec (MemoryContentStore_iface P) I hctx k ov (hashFromPtr (mB k)) (mL k) (mR k) lv rv out s)"
      by (rule binding_open [OF ov cfg nz]) (use False in blast)+
    have val: "merge_value P dflt V (mB k) (mL k) (mR k) = (case me of Some e \<Rightarrow> (Some (ContentHash e), False) | None \<Rightarrow> (mL k, True))"
      using False by (simp add: merge_value_def divergent_value_def me_def)
    show ?thesis
    proof (cases me)
      case None
      show ?thesis unfolding open_path step val None using ready same by auto
    next
      case (Some e)
      have e: "e \<in> merged_entities P dflt V mB mL mR" using Some by (auto simp: merged_entities_def me_def)
      have "mcs_Put P e (hs_store s) = (Inr (ContentHash e), (hs_store s)\<lparr>entities := gm_set (entities (hs_store s)) (ContentHash e) e\<rparr>)"
        using put_merged Some unfolding me_def by blast
      from merge_ready_put [OF ready e this] show ?thesis unfolding open_path step val Some by simp
    qed
  qed
qed

section \<open>The whole merge\<close>

text \<open>The effects of some paths on the outputs, in sequence.\<close>

abbreviation merge_effects where
  "merge_effects P dflt V mB mL mR lv rv ks out \<equiv>
     fold (\<lambda>k. merge_effect k (mB k) (mL k) (mR k) lv rv (merge_value P dflt V (mB k) (mL k) (mR k))) ks out"

lemma merge_keys_effects:
  assumes "ov = '''' \<or> ov = ''three-way''" "no_configs I hctx (hs_index s)" "merge_ready P dflt mB mL mR V (hs_store s)"
  shows "\<exists>s'. merge_keys P dflt exec (MemoryContentStore_iface P) I hctx ov mB mL mR lv rv ks out s =
      Inr (merge_effects P dflt V mB mL mR lv rv ks out, s') \<and>
    hs_index s' = hs_index s \<and> merge_ready P dflt mB mL mR V (hs_store s')"
  using assms(2,3)
proof (induction ks arbitrary: out s)
  case (Cons k ks)
  obtain s1 where s1: "mergeBindingAtPath P dflt exec (MemoryContentStore_iface P) I hctx k ov (mB k) (mL k) (mR k) lv rv out s =
      Inr (merge_effect k (mB k) (mL k) (mR k) lv rv (merge_value P dflt V (mB k) (mL k) (mR k)) out, s1)"
    "hs_index s1 = hs_index s" "merge_ready P dflt mB mL mR V (hs_store s1)"
    using binding_step [OF assms(1) Cons.prems] by blast
  show ?case using Cons.IH [of s1] Cons.prems(1) s1 by simp
qed simp

lemma binding_keeps:
  assumes "(ov = '''' \<or> ov = ''three-way'') \<and> no_configs I hctx (hs_index s) \<and> merge_ready P dflt mB mL mR V (hs_store s)"
    "mergeBindingAtPath P dflt exec (MemoryContentStore_iface P) I hctx k ov (mB k) (mL k) (mR k) lv rv out s = Inr (out1, s1)"
  shows "((ov = '''' \<or> ov = ''three-way'') \<and> no_configs I hctx (hs_index s1) \<and> merge_ready P dflt mB mL mR V (hs_store s1)) \<and>
    grows P (MemoryContentStore_iface P) (hs_store s) (hs_store s1)"
proof -
  have pre: "ov = '''' \<or> ov = ''three-way''" "no_configs I hctx (hs_index s)" "merge_ready P dflt mB mL mR V (hs_store s)"
    using assms(1) by simp_all
  obtain out2 s2 where s2: "mergeBindingAtPath P dflt exec (MemoryContentStore_iface P) I hctx k ov (mB k) (mL k) (mR k) lv rv out s = Inr (out2, s2)"
    "hs_index s2 = hs_index s" "merge_ready P dflt mB mL mR V (hs_store s2)"
    "grows P (MemoryContentStore_iface P) (hs_store s) (hs_store s2)"
    using binding_step [OF pre] by blast
  have "s1 = s2" using s2(1) assms(2) by simp
  then show ?thesis using s2(2-4) pre by simp
qed

text \<open>The interface of the walk, provided by the default merge over a memory store.\<close>

interpretation dm: trie_merge P dflt exec "MemoryContentStore_iface P" I hctx ov lv rv mB mL mR
  "\<lambda>s. (ov = '''' \<or> ov = ''three-way'') \<and> no_configs I hctx (hs_index s) \<and> merge_ready P dflt mB mL mR V (hs_store s)"
  for P dflt exec I hctx ov lv rv mB mL mR V
  by unfold_locales (rule binding_keeps)

lemma effects_merged:
  "distinct ks \<Longrightarrow> gm_get (mo_merged (merge_effects P dflt V mB mL mR lv rv ks out)) k =
    (if k \<in> set ks then (case fst (merge_value P dflt V (mB k) (mL k) (mR k)) of None \<Rightarrow> gm_get (mo_merged out) k | Some h \<Rightarrow> Some h)
     else gm_get (mo_merged out) k)"
  by (induction ks arbitrary: out) (auto simp: merge_effect_def Let_def split: option.split)

lemma effects_conflicts:
  "mo_conflicts (merge_effects P dflt V mB mL mR lv rv ks out) = mo_conflicts out @
     map (\<lambda>k. new_conflict k ''three-way'' (hashFromPtr (mB k)) (mL k) (mR k) lv rv)
       (filter (\<lambda>k. snd (merge_value P dflt V (mB k) (mL k) (mR k))) ks)"
  "mo_deletions (merge_effects P dflt V mB mL mR lv rv ks out) = mo_deletions out"
  by (induction ks arbitrary: out) (simp_all add: merge_effect_def Let_def split: option.split)

lemma merge_value_unbound: "merge_value P dflt V None None None = (None, False)"
  by (simp add: merge_value_def)

lemma default_merge:
  assumes "ov = '''' \<or> ov = ''three-way''" "no_configs I hctx (hs_index s)" "merge_ready P dflt mB mL mR V (hs_store s)"
    "root_map P dflt (MemoryContentStore_iface P) (hs_store s) baseRoot mB"
    "trie_root P dflt (MemoryContentStore_iface P) (hs_store s) localRoot mL"
    "trie_root P dflt (MemoryContentStore_iface P) (hs_store s) remoteRoot mR" "MaxLevel \<le> fuel + 1"
  shows "\<exists>out s'. trieMergeBindings fuel P dflt exec (MemoryContentStore_iface P) I hctx ov baseRoot localRoot remoteRoot lv rv s =
        Some (Inr (out, s')) \<and>
      gm_get (mo_merged out) = (\<lambda>k. fst (merge_value P dflt V (mB k) (mL k) (mR k))) \<and>
      distinct (map rc_Path (mo_conflicts out)) \<and>
      set (mo_conflicts out) = {new_conflict k ''three-way'' (hashFromPtr (mB k)) (mL k) (mR k) lv rv | k.
        snd (merge_value P dflt V (mB k) (mL k) (mR k))} \<and>
      mo_deletions out = [] \<and> hs_index s' = hs_index s"
proof -
  have "zero_hash \<notin> ran mB" using assms(3) by (auto simp: merge_ready_def)
  from dm.trieMerge_run [where V = V and exec = exec and lv = lv and rv = rv, OF assms(4-7) this conjI [OF assms(1) conjI [OF assms(2,3)]]]
  obtain ks where ks: "distinct ks" "set ks = dom mB \<union> dom mL \<union> dom mR"
    "trieMergeBindings fuel P dflt exec (MemoryContentStore_iface P) I hctx ov baseRoot localRoot remoteRoot lv rv s =
       Some (merge_keys P dflt exec (MemoryContentStore_iface P) I hctx ov mB mL mR lv rv ks empty_out s)"
    by (elim exE conjE) (rule that)
  from merge_keys_effects [where exec = exec and lv = lv and rv = rv and ks = ks and out = empty_out, OF assms(1-3)] obtain s' where
    run: "merge_keys P dflt exec (MemoryContentStore_iface P) I hctx ov mB mL mR lv rv ks empty_out s =
      Inr (merge_effects P dflt V mB mL mR lv rv ks empty_out, s')" and index: "hs_index s' = hs_index s"
    by (elim exE conjE) (rule that)
  define out where "out = merge_effects P dflt V mB mL mR lv rv ks empty_out"
  have unbound: "merge_value P dflt V (mB k) (mL k) (mR k) = (None, False)" if "k \<notin> set ks" for k
    using that ks(2) by (metis UnCI domIff merge_value_unbound)
  have merged: "gm_get (mo_merged out) k = fst (merge_value P dflt V (mB k) (mL k) (mR k))" for k
    using unbound [of k] unfolding out_def effects_merged [OF ks(1)] by (auto split: option.split)
  have conflicts: "mo_conflicts out = map (\<lambda>k. new_conflict k ''three-way'' (hashFromPtr (mB k)) (mL k) (mR k) lv rv)
       (filter (\<lambda>k. snd (merge_value P dflt V (mB k) (mL k) (mR k))) ks)" "mo_deletions out = []"
    unfolding out_def effects_conflicts by simp_all
  have "distinct (map rc_Path (mo_conflicts out))"
    using ks(1) by (simp add: conflicts comp_def new_conflict_def)
  moreover have "snd (merge_value P dflt V (mB k) (mL k) (mR k)) \<Longrightarrow> k \<in> set ks" for k using unbound [of k] by fastforce
  then have "set (mo_conflicts out) = {new_conflict k ''three-way'' (hashFromPtr (mB k)) (mL k) (mR k) lv rv | k.
        snd (merge_value P dflt V (mB k) (mL k) (mR k))}"
    unfolding conflicts set_map set_filter by blast
  ultimately show ?thesis using ks(3) [unfolded run, folded out_def] index merged conflicts(2) by (intro exI [of _ out] exI [of _ s'] conjI ext) assumption+
qed


text \<open>
  C31. A path that the base binds and both sides have removed comes out of a three-way merge bound to the
  zero hash, the hash of no entity, instead of unbound: the sides agree, and the branch for sides that agree
  binds the path to what they agree on.
\<close>

theorem merge_binds_zero_hash:
  assumes "ov = '''' \<or> ov = ''three-way''" "no_configs I hctx (hs_index s)" "merge_ready P dflt mB mL mR V (hs_store s)"
    "root_map P dflt (MemoryContentStore_iface P) (hs_store s) baseRoot mB"
    "trie_root P dflt (MemoryContentStore_iface P) (hs_store s) localRoot mL"
    "trie_root P dflt (MemoryContentStore_iface P) (hs_store s) remoteRoot mR" "MaxLevel \<le> fuel + 1"
    "mB k \<noteq> None" "mL k = None" "mR k = None"
  shows "\<exists>out s'. trieMergeBindings fuel P dflt exec (MemoryContentStore_iface P) I hctx ov baseRoot localRoot remoteRoot lv rv s =
        Some (Inr (out, s')) \<and> gm_get (mo_merged out) k = Some zero_hash"
proof -
  have "fst (merge_value P dflt V (mB k) (mL k) (mR k)) = Some zero_hash"
    using assms(8-10) by (auto simp: merge_value_def)
  then show ?thesis using default_merge [OF assms(1-7), of exec lv rv] by metis
qed

end
