(* ===== verification/Rev_Flat.thy ===== *)
theory Rev_Flat
  imports Rev_Merge_Exact
begin

text \<open>
  The flat merge of \<^verbatim>\<open>ext/revision/strategy.go\<close>, which takes the three maps of bindings path by path. The
  merge of three tries computes the same, except at a path that one side lacks while both differ from
  the base.
\<close>

section \<open>The flat merge (strategy.go)\<close>

text \<open>A hash of a Go map is zero where the map has no entry.\<close>

definition map_value :: "(string, hash) gomap \<Rightarrow> string \<Rightarrow> hash" where
  "map_value m k = (case gm_get m k of None \<Rightarrow> zero_hash | Some h \<Rightarrow> h)"

definition present :: "hash \<Rightarrow> hash option" where
  "present h = (if \<not> IsZero h then Some h else None)"

definition flat_binding ::
  "'p rev_prims_scheme \<Rightarrow> byte \<Rightarrow> ('c, 'i) execute \<Rightarrow> 'c ContentStore \<Rightarrow> 'i LocationIndex \<Rightarrow> ('c, 'i) HandlerContext \<Rightarrow>
     string \<Rightarrow> string \<Rightarrow> hash \<Rightarrow> hash \<Rightarrow> hash \<Rightarrow> hash \<Rightarrow> hash \<Rightarrow> merge_out \<Rightarrow> ('c, 'i) hstate \<Rightarrow>
     (merge_out \<times> ('c, 'i) hstate) result" where
  "flat_binding P dflt exec C I hctx relPath override baseHash localHash remoteHash localVersion remoteVersion out s =
     (let inLocal = (\<not> IsZero localHash);
          inRemote = (\<not> IsZero remoteHash);
          localChanged = (localHash \<noteq> baseHash);
          remoteChanged = (remoteHash \<noteq> baseHash)
      in
      if \<not> localChanged \<and> \<not> remoteChanged then
        Inr (if \<not> IsZero baseHash then bind_merged relPath baseHash out else out, s)
      else if \<not> localChanged \<and> remoteChanged then
        Inr (if inRemote then bind_merged relPath remoteHash out else bind_merged relPath baseHash out, s)
      else if localChanged \<and> \<not> remoteChanged then
        Inr (if inLocal then bind_merged relPath localHash out else bind_merged relPath baseHash out, s)
      else if localHash = remoteHash then Inr (bind_merged relPath localHash out, s)
      else if IsZero localHash then Inr (bind_merged relPath remoteHash out, s)
      else if IsZero remoteHash then Inr (bind_merged relPath localHash out, s)
      else
        (case resolveDeletionVsEntity P dflt (resolveDeletionStrategy P C I relPath s) localHash remoteHash of
           Inl err \<Rightarrow> Inl err
         | Inr result \<Rightarrow>
             if HasConflict result
             then Inr (bind_all (SidecarBindings result) (bind_merged relPath (ResolvedHash result) out), s)
             else Inr (merge_divergent P dflt exec C I hctx relPath override baseHash (present localHash) (present remoteHash)
                         localVersion remoteVersion out s)))"

fun flat_loop ::
  "'p rev_prims_scheme \<Rightarrow> byte \<Rightarrow> ('c, 'i) execute \<Rightarrow> 'c ContentStore \<Rightarrow> 'i LocationIndex \<Rightarrow> ('c, 'i) HandlerContext \<Rightarrow> string \<Rightarrow>
     (string, hash) gomap \<Rightarrow> (string, hash) gomap \<Rightarrow> (string, hash) gomap \<Rightarrow> hash \<Rightarrow> hash \<Rightarrow> string list \<Rightarrow> merge_out \<Rightarrow>
     ('c, 'i) hstate \<Rightarrow> (merge_out \<times> ('c, 'i) hstate) result" where
  "flat_loop P dflt exec C I hctx override ancestor local remote lv rv [] out s = Inr (out, s)"
| "flat_loop P dflt exec C I hctx override ancestor local remote lv rv (p # ps) out s =
     (case flat_binding P dflt exec C I hctx p override (map_value ancestor p) (map_value local p) (map_value remote p) lv rv out s of
        Inl err \<Rightarrow> Inl err
      | Inr (out1, s1) \<Rightarrow> flat_loop P dflt exec C I hctx override ancestor local remote lv rv ps out1 s1)"

text \<open>\<open>order\<close> is the iteration order of the Go map of all paths.\<close>

definition mergeSnapshots ::
  "(string list \<Rightarrow> string list) \<Rightarrow> 'p rev_prims_scheme \<Rightarrow> byte \<Rightarrow> ('c, 'i) execute \<Rightarrow> 'c ContentStore \<Rightarrow> 'i LocationIndex \<Rightarrow>
     ('c, 'i) HandlerContext \<Rightarrow> string \<Rightarrow> (string, hash) gomap \<Rightarrow> (string, hash) gomap \<Rightarrow> (string, hash) gomap \<Rightarrow> hash \<Rightarrow> hash \<Rightarrow>
     ('c, 'i) hstate \<Rightarrow> (merge_out \<times> ('c, 'i) hstate) result" where
  "mergeSnapshots order P dflt exec C I hctx override ancestor local remote lv rv s =
     flat_loop P dflt exec C I hctx override ancestor local remote lv rv (order (all_keys ancestor local remote)) empty_out s"

section \<open>Agreement with the merge of the tries\<close>

text \<open>One side lacks the path and both differ from the base.\<close>

definition one_sided :: "hash option \<Rightarrow> hash option \<Rightarrow> hash option \<Rightarrow> bool" where
  "one_sided b l r \<longleftrightarrow> l \<noteq> b \<and> r \<noteq> b \<and> l \<noteq> r \<and> (l = None \<or> r = None)"

lemma present_ptr: "p \<noteq> Some zero_hash \<Longrightarrow> present (hashFromPtr p) = p"
  by (cases p) (auto simp: present_def IsZero_def)

lemma map_value_ptr: "map_value m k = hashFromPtr (gm_get m k)"
  by (simp add: map_value_def hashFromPtr_def)

lemma flat_binding_agrees:
  assumes "b \<noteq> Some zero_hash" "l \<noteq> Some zero_hash" "r \<noteq> Some zero_hash" "\<not> one_sided b l r"
  shows "flat_binding P dflt exec C I hctx k ov (hashFromPtr b) (hashFromPtr l) (hashFromPtr r) lv rv out s =
    mergeBindingAtPath P dflt exec C I hctx k ov b l r lv rv out s"
proof -
  note eqs = hashFromPtr_eq [OF assms(2,1)] hashFromPtr_eq [OF assms(3,1)] hashFromPtr_eq [OF assms(2,3)]
  have zero: "IsZero (hashFromPtr p) \<longleftrightarrow> p = None" if "p \<noteq> Some zero_hash" for p
    using that by (cases p) (auto simp: IsZero_def)
  note zeros = zero [OF assms(1)] zero [OF assms(2)] zero [OF assms(3)]
  show ?thesis
  proof (cases "l = b \<or> r = b \<or> l = r")
    case True
    then show ?thesis unfolding flat_binding_def mergeBindingAtPath_def Let_def eqs zeros by auto
  next
    case False
    then have "l \<noteq> None" "r \<noteq> None" using assms(4) by (simp_all add: one_sided_def)
    then show ?thesis
      unfolding flat_binding_def mergeBindingAtPath_def Let_def eqs zeros present_ptr [OF assms(2)] present_ptr [OF assms(3)]
      using False by auto
  qed
qed

lemma flat_loop_agrees:
  assumes "\<And>k. gm_get a k \<noteq> Some zero_hash \<and> gm_get l k \<noteq> Some zero_hash \<and> gm_get r k \<noteq> Some zero_hash \<and>
      \<not> one_sided (gm_get a k) (gm_get l k) (gm_get r k)"
  shows "flat_loop P dflt exec C I hctx ov a l r lv rv ks out s =
    merge_keys P dflt exec C I hctx ov (gm_get a) (gm_get l) (gm_get r) lv rv ks out s"
proof (induction ks arbitrary: out s)
  case (Cons k ks)
  have "flat_binding P dflt exec C I hctx k ov (map_value a k) (map_value l k) (map_value r k) lv rv out s =
      mergeBindingAtPath P dflt exec C I hctx k ov (gm_get a k) (gm_get l k) (gm_get r k) lv rv out s"
    unfolding map_value_ptr using assms [of k] by (simp add: flat_binding_agrees)
  then show ?case using Cons.IH by (simp split: sum.split)
qed simp

text \<open>What the effects of some paths are does not depend on the order of the paths.\<close>

lemma effects_order:
  assumes "distinct ks" "distinct ks'" "set ks = set ks'"
  shows "gm_get (mo_merged (merge_effects P dflt V mB mL mR lv rv ks empty_out)) = gm_get (mo_merged (merge_effects P dflt V mB mL mR lv rv ks' empty_out))"
    "set (mo_conflicts (merge_effects P dflt V mB mL mR lv rv ks empty_out)) = set (mo_conflicts (merge_effects P dflt V mB mL mR lv rv ks' empty_out))"
  using assms(3) by (simp_all add: fun_eq_iff effects_merged [OF assms(1)] effects_merged [OF assms(2)] effects_conflicts)


text \<open>
  Where one side lacks the path and both differ from the base, the flat merge takes the side that has it;
  the merge of the tries binds the zero hash when the other side deleted the path, and else reports a
  conflict.
\<close>

lemma one_sided_flat:
  assumes "b \<noteq> Some zero_hash" "r \<noteq> zero_hash" "Some r \<noteq> b" "b \<noteq> None"
  shows "flat_binding P dflt exec C I hctx k ov (hashFromPtr b) (hashFromPtr None) (hashFromPtr (Some r)) lv rv out s = Inr (bind_merged k r out, s)"
  using assms by (auto simp: flat_binding_def Let_def IsZero_def)

lemma one_sided_trie:
  assumes "b \<noteq> None" "Some r \<noteq> b"
  shows "merge_value P dflt V b None (Some r) =
    (if IsDeletionMarker P zero_hash then (if IsDeletionMarker P r then (Some zero_hash, False) else (Some r, False))
     else if IsDeletionMarker P r then (Some zero_hash, False) else (None, True))"
  using assms by (auto simp: merge_value_def divergent_value_def merged_entity_def IsZero_def)

end
