(* ===== verification/Rev_Merge_Demo.thy ===== *)
theory Rev_Merge_Demo
  imports Rev_Demo Rev_Flat
begin

text \<open>
  Concrete merges for the witnesses of the revision extension, over the snapshots of \<open>Trie_Demo\<close>.
\<close>

section \<open>The codec\<close>

text \<open>The payloads of the revision extension: what a merge reads and stores.\<close>

definition demo_rev_prims :: rev_prims where
  "demo_rev_prims = tree_prims.extend demo_tree_prims
     (rev_prims.fields (\<lambda>_. Inr [1]) (\<lambda>_. Inr [1]) (\<lambda>_. Inl []) (\<lambda>_. Inl []) (\<lambda>_. Inl []) (\<lambda>_. Inl []) (\<lambda>_. Inr [1])
        (\<lambda>_. Inr [1]) (\<lambda>_. Inl []) (\<lambda>_. Inl [])
        (\<lambda>_. Inl []) (\<lambda>_. Inl []) (\<lambda>_. Inl []) (\<lambda>_. Inl []) (\<lambda>_. Inl []) (\<lambda>_. Inl []) (\<lambda>_. Inl []) (\<lambda>_. Inl [])
        (\<lambda>_. Inl []) (\<lambda>_. Inl []) (\<lambda>_. Inl []) (\<lambda>_. Inl []) (\<lambda>_. Inl []) (\<lambda>_. Inl []) (\<lambda>_. Inl []) (\<lambda>_. Inl [])
        (\<lambda>_. Inl []) (\<lambda>_. Inr [1]) (\<lambda>_. Inr [1]) (\<lambda>_. Inr [1]) (\<lambda>_. Inr [1]) (\<lambda>_. Inr [1]) (\<lambda>_. Inr [1]) (\<lambda>_. Inr [1])
        (\<lambda>_. Inr [1]) (\<lambda>_. Inr [1]) (\<lambda>_. Inr [1]) (\<lambda>_. Inr [1]) (\<lambda>_. Inr [1]) (\<lambda>_. Inr [1]) (\<lambda>_. Inr [1]) (\<lambda>_. Inr [1])
        (\<lambda>_. Inr [1]) (\<lambda>_. Inr [1]) (\<lambda>_. Inr [1]))"

lemma demo_rev_prims_sel [simp]:
  "sha256_Sum256 demo_rev_prims = demo_pad 32" "sha512_Sum384 demo_rev_prims = demo_pad 48"
  "ecf_EncodeHashable demo_rev_prims = (\<lambda>t d. Inr (map of_char t @ d))"
  "ecf_EncodeNode demo_rev_prims = demo_encode" "ecf_DecodeNode demo_rev_prims = demo_decode"
  by (simp_all add: demo_rev_prims_def demo_tree_prims_def demo_trie_prims_def demo_cap_prims_def cap_prims.defs trie_prims.defs
      tree_prims.defs rev_prims.defs)

lemma demo_rev_same:
  "ComputeFormat demo_rev_prims = ComputeFormat demo_trie_prims" "Compute demo_rev_prims = Compute demo_trie_prims"
  "HashKey demo_rev_prims = HashKey demo_trie_prims"
  by (intro ext; simp add: ComputeFormat_def Compute_def HashKey_def OfBytes_def)+

lemma demo_rev_entities: "NewEntity demo_rev_prims = NewEntity demo_trie_prims" "Validate demo_rev_prims = Validate demo_trie_prims"
  by (intro ext; simp add: NewEntity_def NewEntityFormat_def Validate_def hash_Validate_def demo_rev_same)+

lemma demo_rev_store: "MemoryContentStore_iface demo_rev_prims = demo_store"
  by (simp add: MemoryContentStore_iface_def mcs_Put_def demo_rev_entities demo_rev_same fun_eq_iff)

lemma demo_rev_nodes:
  "StoreTrieNode demo_rev_prims = StoreTrieNode demo_trie_prims"
  "loadOrEmpty demo_rev_prims = loadOrEmpty demo_trie_prims"
  by (intro ext; simp add: StoreTrieNode_def LoadTrieNode_def loadOrEmpty_def demo_rev_entities split: sum.split option.split)+

lemma demo_rev_prims_ok: "trie_prims_ok demo_rev_prims demo_good"
  using demo_trie_prims_ok by (simp add: trie_prims_ok_def node_codec_def digest_sizes_def)

section \<open>Three snapshots\<close>

definition demo_three :: MemoryContentStore where
  "demo_three = demo_content [[1], [97], [97, 98], [97, 98, 99]]"

lemma demo_rev_puts:
  "putAtNode demo_rev_prims 0 C EmptyNode (HashKey demo_trie_prims ''a'') 0 ''a'' (demo_v CHR ''a'') c = (Inr (demo_flat ''a''), c)"
  "putAtNode demo_rev_prims 0 C (demo_flat ''a'') (HashKey demo_trie_prims ''b'') 0 ''b'' (demo_v CHR ''b'') c = (Inr (demo_flat ''ab''), c)"
  "putAtNode demo_rev_prims 0 C (demo_flat ''ab'') (HashKey demo_trie_prims ''c'') 0 ''c'' (demo_v CHR ''c'') c = (Inr (demo_flat ''abc''), c)"
  by (simp_all add: demo_put demo_rev_same EmptyNode_demo demo_flat_def) (simp_all add: demo_tuples_def)

lemma demo_three_builds:
  "BuildTrie demo_rev_prims 0 (guarded demo_store) (demo_bindings ''a'') demo_three = (Inr (demo_node_hash [97]), demo_three)"
  "BuildTrie demo_rev_prims 0 (guarded demo_store) (demo_bindings ''ab'') demo_three = (Inr (demo_node_hash [97, 98]), demo_three)"
  "BuildTrie demo_rev_prims 0 (guarded demo_store) (demo_bindings ''abc'') demo_three = (Inr (demo_node_hash [97, 98, 99]), demo_three)"
  by (simp_all add: BuildTrie_def demo_bindings_def demo_three_def demo_rev_nodes demo_rev_same demo_run demo_rev_puts)

definition demo_snap :: "string \<Rightarrow> (string \<rightharpoonup> hash)" where
  "demo_snap ks = map_of (rev (demo_bindings ks))"

lemma demo_three_roots:
  "trie_root demo_rev_prims 0 (MemoryContentStore_iface demo_rev_prims) demo_three (demo_node_hash [97]) (demo_snap ''a'')"
  "trie_root demo_rev_prims 0 (MemoryContentStore_iface demo_rev_prims) demo_three (demo_node_hash [97, 98]) (demo_snap ''ab'')"
  "trie_root demo_rev_prims 0 (MemoryContentStore_iface demo_rev_prims) demo_three (demo_node_hash [97, 98, 99]) (demo_snap ''abc'')"
  unfolding demo_snap_def
  by (rule BuildTrie_root(2) [OF demo_rev_prims_ok demo_good_bindings], assumption,
      simp only: demo_rev_store, rule demo_three_builds)+

definition demo_merge_state :: "(MemoryContentStore, MemoryLocationIndex) hstate" where
  "demo_merge_state = \<lparr>hs_store = demo_three, hs_index = \<lparr>paths = []\<rparr>, hs_capidx = None\<rparr>"

lemma demo_no_configs: "no_configs demo_index (demo_tree_hctx t) (hs_index demo_merge_state)"
  by (simp add: no_configs_def demo_merge_state_def ns_ops mli_ops mli_List_def
      NewNamespacedIndex_def gm_get_def split: option.split)

lemma demo_v_heads:
  assumes "k \<in> set ''abc''"
  shows "demo_v k \<noteq> zero_hash" "demo_v k \<noteq> demo_node_hash raw"
proof -
  have v: "hd (Digest (demo_v k)) \<in> {97, 98, 99}" using assms by (auto simp: demo_v_def)
  have "hd (Digest zero_hash) = 0" "hd (Digest (demo_node_hash raw)) = 115"
    by (simp_all add: zero_hash_def zero_digest_def demo_node_hash_def demo_pad_def TypeTreeSnapshotNode_def)
  then show "demo_v k \<noteq> zero_hash" "demo_v k \<noteq> demo_node_hash raw" using v by auto
qed

lemma demo_three_view: "k \<in> set ''abc'' \<Longrightarrow> content_view demo_three (demo_v k) = None"
  using demo_v_heads(2) [of k] by (simp add: content_view_def mcs_Get_def demo_three_def demo_content_def gm_get_def)

lemma demo_three_inv: "mcs_inv demo_rev_prims demo_three"
proof -
  have "\<exists>raw. h = demo_node_hash raw \<and> e = demo_node_entity raw" if "gm_get (entities demo_three) h = Some e" for h e
    using that by (auto simp: demo_three_def demo_content_def gm_get_def split: if_splits)
  moreover have "gm_wf (entities demo_three)"
    by (simp add: demo_three_def gm_wf_def demo_content_def demo_raws)
  ultimately show ?thesis
    using demo_Compute by (fastforce simp: mcs_inv_def demo_node_entity_def demo_rev_same)
qed

lemma demo_snap_ran: "ran (demo_snap ks) \<subseteq> demo_v ` set ks"
  by (auto simp: demo_snap_def demo_bindings_def ran_def dest!: map_of_SomeD)

lemma demo_snap_views:
  assumes "h \<in> ran (demo_snap ks)" "set ks \<subseteq> set ''abc''"
  shows "h \<noteq> zero_hash \<and> content_view demo_three h = None"
proof -
  obtain k where k: "k \<in> set ks" "h = demo_v k" using subsetD [OF demo_snap_ran assms(1)] by (elim imageE)
  have "k \<in> set ''abc''" by (rule subsetD [OF assms(2) k(1)])
  then show ?thesis unfolding k(2) by (intro conjI demo_v_heads(1) demo_three_view)
qed

lemma demo_three_ready:
  "merge_ready demo_rev_prims 0 (demo_snap ''abc'') (demo_snap ''ab'') (demo_snap ''a'') (\<lambda>_. None) demo_three"
proof -
  have "merged_entity demo_rev_prims 0 (\<lambda>_. None) b l r = None" for b l r
    unfolding merged_entity_def by simp
  then have none: "merged_entities demo_rev_prims 0 (\<lambda>_. None) mB mL mR = {}" for mB mL mR by (simp only: merged_entities_def) simp
  have "set ''abc'' \<subseteq> set ''abc''" "set ''ab'' \<subseteq> set ''abc''" "set ''a'' \<subseteq> set ''abc''" by simp_all
  note views = demo_snap_views [OF _ this(1)] demo_snap_views [OF _ this(2)] demo_snap_views [OF _ this(3)]
  show ?thesis
    unfolding merge_ready_def none using demo_three_inv views by blast
qed

lemma demo_root_map:
  "root_map demo_rev_prims 0 (MemoryContentStore_iface demo_rev_prims) (hs_store demo_merge_state) (demo_node_hash [97, 98, 99]) (demo_snap ''abc'')"
  using demo_three_roots(3) by (simp add: root_map_def demo_merge_state_def)

lemma demo_sides:
  "trie_root demo_rev_prims 0 (MemoryContentStore_iface demo_rev_prims) (hs_store demo_merge_state) (demo_node_hash [97, 98]) (demo_snap ''ab'')"
  "trie_root demo_rev_prims 0 (MemoryContentStore_iface demo_rev_prims) (hs_store demo_merge_state) (demo_node_hash [97]) (demo_snap ''a'')"
  "merge_ready demo_rev_prims 0 (demo_snap ''abc'') (demo_snap ''ab'') (demo_snap ''a'') (\<lambda>_. None) (hs_store demo_merge_state)"
  using demo_three_roots demo_three_ready by (simp_all add: demo_merge_state_def)

section \<open>Witnesses of the merge\<close>


theorem merge_binds_zero_hash_witness:
  "\<exists>out s'. trieMergeBindings 51 demo_rev_prims 0 None (MemoryContentStore_iface demo_rev_prims) demo_index (demo_tree_hctx '''') ''three-way''
        (demo_node_hash [97, 98, 99]) (demo_node_hash [97, 98]) (demo_node_hash [97]) (ver 1) (ver 2) demo_merge_state = Some (Inr (out, s')) \<and>
      gm_get (mo_merged out) ''c'' = Some zero_hash"
  by (rule merge_binds_zero_hash [OF _ demo_no_configs demo_sides(3) demo_root_map demo_sides(1,2)])
     (simp_all add: MaxLevel_def demo_snap_def demo_bindings_def)

lemma demo_snaps:
  "gm_get (demo_bindings ''abc'') = demo_snap ''abc''" "gm_get (demo_bindings ''ab'') = demo_snap ''ab''" "gm_get (demo_bindings ''a'') = demo_snap ''a''"
  by (simp_all add: fun_eq_iff gm_get_def demo_snap_def demo_bindings_def)

lemma demo_not_one_sided: "\<not> one_sided (demo_snap ''abc'' k) (demo_snap ''ab'' k) (demo_snap ''a'' k)"
  by (auto simp: one_sided_def demo_snap_def demo_bindings_def)


section \<open>Witnesses of the configuration\<close>

theorem globMatch_wildcard_witness: "globMatch ''docs/*'' ''docs/a/b'' \<and> wildcard ''docs/*'' ''docs/a/b''"
proof -
  have "validExcludePattern ''docs/*''" "globMatch ''docs/*'' ''docs/a/b''" by code_simp+
  then show ?thesis using globMatch_wildcard by blast
qed

text \<open>Two configurations, for all paths and for those below \<^verbatim>\<open>docs/\<close>, listed in either order.\<close>

definition demo_config :: "bytes \<Rightarrow> RevisionMergeConfigData result" where
  "demo_config d = Inr \<lparr>mcfg_Pattern = (if d = [1] then ''*'' else ''docs/*''), mcfg_Strategy = ''manual'',
     mcfg_DeletionResolution = '''', mcfg_Handler = ''''\<rparr>"

definition config_prims :: rev_prims where
  "config_prims = demo_rev_prims\<lparr>ecf_DecodeMergeConfig := demo_config\<rparr>"

definition demo_configs :: "LocationEntry list" where
  "demo_configs = [\<lparr>le_Path = ''merge/all'', le_Hash = demo_node_hash [1]\<rparr>, \<lparr>le_Path = ''merge/docs'', le_Hash = demo_node_hash [97]\<rparr>]"

lemma demo_configs_get:
  "mcs_Get (demo_node_hash [1]) demo_three = Some (demo_node_entity [1])"
  "mcs_Get (demo_node_hash [97]) demo_three = Some (demo_node_entity [97])"
  by (simp_all add: mcs_Get_def demo_three_def demo_get demo_raws)

lemma demo_config_names: "mergeConfigName ''merge/all'' = ''all''" "mergeConfigName ''merge/docs'' = ''docs''"
  by code_simp+

lemma demo_config_keys:
  "moreSpecific (mergeConfigKeyOf ''docs/*'' ''docs'') (mergeConfigKeyOf ''*'' ''all'')"
  by code_simp

lemma demo_best:
  "best_config config_prims demo_store demo_three (\<lambda>_. True) mcfg_Pattern demo_configs None =
     Some (''docs/*'', mergeConfigKeyOf ''docs/*'' ''docs'')"
  by (simp add: demo_configs_def MemoryContentStore_iface_def demo_configs_get RevisionMergeConfigDataFromEntity_def config_prims_def
      demo_config_def demo_node_entity_def demo_config_names demo_config_keys Let_def)

theorem best_config_order_free_witness:
  "best_config config_prims demo_store demo_three (\<lambda>_. True) mcfg_Pattern (rev demo_configs) None =
     Some (''docs/*'', mergeConfigKeyOf ''docs/*'' ''docs'')"
proof -
  have "distinct (map (\<lambda>e. mergeConfigName (le_Path e)) demo_configs)"
    by (simp add: demo_configs_def demo_config_names)
  then show ?thesis
    using best_config_order_free [of demo_configs "rev demo_configs" config_prims demo_store demo_three "\<lambda>_. True" mcfg_Pattern] demo_best
    by simp
qed

end
