(* ===== verification/Spec2Isabelle.thy ===== *)
theory Spec2Isabelle
  imports Wire Tree_Demo Rev_Merge_Demo
begin

text \<open>
  A verification of the core of Entity Core Go (\<^verbatim>\<open>src/core\<close>): the content-addressed data model, the
  capability system that authorizes every request, the stores, the snapshot trie that names a tree
  of bindings by one hash, the environment in which handlers use them, the handler of the tree, and
  the history and merge of versions (\<^verbatim>\<open>src/ext/revision\<close>).

  \<^bold>\<open>The program and its parts.\<close> A peer keeps immutable entities in a \<^emph>\<open>content store\<close>, keyed by the hash of
  their content, and a \<^emph>\<open>location index\<close> that binds paths to hashes. Entities travel in \<^emph>\<open>envelopes\<close>
  over a framed byte stream. A request names a \<^emph>\<open>handler\<close> by path, carries a \<^emph>\<open>capability\<close>, and is
  allowed when the capability covers it and its delegation chain leads back to the local peer. A
  handler writes through its context, which notes who wrote under which capability; the notifying
  index runs the registered hooks on each change and emits an event. \<^emph>\<open>Snapshots\<close> of the tree are
  roots of a content-addressed trie, compared by their difference. \<^emph>\<open>Versions\<close> name a snapshot and the
  versions before it; two heads are joined by a three-way merge of their snapshots.

  \<^bold>\<open>Theories and sources.\<close>

  \<^item> \<open>Prelude\<close>: words, Go maps as association lists, errors as sums, strings and hex.
  \<^item> \<open>Hashing\<close> (\<^verbatim>\<open>core/hash/hash.go\<close>, \<^verbatim>\<open>core/errors\<close>): the format-tagged hash, its wire form and its
    computation. \<^verbatim>\<open>FromBytes\<close> accepts exactly the wire forms.
  \<^item> \<open>Ecf\<close> (\<^verbatim>\<open>core/ecf/forbid_tags.go\<close>): the tag scanner, shown to end and to decide the tag-free
    grammar, for which an inductive definition is given.
  \<^item> \<open>Entity_Model\<close> (\<^verbatim>\<open>core/entity\<close>): entities, envelopes, URIs; validation is content binding.
  \<^item> \<open>Wire\<close> (\<^verbatim>\<open>core/wire\<close>): frames and envelopes; round trips of whole streams.
  \<^item> \<open>Peer_Identity\<close> (\<^verbatim>\<open>core/crypto\<close>, \<^verbatim>\<open>core/types/crypto.go\<close>): peer ids, peer and signature entities.
  \<^item> \<open>Paths\<close> (path functions of \<^verbatim>\<open>core/store/store.go\<close>): absolute paths and their validation.
  \<^item> \<open>Cap_Types\<close> (\<^verbatim>\<open>core/types/granter.go\<close>, \<^verbatim>\<open>system.go\<close>, \<^verbatim>\<open>protocol.go\<close>): tokens, grants, scopes,
    caveats, requests.
  \<^item> \<open>Cap_Match\<close> (\<^verbatim>\<open>core/capability/check.go\<close>, \<^verbatim>\<open>expiry.go\<close>): patterns, scopes and permission checks. The
    locale \<open>pattern_preorder\<close> states what attenuation needs of a matcher and is interpreted for both.
  \<^item> \<open>Cap_Chain\<close>, \<open>Cap_Soundness\<close> (\<^verbatim>\<open>authority.go\<close>, \<^verbatim>\<open>delegation.go\<close>): chains, signatures, attenuation and
    caveats. A request allowed under a verified chain is allowed by a grant of the local peer.
  \<^item> \<open>Cap_Lifecycle\<close> (\<^verbatim>\<open>index.go\<close>, \<^verbatim>\<open>storage_path.go\<close>, \<^verbatim>\<open>revoked.go\<close>, \<^verbatim>\<open>grant_validity.go\<close>, \<^verbatim>\<open>mint.go\<close>,
    \<^verbatim>\<open>chainbundle.go\<close>): storage, revocation, handler grants, minting and chain bundles.
  \<^item> \<open>Store_Memory\<close> (\<^verbatim>\<open>core/store/store.go\<close>, \<^verbatim>\<open>memory.go\<close>): the store interfaces as records of methods,
    their contracts as the locales \<open>location_base\<close>, \<open>location_index\<close> and \<open>content_store\<close>, and the
    in-memory stores, which interpret them.
  \<^item> \<open>Store_Namespaced\<close> (\<^verbatim>\<open>namespaced.go\<close>): path qualification; every bound path is well formed and one
    peer's relative writes leave another's paths alone.
  \<^item> \<open>Store_Notifying\<close> (\<^verbatim>\<open>event.go\<close>, \<^verbatim>\<open>cascade.go\<close>, \<^verbatim>\<open>notifying.go\<close>, \<^verbatim>\<open>cascade_tracker.go\<close>): the write cascade,
    halting, depth refusal and the event stream, which replays to the state of the index. The index
    of a peer, the namespaced view of a notifying in-memory index, keeps the contract of an index.
  \<^item> \<open>Store_Content\<close> (\<^verbatim>\<open>notifying_content.go\<close>, \<^verbatim>\<open>content_event.go\<close>, \<^verbatim>\<open>context_fields.go\<close>): announcement of
    new entities, and the context fields.
  \<^item> \<open>Trie_Bits\<close>, \<open>Trie_Node\<close>, \<open>Trie_Diff\<close> (\<^verbatim>\<open>core/tree/trie_node.go\<close>, \<^verbatim>\<open>trie.go\<close>, \<^verbatim>\<open>trie_incremental.go\<close>,
    \<^verbatim>\<open>trie_update.go\<close>, \<^verbatim>\<open>trie_diff.go\<close>, \<^verbatim>\<open>core/types/tree.go\<close>): the snapshot trie. \<open>Trie_Sparse\<close>, \<open>Trie_Map\<close> and
    \<open>Trie_Ops\<close> hold the representation relation between nodes and finite maps and the refinement of
    each operation, in the locale \<open>trie_store\<close>; \<open>Trie_Refinement\<close> interprets it, \<open>Trie_Demo\<close> gives the
    concrete codec of the witnesses, \<open>Trie_Convergence\<close> the properties: the root hash is a canonical
    name of the bindings, removals equal rebuilds, differences are exact.
  \<^item> \<open>Handler_Context\<close> (\<^verbatim>\<open>core/handler/registry.go\<close>, \<^verbatim>\<open>handler.go\<close>): the registry with its longest-prefix
    resolution, responses, and the checked tree access of a handler.
  \<^item> \<open>Tree_Handler\<close>, \<open>Tree_Operations\<close> (\<^verbatim>\<open>core/tree/handler.go\<close>, \<^verbatim>\<open>operations.go\<close>, \<^verbatim>\<open>core/types/tree.go\<close>,
    \<^verbatim>\<open>deletion_marker.go\<close>): the handler \<^verbatim>\<open>system/tree\<close> with get, listing, put, snapshot, diff, merge and
    extract. \<open>Tree_Writes\<close>: a put refines a conditional update of the map of bindings, for every index
    that keeps the contract \<open>plain_index\<close>. \<open>Tree_Reads\<close>: listings and snapshots show exactly what the
    caller may read. \<open>Tree_Merge\<close>: a merge binds exactly what its strategy applies. \<open>Tree_Extract\<close>: bundles
    are confined and complete; the locale \<open>hash_walk\<close> carries the two walks. \<open>Tree_Demo\<close>: witnesses.
  \<^item> \<open>Rev_Types\<close> (\<^verbatim>\<open>core/types/revision.go\<close>): the payloads of the revision extension. \<open>Rev_Dag\<close>
    (\<^verbatim>\<open>ext/revision/dag.go\<close>): the walks over the version graph, in the locale \<open>version_dag\<close>; each ends and
    is exact. \<open>Rev_Strategy\<close> (\<^verbatim>\<open>snapshot.go\<close>, \<^verbatim>\<open>strategy.go\<close>, \<^verbatim>\<open>deletion_markers.go\<close>): patterns, merge configurations and
    the choice among them, which the locale \<open>total_choice\<close> shows to be free of the listing order.
    \<open>Rev_Merge\<close> (\<^verbatim>\<open>strategy.go\<close>, \<^verbatim>\<open>trie_merge.go\<close>): strategies and the merge of three tries; \<open>Rev_Merge_Walk\<close>: the
    walk hands every bound path to the merge of one path, once, for each merge that keeps the contract
    \<open>trie_merge\<close>; \<open>Rev_Merge_Exact\<close>: the default merge keeps it and computes the merge of the maps;
    \<open>Rev_Flat\<close>: the flat merge and its agreement. \<open>Rev_Demo\<close>, \<open>Rev_Merge_Demo\<close>: witnesses.

  \<^bold>\<open>How code becomes definitions.\<close> A struct is a record, an interface value a record of functions on
  the state behind it, a fallible function returns \<open>error + 'a\<close>, a panic is the error \<open>Panic\<close>. State is
  threaded through. A Go map is an association list whose order is the order of a range loop; the
  theorems hold for every order. Integers are words of their width. The clock, the default hash
  format and the process environment of hooks are arguments. Mutex-protected methods are atomic steps.

  \<^bold>\<open>Parameters and hypotheses.\<close> Code outside \<^verbatim>\<open>src\<close> is collected in the records \<open>hash_prims\<close>,
  \<open>entity_prims\<close>, \<open>crypto_prims\<close>, \<open>cap_prims\<close>, \<open>trie_prims\<close>, \<open>tree_prims\<close>, \<open>rev_prims\<close>: digest functions, signature schemes,
  Base58 and the CBOR codec. What is assumed of them is named where it is used: digests have their
  sizes, codecs invert themselves on the values at hand (\<open>trie_prims_ok\<close>), Base58 is a bijection onto its texts
  (\<open>base58_laws\<close>). No theorem assumes that hashes do not collide. The trie theorems speak of runs
  over \<open>guarded C\<close>, the store that refuses the put that would lose an entry to a collision: such a
  run is a run of the code, with the same result.

  \<^bold>\<open>Fuel and bounds.\<close> The tag scanner recurses once per nesting level and needs at most one level per byte;
  the length of the input plus one is enough. Chain walks carry the code's own depth bound (64).
  The walk of \<^verbatim>\<open>IsRevoked\<close> to the root has none; it is bounded by the number of capabilities of the
  store, which the termination theorem shows. Trie walks take fuel, and \<open>MaxLevel\<close> = 51 levels, the number of five-bit
  slices of a 256-bit key hash, are enough for every trie the code builds. The walks over versions take
  fuel; the number of links of the reachable history (\<open>link_count\<close>) bounds them.

  \<^bold>\<open>Not modelled.\<close> The CBOR library and the reflection that drives it; the SQLite store; goroutines,
  sockets and timers (\<^verbatim>\<open>core/peer\<close>); logging and error messages. The root tracker
  (\<^verbatim>\<open>core/tree\<close>), the protocol engine (\<^verbatim>\<open>core/protocol\<close>), the operations of the revision handler and the
  other extensions (\<^verbatim>\<open>ext\<close>) are not modelled yet; the order of the plan is revision operations,
  root tracker, attestations and quorums, the authorization of a request.
\<close>

end
